(* ===== verification/Go_Prelude.thy ===== *)
theory Go_Prelude
  imports Main "HOL-Library.Word"
begin

text \<open>
  Shared vocabulary of the development.  It holds the Go machine types the library uses
  (bytes and fixed-width integers as \<open>'n word\<close>, strings as byte sequences), the outcome
  type of a Go call (a value, an error value, a run-time crash, or a call that is still
  blocked), the error values of every package file, little-endian encodings of words, and
  the generic list lemmas the components use.

  The host is taken to be little-endian with 64-bit \<open>int\<close> and \<open>uintptr\<close> (amd64, arm64):
  the code reads and writes its headers through unsafe pointers in host order.
\<close>

unbundle bit_operations_syntax

named_theorems go_defs \<open>definitions that unfold to plain computation\<close>
named_theorems outcome_simps \<open>rewriting of outcomes through sequential composition\<close>
named_theorems wire_simps \<open>rewriting of wire-format reads and writes\<close>

section \<open>Machine types\<close>

type_synonym byte = "8 word"
type_synonym bytes = "8 word list"
type_synonym u8 = "8 word"
type_synonym u16 = "16 word"
type_synonym u32 = "32 word"
type_synonym u64 = "64 word"
type_synonym i32 = "32 word"

definition byte_of_char :: "char \<Rightarrow> byte" where
  "byte_of_char c = of_nat (of_char c)"

definition char_of_byte :: "byte \<Rightarrow> char" where
  "char_of_byte b = char_of (unat b)"

definition string_bytes :: "string \<Rightarrow> bytes" where
  "string_bytes s = map byte_of_char s"

definition bytes_string :: "bytes \<Rightarrow> string" where
  "bytes_string bs = map char_of_byte bs"

section \<open>Outcomes of a Go call\<close>

text \<open>
  One constructor per error value the sources build: \<open>syscall.Errno\<close>, \<open>NetlinkError\<close>,
  \<open>familyUnavailableError\<close>, and one per \<open>fmt.Errorf\<close> call, with its arguments.
\<close>

datatype error =
    Errno u64
  | NetlinkError u64
  | FamilyUnavailable string
  | ExpectedNetlinkSockaddr
  | HeaderTruncated
  | NlMsgTruncated int u32
  | MessageTruncated
  | PortIdMismatch u32 u32
  | WrongType u16 u16
  | MissingAttr u16
  | AttrWrongLength u16 nat nat
  | EmptyAttrWrongLength u16 nat
  | Uint8WrongLength u16 nat
  | Uint16WrongLength u16 nat
  | Uint32WrongLength u16 nat
  | Uint64WrongLength u16 nat
  | StringZeroLength u16
  | StringNotNulTerminated u16
  | Truncated string int nat
  | WrongPeerPid u32 u32
  | ResponseMissing
  | WrongGenlCmd u8 int int
  | NoMCGroup string string
  | WrongIfindex i32 i32
  | CannotSerializeExactMask u16
  | MaskWrongLength u16 nat nat
  | KeyWrongLength u16 nat nat
  | MaskWithoutValue u16 bytes
  | ActionWrongLength u16 nat
  | UnknownActionType u16 bytes
  | UnsupportedVportType u32
  | ConsumerError nat

text \<open>
  Run-time failures: an index or a slice expression out of range, a nil dereference, and an
  access through an unsafe pointer that runs past the end of the slice it was taken from
  (whose effect Go does not define).
\<close>

datatype crash = IndexOutOfRange | SliceBounds | UnsafeAccess | NilDereference

text \<open>
  \<open>Blocked\<close> is a call that has not returned: a system call is still waiting, or a loop has not
  ended within the number of iterations it was followed for.
\<close>

datatype pending = Waiting | OutOfFuel

datatype 'a res = Ok 'a | Err error | Crash crash | Blocked pending

primrec res_bind :: "'a res \<Rightarrow> ('a \<Rightarrow> 'b res) \<Rightarrow> 'b res" where
  "res_bind (Ok x) f = f x"
| "res_bind (Err e) f = Err e"
| "res_bind (Crash c) f = Crash c"
| "res_bind (Blocked b) f = Blocked b"

primrec map_res :: "('a \<Rightarrow> 'b) \<Rightarrow> 'a res \<Rightarrow> 'b res" where
  "map_res f (Ok x) = Ok (f x)"
| "map_res f (Err e) = Err e"
| "map_res f (Crash c) = Crash c"
| "map_res f (Blocked b) = Blocked b"

primrec is_ok :: "'a res \<Rightarrow> bool" where
  "is_ok (Ok x) = True"
| "is_ok (Err e) = False"
| "is_ok (Crash c) = False"
| "is_ok (Blocked b) = False"

primrec no_crash :: "'a res \<Rightarrow> bool" where
  "no_crash (Ok x) = True"
| "no_crash (Err e) = True"
| "no_crash (Crash c) = False"
| "no_crash (Blocked b) = True"

lemma res_bind_cong [fundef_cong]:
  "m = n \<Longrightarrow> (\<And>x. n = Ok x \<Longrightarrow> f x = g x) \<Longrightarrow> res_bind m f = res_bind n g"
  by (cases n) simp_all

lemma res_bind_eq_Ok [outcome_simps]:
  "res_bind m f = Ok y \<longleftrightarrow> (\<exists>x. m = Ok x \<and> f x = Ok y)"
  by (cases m) simp_all

lemma res_bind_eq_Crash [outcome_simps]:
  "res_bind m f = Crash c \<longleftrightarrow> m = Crash c \<or> (\<exists>x. m = Ok x \<and> f x = Crash c)"
  by (cases m) auto

lemma res_bind_eq_Err [outcome_simps]:
  "res_bind m f = Err e \<longleftrightarrow> m = Err e \<or> (\<exists>x. m = Ok x \<and> f x = Err e)"
  by (cases m) auto

lemma map_res_eq_Ok [outcome_simps]: "map_res f m = Ok y \<longleftrightarrow> (\<exists>x. m = Ok x \<and> y = f x)"
  by (cases m) auto

lemma res_bind_Ok_right [simp]: "res_bind m Ok = m"
  by (cases m) simp_all

lemma res_bind_assoc [simp]: "res_bind (res_bind m f) g = res_bind m (\<lambda>x. res_bind (f x) g)"
  by (cases m) simp_all

lemma is_ok_iff: "is_ok m \<longleftrightarrow> (\<exists>x. m = Ok x)"
  by (cases m) simp_all

lemma no_crash_iff: "no_crash m \<longleftrightarrow> (\<forall>c. m \<noteq> Crash c)"
  by (cases m) simp_all

lemma no_crash_bind:
  "no_crash m \<Longrightarrow> (\<And>x. m = Ok x \<Longrightarrow> no_crash (f x)) \<Longrightarrow> no_crash (res_bind m f)"
  by (cases m) simp_all

lemma no_crash_map_res [simp]: "no_crash (map_res f m) = no_crash m"
  by (cases m) simp_all

section \<open>Decimal numbers\<close>

text \<open>The verbs \<^verbatim>\<open>%d\<close> and \<^verbatim>\<open>%t\<close> of \<^verbatim>\<open>fmt\<close>.\<close>

definition digit :: "nat \<Rightarrow> char" where
  "digit d = char_of (48 + d)"

fun show_nat :: "nat \<Rightarrow> string" where
  "show_nat n = (if n < 10 then [digit n] else show_nat (n div 10) @ [digit (n mod 10)])"

declare show_nat.simps [simp del]

definition show_int :: "int \<Rightarrow> string" where
  "show_int i = (if i < 0 then ''-'' @ show_nat (nat (- i)) else show_nat (nat i))"

definition show_bool :: "bool \<Rightarrow> string" where
  "show_bool b = (if b then ''true'' else ''false'')"

text \<open>Reading decimal digits back.\<close>

definition read_nat :: "string \<Rightarrow> nat" where
  "read_nat s = fold (\<lambda>c n. 10 * n + (of_char c - 48)) s 0"

lemma of_char_digit: "d < 10 \<Longrightarrow> (of_char (digit d) :: nat) = 48 + d"
  by (simp add: digit_def of_char_of)

lemma read_nat_show_nat [simp]: "read_nat (show_nat n) = n"
proof (induction n rule: show_nat.induct)
  case (1 n)
  show ?case
  proof (cases "n < 10")
    case True
    then show ?thesis by (simp add: show_nat.simps [of n] read_nat_def of_char_digit)
  next
    case False
    then show ?thesis using 1
      by (simp add: show_nat.simps [of n] read_nat_def of_char_digit)
  qed
qed

section \<open>Little-endian words\<close>

fun le_nat :: "bytes \<Rightarrow> nat" where
  "le_nat [] = 0"
| "le_nat (b # bs) = unat b + 256 * le_nat bs"

fun nat_le :: "nat \<Rightarrow> nat \<Rightarrow> bytes" where
  "nat_le 0 v = []"
| "nat_le (Suc n) v = of_nat v # nat_le n (v div 256)"

definition enc_word :: "nat \<Rightarrow> 'a::len word \<Rightarrow> bytes" where
  "enc_word n w = nat_le n (unat w)"

definition dec_word :: "bytes \<Rightarrow> 'a::len word" where
  "dec_word bs = of_nat (le_nat bs)"

lemma nat_le_numeral [simp]:
  "nat_le (numeral k) v = of_nat v # nat_le (pred_numeral k) (v div 256)"
  using nat_le.simps(2) [of "pred_numeral k" v] by (simp only: numeral_eq_Suc [of k])

lemma length_nat_le [simp]: "length (nat_le n v) = n"
  by (induction n arbitrary: v) simp_all

lemma unat_byte_less: "unat (b :: byte) < 256"
  using unsigned_less [of b, where 'a = nat] by simp

lemma unat_of_nat_byte [simp]: "unat (of_nat v :: byte) = v mod 256"
  by (simp add: unat_of_nat)

lemma le_nat_nat_le [wire_simps]: "le_nat (nat_le n v) = v mod 256 ^ n"
proof (induction n arbitrary: v)
  case 0
  then show ?case by simp
next
  case (Suc n)
  have "v mod (256 * 256 ^ n) = 256 * (v div 256 mod 256 ^ n) + v mod 256"
    by (rule mod_mult2_eq)
  then show ?case by (simp add: Suc.IH)
qed

lemma le_nat_bound: "le_nat bs < 256 ^ length bs"
proof (induction bs)
  case Nil
  then show ?case by simp
next
  case (Cons b bs)
  have "unat b < 256" by (rule unat_byte_less)
  with Cons show ?case by simp
qed

lemma nat_le_le_nat [wire_simps]: "nat_le (length bs) (le_nat bs) = bs"
proof (induction bs)
  case Nil
  then show ?case by simp
next
  case (Cons b bs)
  have lt: "unat b < 256" by (rule unat_byte_less)
  have "of_nat (unat b + 256 * le_nat bs) = (of_nat (unat b) :: byte)"
  proof -
    have "unat (of_nat (unat b + 256 * le_nat bs) :: byte) = unat b"
      using lt by (simp only: unat_of_nat_byte) simp
    then show ?thesis by (simp only: word_unat_eq_iff unat_of_nat_byte) (use lt in simp)
  qed
  with lt Cons show ?case by simp
qed

lemma length_enc_word [simp]: "length (enc_word n w) = n"
  by (simp add: enc_word_def)

lemma dec_enc_word:
  assumes "LENGTH('a::len) \<le> 8 * n"
  shows "dec_word (enc_word n (w :: 'a word)) = w"
proof -
  have "unat w < 2 ^ LENGTH('a)" by (rule unsigned_less)
  also have "\<dots> \<le> 2 ^ (8 * n)" using assms by (rule power_increasing) simp
  also have "\<dots> = 256 ^ n" by (simp add: power_mult)
  finally show ?thesis
    by (simp add: dec_word_def enc_word_def le_nat_nat_le)
qed

lemma enc_dec_word:
  assumes "8 * length bs \<le> LENGTH('a::len)"
  shows "enc_word (length bs) (dec_word bs :: 'a word) = bs"
proof -
  have "le_nat bs < 256 ^ length bs" by (rule le_nat_bound)
  also have "\<dots> = 2 ^ (8 * length bs)" by (simp add: power_mult)
  also have "\<dots> \<le> 2 ^ LENGTH('a)" using assms by (rule power_increasing) simp
  finally have "unat (of_nat (le_nat bs) :: 'a word) = le_nat bs"
    by (simp add: unat_of_nat)
  then show ?thesis
    by (simp add: dec_word_def enc_word_def nat_le_le_nat)
qed

lemma dec_enc_widths [simp, wire_simps]:
  "dec_word (enc_word (Suc 0) (a :: u8)) = a"
  "dec_word (enc_word 2 (b :: u16)) = b"
  "dec_word (enc_word 4 (c :: u32)) = c"
  "dec_word (enc_word 8 (d :: u64)) = d"
  by (simp_all add: dec_enc_word)

lemma enc_dec_widths:
  "length xs = 2 \<Longrightarrow> enc_word 2 (dec_word xs :: u16) = xs"
  "length xs = 4 \<Longrightarrow> enc_word 4 (dec_word xs :: u32) = xs"
  "length xs = 8 \<Longrightarrow> enc_word 8 (dec_word xs :: u64) = xs"
  using enc_dec_word [of xs, where 'a = 16] enc_dec_word [of xs, where 'a = 32]
    enc_dec_word [of xs, where 'a = 64] by simp_all

section \<open>Strings\<close>

lemma char_of_byte_of_char [simp]: "char_of_byte (byte_of_char c) = c"
proof -
  have lt: "(of_char c :: nat) < 256" by simp
  then have "unat (of_nat (of_char c) :: byte) = of_char c" by simp
  then show ?thesis by (simp add: char_of_byte_def byte_of_char_def)
qed

lemma byte_of_char_of_byte [simp]: "byte_of_char (char_of_byte b) = b"
proof -
  have "unat b < 256" by (rule unat_byte_less)
  then show ?thesis by (simp add: char_of_byte_def byte_of_char_def)
qed

lemma bytes_string_bytes [simp]: "bytes_string (string_bytes s) = s"
  by (simp add: bytes_string_def string_bytes_def o_def)

lemma string_bytes_string [simp]: "string_bytes (bytes_string bs) = bs"
  by (simp add: bytes_string_def string_bytes_def o_def)

lemma length_string_bytes [simp]: "length (string_bytes s) = length s"
  by (simp add: string_bytes_def)

section \<open>Overwriting part of a list\<close>

definition write_at :: "'a list \<Rightarrow> nat \<Rightarrow> 'a list \<Rightarrow> 'a list" where
  "write_at xs i ys = take i xs @ ys @ drop (i + length ys) xs"

definition read_at :: "'a list \<Rightarrow> nat \<Rightarrow> nat \<Rightarrow> 'a list" where
  "read_at xs i n = take n (drop i xs)"

lemma length_write_at [simp]: "i + length ys \<le> length xs \<Longrightarrow> length (write_at xs i ys) = length xs"
  by (simp add: write_at_def)

lemma write_at_append:
  "i = length xs \<Longrightarrow> length ys = length zs \<Longrightarrow> write_at (xs @ zs @ ws) i ys = xs @ ys @ ws"
  by (simp add: write_at_def)

lemma take_write_at:
  "i + length ys \<le> n \<Longrightarrow> n \<le> length xs \<Longrightarrow> take n (write_at xs i ys) = write_at (take n xs) i ys"
  by (simp add: write_at_def min_absorb2 drop_take)

lemma drop_write_at:
  "i + length ys \<le> n \<Longrightarrow> n \<le> length xs \<Longrightarrow> drop n (write_at xs i ys) = drop n xs"
  by (simp add: write_at_def)

lemma length_read_at [simp]: "length (read_at xs i n) = min n (length xs - i)"
  by (simp add: read_at_def min.commute)

lemma read_at_append_left:
  "i + n \<le> length xs \<Longrightarrow> read_at (xs @ ys) i n = read_at xs i n"
  by (simp add: read_at_def)

lemma read_at_append_right:
  "length xs \<le> i \<Longrightarrow> read_at (xs @ ys) i n = read_at ys (i - length xs) n"
  by (simp add: read_at_def)

lemma read_at_0: "read_at xs 0 n = take n xs"
  by (simp add: read_at_def)

end
