(* ===== verification/Unsafe_Memory.thy ===== *)
theory Unsafe_Memory
  imports Go_Prelude
begin

text \<open>
  Model of \<^verbatim>\<open>odp/unsafe.go\<close>: byte slices with their backing memory, the aligned allocator, and
  the accessors that reinterpret part of a slice as a header.

  A slice is its start address, the memory from its start to the end of its capacity, and
  its length.  The address a fresh allocation gets is an argument of the allocator, so what
  is proved holds wherever the run-time system places it.
\<close>

section \<open>Slices\<close>

record slice =
  saddr :: u64
  smem :: bytes
  slen :: nat

definition scap :: "slice \<Rightarrow> nat" where
  "scap s = length (smem s)"

definition sbytes :: "slice \<Rightarrow> bytes" where
  "sbytes s = take (slen s) (smem s)"

definition nil_slice :: slice where
  "nil_slice = \<lparr>saddr = 0, smem = [], slen = 0\<rparr>"

text \<open>The slice expression \<^verbatim>\<open>s[lo:hi]\<close>: bounded by the capacity, not by the length.\<close>

definition reslice :: "slice \<Rightarrow> nat \<Rightarrow> nat \<Rightarrow> slice res" where
  "reslice s lo hi =
     (if lo \<le> hi \<and> hi \<le> scap s
      then Ok \<lparr>saddr = saddr s + of_nat lo, smem = drop lo (smem s), slen = hi - lo\<rparr>
      else Crash SliceBounds)"

text \<open>
  A slice in good order: the length is within the capacity and the memory past the length
  has not been written since it was allocated.
\<close>

definition slice_ok :: "slice \<Rightarrow> bool" where
  "slice_ok s \<longleftrightarrow> slen s \<le> scap s \<and> (\<forall>b \<in> set (drop (slen s) (smem s)). b = 0)"

section \<open>Aligned allocation\<close>

definition ALIGN_BUFFERS :: nat where
  "ALIGN_BUFFERS = 8"

definition MakeAlignedByteSliceCap :: "u64 \<Rightarrow> nat \<Rightarrow> nat \<Rightarrow> slice res" where
  "MakeAlignedByteSliceCap addr len cap =
     (let b = \<lparr>saddr = addr, smem = replicate (cap + ALIGN_BUFFERS - 1) 0,
               slen = cap + ALIGN_BUFFERS - 1\<rparr>;
          off = unat (addr AND of_nat (ALIGN_BUFFERS - 1))
      in if off = 0 then reslice b 0 len
         else (let off' = ALIGN_BUFFERS - off in reslice b off' (len + off')))"

definition MakeAlignedByteSlice :: "u64 \<Rightarrow> nat \<Rightarrow> slice res" where
  "MakeAlignedByteSlice addr len = MakeAlignedByteSliceCap addr len len"

section \<open>Access through unsafe pointers\<close>

text \<open>
  Taking \<^verbatim>\<open>&data[pos]\<close> checks \<open>pos\<close> against the length only; the access that follows may
  still run past the end.  \<open>peek data pos off n\<close> reads \<open>n\<close> bytes at offset \<open>off\<close> of the
  header at \<open>pos\<close>, and \<open>poke\<close> writes there.
\<close>

definition peek :: "bytes \<Rightarrow> nat \<Rightarrow> nat \<Rightarrow> nat \<Rightarrow> bytes res" where
  "peek data pos off n =
     (if pos < length data
      then (if pos + off + n \<le> length data then Ok (read_at data (pos + off) n)
            else Crash UnsafeAccess)
      else Crash IndexOutOfRange)"

definition poke :: "slice \<Rightarrow> nat \<Rightarrow> nat \<Rightarrow> bytes \<Rightarrow> slice res" where
  "poke s pos off bs =
     (if pos < slen s
      then (if pos + off + length bs \<le> slen s
            then Ok (s\<lparr>smem := write_at (smem s) (pos + off) bs\<rparr>)
            else Crash UnsafeAccess)
      else Crash IndexOutOfRange)"

definition uint16At :: "bytes \<Rightarrow> nat \<Rightarrow> u16 res" where
  "uint16At data pos = map_res dec_word (peek data pos 0 2)"

definition uint32At :: "bytes \<Rightarrow> nat \<Rightarrow> u32 res" where
  "uint32At data pos = map_res dec_word (peek data pos 0 4)"

definition int32At :: "bytes \<Rightarrow> nat \<Rightarrow> i32 res" where
  "int32At data pos = map_res dec_word (peek data pos 0 4)"

definition uint64At :: "bytes \<Rightarrow> nat \<Rightarrow> u64 res" where
  "uint64At data pos = map_res dec_word (peek data pos 0 8)"

text \<open>The headers the code overlays on the data, with the kernel's field layout.\<close>

record NlMsghdr =
  Len :: u32
  Type :: u16
  Flags :: u16
  Seq :: u32
  Pid :: u32

record NlAttr =
  nlaLen :: u16
  nlaType :: u16

record GenlMsghdr =
  Cmd :: u8
  Version :: u8
  Reserved :: u16

record OvsHeader =
  DpIfIndex :: i32

record OvsFlowStats =
  NPackets :: u64
  NBytes :: u64

definition nlMsghdrAt :: "bytes \<Rightarrow> nat \<Rightarrow> NlMsghdr res" where
  "nlMsghdrAt data pos =
     map_res (\<lambda>h. \<lparr>Len = dec_word (read_at h 0 4), Type = dec_word (read_at h 4 2),
                    Flags = dec_word (read_at h 6 2), Seq = dec_word (read_at h 8 4),
                    Pid = dec_word (read_at h 12 4)\<rparr>)
       (peek data pos 0 16)"

definition nlAttrAt :: "bytes \<Rightarrow> nat \<Rightarrow> NlAttr res" where
  "nlAttrAt data pos =
     map_res (\<lambda>h. \<lparr>nlaLen = dec_word (read_at h 0 2), nlaType = dec_word (read_at h 2 2)\<rparr>)
       (peek data pos 0 4)"

text \<open>Only the \<open>Error\<close> field of an \<open>nlmsgerr\<close> is ever read.\<close>

definition nlMsgerrAt :: "bytes \<Rightarrow> nat \<Rightarrow> i32 res" where
  "nlMsgerrAt data pos = map_res dec_word (peek data pos 0 4)"

definition genlMsghdrAt :: "bytes \<Rightarrow> nat \<Rightarrow> GenlMsghdr res" where
  "genlMsghdrAt data pos =
     map_res (\<lambda>h. \<lparr>Cmd = dec_word (read_at h 0 1), Version = dec_word (read_at h 1 1),
                    Reserved = dec_word (read_at h 2 2)\<rparr>)
       (peek data pos 0 4)"

definition ovsHeaderAt :: "bytes \<Rightarrow> nat \<Rightarrow> OvsHeader res" where
  "ovsHeaderAt data pos =
     map_res (\<lambda>h. \<lparr>DpIfIndex = dec_word h\<rparr>) (peek data pos 0 4)"

definition ovsFlowStatsAt :: "bytes \<Rightarrow> nat \<Rightarrow> OvsFlowStats res" where
  "ovsFlowStatsAt data pos =
     map_res (\<lambda>h. \<lparr>NPackets = dec_word (read_at h 0 8), NBytes = dec_word (read_at h 8 8)\<rparr>)
       (peek data pos 0 16)"

text \<open>
  \<^verbatim>\<open>uint16FromBE\<close> looks at the two bytes of its argument in memory order.
\<close>

definition uint16FromBE :: "u16 \<Rightarrow> u16" where
  "uint16FromBE n =
     (let a = enc_word 2 n in push_bit 8 (ucast (a ! 0)) + ucast (a ! 1))"

definition uint16ToBE :: "u16 \<Rightarrow> u16" where
  "uint16ToBE n = uint16FromBE n"

section \<open>Lemmas\<close>

lemma length_sbytes [simp]: "slice_ok s \<Longrightarrow> length (sbytes s) = slen s"
  by (simp add: sbytes_def slice_ok_def scap_def)

lemma nil_slice_ok [simp]: "slice_ok nil_slice" "sbytes nil_slice = []"
  by (simp_all add: slice_ok_def nil_slice_def sbytes_def scap_def)

lemma zeros_eq_replicate: "(\<forall>b \<in> set xs. b = z) \<Longrightarrow> xs = replicate (length xs) z"
  by (induction xs) simp_all

lemma reslice_grow:
  assumes "slice_ok s" "slen s \<le> l" "l \<le> scap s"
  obtains s' where "reslice s 0 l = Ok s'" "slice_ok s'" "slen s' = l" "scap s' = scap s"
    "saddr s' = saddr s" "sbytes s' = sbytes s @ replicate (l - slen s) 0"
proof -
  let ?s = "\<lparr>saddr = saddr s, smem = smem s, slen = l\<rparr>"
  let ?rest = "drop (slen s) (smem s)"
  have zeros: "?rest = replicate (length ?rest) 0"
    using assms(1) by (intro zeros_eq_replicate) (simp add: slice_ok_def)
  have "take l (smem s) = take (slen s) (smem s) @ take (l - slen s) ?rest"
    using assms(2) by (metis le_add_diff_inverse take_add)
  also have "take (l - slen s) ?rest = replicate (l - slen s) 0"
    using assms(2,3) by (subst zeros) (simp add: scap_def min_absorb1)
  finally have sb: "sbytes ?s = sbytes s @ replicate (l - slen s) 0"
    by (simp add: sbytes_def)
  have "set (drop l (smem s)) \<subseteq> set ?rest"
    using assms(2) by (rule set_drop_subset_set_drop)
  with assms have "slice_ok ?s"
    by (auto simp: slice_ok_def scap_def)
  with sb assms that [of ?s] show thesis
    by (simp add: reslice_def scap_def)
qed

lemma unat_and_7: "unat (addr AND 7 :: u64) = unat addr mod 8"
proof -
  have "addr AND 7 = take_bit 3 addr"
    by (simp add: take_bit_eq_mask mask_eq_exp_minus_1)
  then have "unat (addr AND 7) = take_bit 3 (unat addr)"
    by (simp only: unsigned_take_bit_eq)
  then show ?thesis by (simp add: take_bit_eq_mod)
qed

lemma MakeAlignedByteSliceCap_spec:
  assumes "len \<le> cap"
  obtains s where "MakeAlignedByteSliceCap addr len cap = Ok s" "slice_ok s" "slen s = len"
    "cap \<le> scap s" "sbytes s = replicate len 0" "8 dvd unat (saddr s)"
proof -
  define off where "off = unat addr mod 8"
  define off' where "off' = (if off = 0 then 0 else 8 - off)"
  let ?s = "\<lparr>saddr = addr + of_nat off', smem = replicate (cap + 7 - off') 0, slen = len\<rparr> :: slice"
  have off: "off < 8" by (simp add: off_def)
  have le: "off' \<le> 7" by (auto simp: off'_def)
  have mk: "MakeAlignedByteSliceCap addr len cap = Ok ?s"
    using assms off by (auto simp: MakeAlignedByteSliceCap_def reslice_def scap_def ALIGN_BUFFERS_def
        unat_and_7 Let_def off'_def simp flip: off_def)
  have "(unat addr + off') mod 8 = 0"
    unfolding off'_def off_def by presburger
  then have al: "8 dvd unat (saddr ?s)"
    using le by (auto simp: unat_word_ariths unat_of_nat mod_simps dvd_eq_mod_eq_0 mod_mod_cancel)
  from that [OF mk] al le assms show thesis
    by (simp add: slice_ok_def scap_def sbytes_def)
qed

lemma poke_spec:
  assumes "slice_ok s" "pos < slen s" "pos + off + length bs \<le> slen s"
  obtains s' where "poke s pos off bs = Ok s'" "slice_ok s'" "slen s' = slen s" "scap s' = scap s"
    "saddr s' = saddr s" "sbytes s' = write_at (sbytes s) (pos + off) bs"
proof -
  let ?s = "s\<lparr>smem := write_at (smem s) (pos + off) bs\<rparr>"
  have le: "slen s \<le> length (smem s)" using assms(1) by (simp add: slice_ok_def scap_def)
  with assms(3) have len: "length (write_at (smem s) (pos + off) bs) = length (smem s)"
    by simp
  have "slice_ok ?s" using assms(1,3) len le
    by (simp add: slice_ok_def scap_def drop_write_at)
  moreover have "sbytes ?s = write_at (sbytes s) (pos + off) bs"
    using assms(3) le by (simp add: sbytes_def take_write_at)
  ultimately show thesis using that [of ?s] assms len by (simp add: poke_def scap_def)
qed

lemma peek_Ok [wire_simps]:
  "pos < length data \<Longrightarrow> pos + off + n \<le> length data \<Longrightarrow>
   peek data pos off n = Ok (read_at data (pos + off) n)"
  by (simp add: peek_def)

lemma uint16FromBE_bytes: "uint16FromBE n = dec_word (rev (enc_word 2 n))"
proof -
  have "unat (n) div 256 < 256" using unsigned_less [of n, where 'a = nat] by simp
  then show ?thesis
    by (simp add: uint16FromBE_def enc_word_def dec_word_def push_bit_eq_mult
        unsigned_of_nat take_bit_eq_mod ac_simps)
qed

lemma uint16FromBE_involution [simp]: "uint16FromBE (uint16FromBE n) = n"
  by (simp add: uint16FromBE_bytes enc_dec_widths)

section \<open>Properties\<close>

text \<open>
  Wherever the run-time system places the allocation, the aligned allocator
  returns a zeroed slice of the requested length, at an address that is a multiple of 8 and
  with at least the requested capacity; its slice expressions are never out of bounds.
\<close>

theorem aligned_allocation:
  assumes "len \<le> cap"
  shows "\<exists>s. MakeAlignedByteSliceCap addr len cap = Ok s \<and> 8 dvd unat (saddr s) \<and>
    sbytes s = replicate len 0 \<and> slen s = len \<and> cap \<le> scap s"
proof -
  obtain s where "MakeAlignedByteSliceCap addr len cap = Ok s" "slen s = len"
    "cap \<le> scap s" "sbytes s = replicate len 0" "8 dvd unat (saddr s)"
    using assms by (rule MakeAlignedByteSliceCap_spec)
  then show ?thesis by blast
qed

theorem aligned_allocation_witness:
  "\<exists>s. MakeAlignedByteSliceCap 0x1003 2 5 = Ok s \<and> 8 dvd unat (saddr s) \<and>
    sbytes s = replicate 2 0 \<and> slen s = 2 \<and> 5 \<le> scap s"
  using aligned_allocation [of 2 5 "0x1003"] by simp

end
