(* ===== verification/Netlink_Builder.thy ===== *)
theory Netlink_Builder
  imports Unsafe_Memory
begin

text \<open>
  Model of the message builder of \<^verbatim>\<open>odp/netlink.go\<close>: \<^verbatim>\<open>align\<close>, \<^verbatim>\<open>expand\<close>, \<^verbatim>\<open>NlMsgBuilder\<close> and its
  \<^verbatim>\<open>Put\<close> methods.  The builder keeps a growing slice; the closures it is handed
  (\<^verbatim>\<open>gen func()\<close>) are functions from builder to builder outcome.

  The abstract specification is a tree of attributes with its wire encoding.  A generator
  \<open>emits\<close> a list of trees when, from any builder in good order, it returns normally and
  appends exactly the padded encoding of those trees; the \<^verbatim>\<open>Put\<close> methods are shown to emit
  their trees whatever the allocator and the spare capacity do.
\<close>

section \<open>Constants of the netlink ABI\<close>

definition NLMSG_HDRLEN :: nat where "NLMSG_HDRLEN = 16"
definition SizeofNlMsghdr :: nat where "SizeofNlMsghdr = 16"
definition NLMSG_ALIGNTO :: nat where "NLMSG_ALIGNTO = 4"
definition NLA_ALIGNTO :: nat where "NLA_ALIGNTO = 4"
definition SizeofNlAttr :: nat where "SizeofNlAttr = 4"
definition NLM_F_REQUEST :: u16 where "NLM_F_REQUEST = 1"
definition NLM_F_ECHO :: u16 where "NLM_F_ECHO = 8"
definition NLM_F_DUMP :: u16 where "NLM_F_DUMP = 0x300"
definition NLMSG_ERROR :: u16 where "NLMSG_ERROR = 2"
definition NLMSG_DONE :: u16 where "NLMSG_DONE = 3"

definition RequestFlags :: u16 where "RequestFlags = NLM_F_REQUEST OR NLM_F_ECHO"
definition DumpFlags :: u16 where "DumpFlags = NLM_F_DUMP OR NLM_F_REQUEST"

lemmas netlink_consts [simp] =
  NLMSG_HDRLEN_def SizeofNlMsghdr_def NLMSG_ALIGNTO_def NLA_ALIGNTO_def SizeofNlAttr_def

section \<open>The builder\<close>

definition align :: "nat \<Rightarrow> nat \<Rightarrow> nat" where
  "align n a = nat ((int n + int a - 1) AND (- int a))"

text \<open>
  \<open>allocs\<close> lists the addresses the next allocations will get; the code does not see it.
\<close>

record NlMsgBuilder =
  buf :: slice
  allocs :: "nat \<Rightarrow> u64"

type_synonym generator = "NlMsgBuilder \<Rightarrow> NlMsgBuilder res"

definition set_buf :: "NlMsgBuilder \<Rightarrow> slice \<Rightarrow> NlMsgBuilder" where
  "set_buf m s = m\<lparr>buf := s\<rparr>"

definition after_alloc :: "NlMsgBuilder \<Rightarrow> NlMsgBuilder" where
  "after_alloc m = m\<lparr>allocs := (\<lambda>i. allocs m (Suc i))\<rparr>"

definition poke_buf :: "nat \<Rightarrow> nat \<Rightarrow> bytes \<Rightarrow> generator" where
  "poke_buf pos off bs m = map_res (set_buf m) (poke (buf m) pos off bs)"

definition NewNlMsgBuilder :: "(nat \<Rightarrow> u64) \<Rightarrow> u16 \<Rightarrow> u16 \<Rightarrow> NlMsgBuilder res" where
  "NewNlMsgBuilder addrs flags typ =
     res_bind (MakeAlignedByteSlice (addrs 0) NLMSG_HDRLEN) (\<lambda>b.
     res_bind (poke b 0 6 (enc_word 2 flags)) (\<lambda>b.
     res_bind (poke b 0 4 (enc_word 2 typ)) (\<lambda>b.
     Ok \<lparr>buf = b, allocs = (\<lambda>i. addrs (Suc i))\<rparr>)))"

text \<open>The capacity loop of \<^verbatim>\<open>expand\<close>.\<close>

function expand_cap :: "nat \<Rightarrow> nat \<Rightarrow> nat" where
  "expand_cap l c = (if l > c then expand_cap l ((c + 1) * 3 div 2) else c)"
  by pat_completeness auto
termination
  by (relation "measure (\<lambda>(l, c). l - c)") auto

declare expand_cap.simps [simp del]

definition expand :: "NlMsgBuilder \<Rightarrow> nat \<Rightarrow> NlMsgBuilder res" where
  "expand m l =
     (let c = expand_cap l ((scap (buf m) + 1) * 3 div 2)
      in res_bind (MakeAlignedByteSliceCap (allocs m 0) (slen (buf m)) c) (\<lambda>new.
         Ok (set_buf (after_alloc m)
               (new\<lparr>smem := write_at (smem new) 0 (take (slen new) (sbytes (buf m)))\<rparr>))))"

definition resize :: "NlMsgBuilder \<Rightarrow> nat \<Rightarrow> NlMsgBuilder res" where
  "resize m l =
     res_bind (if l > scap (buf m) then expand m l else Ok m) (\<lambda>m.
     map_res (set_buf m) (reslice (buf m) 0 l))"

definition Align :: "nat \<Rightarrow> generator" where
  "Align a m = resize m (align (slen (buf m)) a)"

definition Grow :: "nat \<Rightarrow> NlMsgBuilder \<Rightarrow> (nat \<times> NlMsgBuilder) res" where
  "Grow sz m =
     (let pos = slen (buf m) in map_res (Pair pos) (resize m (pos + sz)))"

definition AlignGrow :: "nat \<Rightarrow> nat \<Rightarrow> NlMsgBuilder \<Rightarrow> (nat \<times> NlMsgBuilder) res" where
  "AlignGrow a sz m =
     (let apos = align (slen (buf m)) a in map_res (Pair apos) (resize m (apos + sz)))"

definition Finish :: "NlMsgBuilder \<Rightarrow> u32 \<Rightarrow> (bytes \<times> u32 \<times> u32 \<times> NlMsgBuilder) res" where
  "Finish m nextSeqNo =
     res_bind (poke_buf 0 0 (enc_word 4 (of_nat (slen (buf m)) :: u32)) m) (\<lambda>m.
     let seq = nextSeqNo + 1 in
     res_bind (poke_buf 0 8 (enc_word 4 seq) m) (\<lambda>m.
     Ok (sbytes (buf m), seq, seq, set_buf m nil_slice)))"

definition PutAttr :: "u16 \<Rightarrow> generator \<Rightarrow> generator" where
  "PutAttr typ gen m =
     res_bind (AlignGrow NLA_ALIGNTO SizeofNlAttr m) (\<lambda>(pos, m).
     res_bind (gen m) (\<lambda>m.
     res_bind (poke_buf pos 2 (enc_word 2 typ) m) (\<lambda>m.
     poke_buf pos 0 (enc_word 2 (of_nat (slen (buf m) - pos) :: u16)) m)))"

definition PutNestedAttrs :: "u16 \<Rightarrow> generator \<Rightarrow> generator" where
  "PutNestedAttrs typ gen = PutAttr typ (\<lambda>m. res_bind (gen m) (Align NLA_ALIGNTO))"

definition PutEmptyAttr :: "u16 \<Rightarrow> generator" where
  "PutEmptyAttr typ = PutAttr typ Ok"

text \<open>
  \<^verbatim>\<open>copy(nlmsg.buf[pos:], data)\<close>: copies as much as the destination holds.
\<close>

definition copy_to :: "nat \<Rightarrow> bytes \<Rightarrow> generator" where
  "copy_to pos data m =
     (if pos \<le> slen (buf m)
      then Ok (set_buf m ((buf m)\<lparr>smem :=
                 write_at (smem (buf m)) pos (take (slen (buf m) - pos) data)\<rparr>))
      else Crash SliceBounds)"

definition PutUint8Attr :: "u16 \<Rightarrow> u8 \<Rightarrow> generator" where
  "PutUint8Attr typ val = PutAttr typ (\<lambda>m.
     res_bind (Grow 1 m) (\<lambda>(pos, m). poke_buf pos 0 [val] m))"

definition PutUint16Attr :: "u16 \<Rightarrow> u16 \<Rightarrow> generator" where
  "PutUint16Attr typ val = PutAttr typ (\<lambda>m.
     res_bind (Grow 2 m) (\<lambda>(pos, m). poke_buf pos 0 (enc_word 2 val) m))"

definition PutUint32Attr :: "u16 \<Rightarrow> u32 \<Rightarrow> generator" where
  "PutUint32Attr typ val = PutAttr typ (\<lambda>m.
     res_bind (Grow 4 m) (\<lambda>(pos, m). poke_buf pos 0 (enc_word 4 val) m))"

definition putStringZ :: "string \<Rightarrow> generator" where
  "putStringZ str m =
     (let l = length str in
      res_bind (Grow (l + 1) m) (\<lambda>(pos, m).
      res_bind (copy_to pos (string_bytes str) m) (\<lambda>m.
      poke_buf (pos + l) 0 [0] m)))"

definition PutStringAttr :: "u16 \<Rightarrow> string \<Rightarrow> generator" where
  "PutStringAttr typ str = PutAttr typ (putStringZ str)"

definition PutSliceAttr :: "u16 \<Rightarrow> bytes \<Rightarrow> generator" where
  "PutSliceAttr typ data = PutAttr typ (\<lambda>m.
     res_bind (Grow (length data) m) (\<lambda>(pos, m). copy_to pos data m))"

text \<open>Running generators one after the other, as the statements of a Go function do.\<close>

definition seq_gen :: "generator \<Rightarrow> generator \<Rightarrow> generator" where
  "seq_gen f g m = res_bind (f m) g"

definition skip_gen :: generator where
  "skip_gen = Ok"

fun seq_gens :: "generator list \<Rightarrow> generator" where
  "seq_gens [] = skip_gen"
| "seq_gens (g # gs) = seq_gen g (seq_gens gs)"

section \<open>Alignment\<close>

lemma align_pow2:
  assumes "a = 2 ^ k"
  shows "align n a = (n + a - 1) div a * a"
proof -
  let ?x = "int n + int a - 1"
  have "- int a = NOT (mask k)"
    using assms by (simp add: mask_eq_exp_minus_1 not_int_def)
  then have "?x AND - int a = push_bit k (drop_bit k ?x)"
    by (simp, intro bit_eqI) (auto simp: bit_simps)
  also have "\<dots> = ?x div int a * int a"
    using assms by (simp add: push_bit_eq_mult drop_bit_eq_div)
  finally have "align n a = nat (?x div int a * int a)"
    by (simp add: align_def)
  moreover have "?x = int (n + a - 1)"
  proof -
    have "1 \<le> a" using assms by simp
    then show ?thesis by (simp add: of_nat_diff)
  qed
  ultimately show ?thesis
    by (simp only: zdiv_int [symmetric] of_nat_mult [symmetric] nat_int)
qed

lemma align4: "align n 4 = (n + 3) div 4 * 4"
  using align_pow2 [of 4 2 n] by simp

lemma align4_ge [simp]: "n \<le> align n 4"
  unfolding align4 by presburger

lemma align4_lt: "align n 4 < n + 4"
  unfolding align4 by presburger

lemma align4_dvd [simp]: "4 dvd align n 4"
  unfolding align4 by simp

lemma align4_id: "4 dvd n \<Longrightarrow> align n 4 = n"
  unfolding align4 by auto

lemma align4_add: "4 dvd m \<Longrightarrow> align (m + n) 4 = m + align n 4"
  unfolding align4 by (elim dvdE) (simp add: add.assoc)

lemma align4_idem [simp]: "align (align n 4) 4 = align n 4"
  by (simp add: align4_id)

section \<open>Attribute trees and their encoding\<close>

datatype nla = Raw (nla_type: u16) bytes | Nested (nla_type: u16) "nla list"

definition pad4 :: "bytes \<Rightarrow> bytes" where
  "pad4 bs = bs @ replicate (align (length bs) 4 - length bs) 0"

definition nla_frame :: "u16 \<Rightarrow> bytes \<Rightarrow> bytes" where
  "nla_frame typ payload =
     enc_word 2 (of_nat (4 + length payload) :: u16) @ enc_word 2 typ @ payload"

text \<open>The bytes of a list of attributes that starts at an aligned position.\<close>

fun enc_nla :: "nla \<Rightarrow> bytes" and enc_nlas :: "nla list \<Rightarrow> bytes" where
  "enc_nla (Raw typ payload) = nla_frame typ payload"
| "enc_nla (Nested typ ts) = nla_frame typ (pad4 (enc_nlas ts))"
| "enc_nlas [] = []"
| "enc_nlas (t # ts) =
     (if ts = [] then enc_nla t else pad4 (enc_nla t) @ enc_nlas ts)"

text \<open>Appending attributes to bytes that need not end at an aligned position.\<close>

definition attach :: "bytes \<Rightarrow> nla list \<Rightarrow> bytes" where
  "attach bs ts = (if ts = [] then bs else pad4 bs @ enc_nlas ts)"

lemma length_pad4 [simp]: "length (pad4 bs) = align (length bs) 4"
  by (simp add: pad4_def)

lemma pad4_aligned: "4 dvd length bs \<Longrightarrow> pad4 bs = bs"
  by (simp add: pad4_def align4_id)

lemma pad4_Nil [simp]: "pad4 [] = []"
  by (simp add: pad4_aligned)

lemma pad4_append: "4 dvd length as \<Longrightarrow> pad4 (as @ bs) = as @ pad4 bs"
  by (simp add: pad4_def align4_add)

lemma pad4_idem [simp]: "pad4 (pad4 bs) = pad4 bs"
  by (simp add: pad4_aligned)

lemma length_nla_frame [simp]: "length (nla_frame typ p) = 4 + length p"
  by (simp add: nla_frame_def)

lemma attach_Nil [simp]: "attach bs [] = bs"
  by (simp add: attach_def)

lemma attach_single: "attach bs [t] = pad4 bs @ enc_nla t"
  by (simp add: attach_def)

lemma enc_nlas_append:
  "enc_nlas (ts @ us) =
     (if ts = [] then enc_nlas us else if us = [] then enc_nlas ts
      else pad4 (enc_nlas ts) @ enc_nlas us)"
  by (induction ts) (auto simp: pad4_append)

lemma attach_append: "attach (attach bs ts) us = attach bs (ts @ us)"
  by (auto simp: attach_def enc_nlas_append pad4_append)

lemma attach_aligned: "4 dvd length bs \<Longrightarrow> attach bs ts = bs @ enc_nlas ts"
  by (simp add: attach_def pad4_aligned)

section \<open>Correctness of the builder\<close>

definition builder_ok :: "NlMsgBuilder \<Rightarrow> bool" where
  "builder_ok m \<longleftrightarrow> slice_ok (buf m) \<and> 8 dvd unat (saddr (buf m))"

definition mbytes :: "NlMsgBuilder \<Rightarrow> bytes" where
  "mbytes m = sbytes (buf m)"

lemma slen_buf: "builder_ok m \<Longrightarrow> slen (buf m) = length (mbytes m)"
  by (simp add: builder_ok_def mbytes_def)

lemma expand_cap_ge: "l \<le> expand_cap l c \<and> c \<le> expand_cap l c"
proof (induction l c rule: expand_cap.induct)
  case (1 l c)
  then show ?case by (subst expand_cap.simps, subst (2) expand_cap.simps) auto
qed

lemma expand_spec:
  assumes "builder_ok m"
  obtains m' where "expand m l = Ok m'" "builder_ok m'" "mbytes m' = mbytes m"
    "l \<le> scap (buf m')"
proof -
  define c where "c = expand_cap l ((scap (buf m) + 1) * 3 div 2)"
  have len: "slen (buf m) = length (mbytes m)" using assms by (rule slen_buf)
  have "(scap (buf m) + 1) * 3 div 2 \<le> c" and lc: "l \<le> c"
    using expand_cap_ge by (simp_all add: c_def)
  moreover have "slen (buf m) \<le> scap (buf m)"
    using assms by (simp add: builder_ok_def slice_ok_def)
  ultimately have "slen (buf m) \<le> c" by simp
  then obtain s where s: "MakeAlignedByteSliceCap (allocs m 0) (slen (buf m)) c = Ok s"
    "slice_ok s" "slen s = slen (buf m)" "c \<le> scap s" "8 dvd unat (saddr s)"
    by (rule MakeAlignedByteSliceCap_spec [of _ _ "allocs m 0"])
  let ?s = "s\<lparr>smem := write_at (smem s) 0 (take (slen s) (sbytes (buf m)))\<rparr>"
  let ?m = "set_buf (after_alloc m) ?s"
  have take_id: "take (slen s) (sbytes (buf m)) = mbytes m"
    using s(3) len by (simp add: mbytes_def)
  have le: "length (mbytes m) \<le> length (smem s)"
    using s(2,3) len by (simp add: slice_ok_def scap_def)
  have "slice_ok ?s"
    using s(2,3) len le unfolding take_id by (simp add: slice_ok_def scap_def drop_write_at)
  moreover have "sbytes ?s = mbytes m"
    using s(3) len le unfolding take_id by (simp add: sbytes_def take_write_at) (simp add: write_at_def)
  moreover have "l \<le> scap ?s"
    using s(4) lc le unfolding take_id by (simp add: scap_def)
  ultimately have "builder_ok ?m" "mbytes ?m = mbytes m" "l \<le> scap (buf ?m)"
    using s(5) by (simp_all add: builder_ok_def mbytes_def set_buf_def)
  moreover have "expand m l = Ok ?m"
    unfolding expand_def Let_def c_def [symmetric] s(1) by simp
  ultimately show thesis by (rule that [rotated])
qed

lemma resize_spec:
  assumes "builder_ok m" "length (mbytes m) \<le> l"
  obtains m' where "resize m l = Ok m'" "builder_ok m'"
    "mbytes m' = mbytes m @ replicate (l - length (mbytes m)) 0"
proof -
  obtain e where e: "expand m l = Ok e" "builder_ok e" "mbytes e = mbytes m" "l \<le> scap (buf e)"
    using assms(1) by (rule expand_spec)
  define n where "n = (if l > scap (buf m) then e else m)"
  have n: "(if l > scap (buf m) then expand m l else Ok m) = Ok n"
    "builder_ok n" "mbytes n = mbytes m" "l \<le> scap (buf n)"
    using e assms(1) by (simp_all add: n_def)
  have "slen (buf n) \<le> l" using slen_buf [OF n(2)] n(3) assms(2) by simp
  with n obtain s where s: "reslice (buf n) 0 l = Ok s" "slice_ok s" "saddr s = saddr (buf n)"
    "sbytes s = sbytes (buf n) @ replicate (l - slen (buf n)) 0"
    by (metis reslice_grow builder_ok_def)
  have "builder_ok (set_buf n s)" "mbytes (set_buf n s) = mbytes m @ replicate (l - length (mbytes m)) 0"
    using s n slen_buf [OF n(2)] by (simp_all add: builder_ok_def set_buf_def mbytes_def)
  moreover have "resize m l = Ok (set_buf n s)"
    using n(1) s(1) by (simp add: resize_def)
  ultimately show thesis by (rule that [rotated])
qed

lemma Align4_spec:
  assumes "builder_ok m"
  obtains m' where "Align 4 m = Ok m'" "builder_ok m'" "mbytes m' = pad4 (mbytes m)"
proof -
  obtain m' where "resize m (align (length (mbytes m)) 4) = Ok m'" "builder_ok m'"
    "mbytes m' = mbytes m @ replicate (align (length (mbytes m)) 4 - length (mbytes m)) 0"
    by (rule resize_spec [OF assms align4_ge])
  then show thesis using that [of m'] assms by (simp add: Align_def slen_buf pad4_def)
qed

lemma Grow_spec:
  assumes "builder_ok m"
  obtains m' where "Grow n m = Ok (length (mbytes m), m')" "builder_ok m'"
    "mbytes m' = mbytes m @ replicate n 0"
proof -
  obtain m' where "resize m (length (mbytes m) + n) = Ok m'" "builder_ok m'"
    "mbytes m' = mbytes m @ replicate (length (mbytes m) + n - length (mbytes m)) 0"
    by (rule resize_spec [OF assms le_add1])
  then show thesis using that [of m'] assms by (simp add: Grow_def slen_buf Let_def)
qed

lemma AlignGrow4_spec:
  assumes "builder_ok m"
  obtains m' where "AlignGrow 4 n m = Ok (align (length (mbytes m)) 4, m')" "builder_ok m'"
    "mbytes m' = pad4 (mbytes m) @ replicate n 0"
proof -
  let ?a = "align (length (mbytes m)) 4"
  have split: "replicate (?a + n - length (mbytes m)) (0::byte)
      = replicate (?a - length (mbytes m)) 0 @ replicate n 0"
    by (simp add: replicate_add [symmetric])
  have le: "length (mbytes m) \<le> ?a + n" by (rule trans_le_add1) simp
  obtain m' where "resize m (?a + n) = Ok m'" "builder_ok m'"
    "mbytes m' = mbytes m @ replicate (?a + n - length (mbytes m)) 0"
    by (rule resize_spec [OF assms le])
  then show thesis
    using that [of m'] assms by (simp add: AlignGrow_def slen_buf Let_def pad4_def split)
qed

lemma poke_buf_spec:
  assumes "builder_ok m" "pos < length (mbytes m)" "pos + off + length bs \<le> length (mbytes m)"
  obtains m' where "poke_buf pos off bs m = Ok m'" "builder_ok m'"
    "mbytes m' = write_at (mbytes m) (pos + off) bs"
proof -
  obtain s where "poke (buf m) pos off bs = Ok s" "slice_ok s" "saddr s = saddr (buf m)"
    "sbytes s = write_at (sbytes (buf m)) (pos + off) bs"
  proof (rule poke_spec [of "buf m" pos off bs])
    show "slice_ok (buf m)" using assms(1) by (simp add: builder_ok_def)
    show "pos < slen (buf m)" "pos + off + length bs \<le> slen (buf m)"
      using assms by (simp_all add: slen_buf)
  qed
  then show thesis
    using that [of "set_buf m s"] assms(1) by (simp add: poke_buf_def builder_ok_def set_buf_def mbytes_def)
qed

lemma copy_to_spec:
  assumes "builder_ok m" "mbytes m = xs @ ys" "length ys = length data" "pos = length xs"
  obtains m' where "copy_to pos data m = Ok m'" "builder_ok m'" "mbytes m' = xs @ data"
proof -
  let ?s = "(buf m)\<lparr>smem := write_at (smem (buf m)) pos data\<rparr>"
  have len: "slen (buf m) = length xs + length data"
    using assms by (simp add: slen_buf)
  have le: "length xs + length data \<le> length (smem (buf m))"
    using assms(1) len by (simp add: builder_ok_def slice_ok_def scap_def)
  have "slice_ok ?s" using assms(1,4) len le
    by (simp add: builder_ok_def slice_ok_def scap_def drop_write_at)
  moreover have "sbytes ?s = write_at (mbytes m) pos data"
    using assms(4) len le by (simp add: sbytes_def mbytes_def take_write_at)
  then have "sbytes ?s = xs @ data" using assms(2,3,4) by (simp add: write_at_def)
  ultimately show thesis
    using that [of "set_buf m ?s"] assms(1,4) len
    by (simp add: copy_to_def builder_ok_def set_buf_def mbytes_def)
qed

section \<open>The contract of a generator\<close>

text \<open>
  \<open>payload_writer gen p\<close>: started at an aligned position, \<open>gen\<close> returns normally and
  appends the bytes \<open>p\<close>.  \<open>attr_emitter gen ts\<close>: started anywhere, it appends the
  attributes \<open>ts\<close>.  Every closure the code hands to the builder satisfies one of the two.
\<close>

locale payload_writer =
  fixes gen :: generator and payload :: bytes
  assumes writes: "builder_ok m \<Longrightarrow> 4 dvd length (mbytes m) \<Longrightarrow>
    \<exists>m'. gen m = Ok m' \<and> builder_ok m' \<and> mbytes m' = mbytes m @ payload"
begin

lemma framed:
  assumes ok: "builder_ok m"
  shows "\<exists>m'. PutAttr typ gen m = Ok m' \<and> builder_ok m' \<and>
    mbytes m' = pad4 (mbytes m) @ nla_frame typ payload"
proof -
  let ?a = "pad4 (mbytes m)"
  let ?pos = "align (length (mbytes m)) 4"
  obtain m1 where m1: "AlignGrow 4 4 m = Ok (?pos, m1)" "builder_ok m1"
    "mbytes m1 = ?a @ replicate 4 0" using ok by (rule AlignGrow4_spec)
  have "4 dvd length (mbytes m1)" using m1(3) by simp
  then obtain m2 where m2: "gen m1 = Ok m2" "builder_ok m2" and b2: "mbytes m2 = mbytes m1 @ payload"
    using writes [OF m1(2)] by blast
  have "replicate 4 (0::byte) = replicate 2 0 @ replicate 2 0"
    by (simp add: replicate_add [symmetric])
  with b2 m1(3) have b2: "mbytes m2 = ?a @ replicate 2 0 @ replicate 2 0 @ payload" by simp
  obtain m3 where m3: "poke_buf ?pos 2 (enc_word 2 typ) m2 = Ok m3" "builder_ok m3"
    "mbytes m3 = write_at (mbytes m2) (?pos + 2) (enc_word 2 typ)"
    by (rule poke_buf_spec [of m2 ?pos 2 "enc_word 2 typ"]) (use m2(2) b2 in simp_all)
  have b3: "mbytes m3 = ?a @ replicate 2 0 @ enc_word 2 typ @ payload"
    using m3(3) write_at_append [of "?pos + 2" "?a @ replicate 2 0" "enc_word 2 typ" "replicate 2 0" payload]
    by (simp add: b2)
  let ?len = "enc_word 2 (of_nat (slen (buf m3) - ?pos) :: u16)"
  obtain m4 where m4: "poke_buf ?pos 0 ?len m3 = Ok m4" "builder_ok m4"
    "mbytes m4 = write_at (mbytes m3) (?pos + 0) ?len"
    by (rule poke_buf_spec [of m3 ?pos 0 ?len]) (use m3(2) b3 in simp_all)
  have "mbytes m4 = ?a @ ?len @ enc_word 2 typ @ payload"
    using m4(3) write_at_append [of "?pos" ?a ?len "replicate 2 0" "enc_word 2 typ @ payload"]
    by (simp add: b3)
  moreover have "slen (buf m3) - ?pos = 4 + length payload"
    using slen_buf [OF m3(2)] b3 by simp
  ultimately have "mbytes m4 = ?a @ nla_frame typ payload"
    by (simp only: nla_frame_def)
  moreover have "PutAttr typ gen m = Ok m4"
    using m1(1) m2(1) m3(1) m4(1) by (simp add: PutAttr_def)
  ultimately show ?thesis using m4(2) by blast
qed

end

locale attr_emitter =
  fixes gen :: generator and trees :: "nla list"
  assumes emits: "builder_ok m \<Longrightarrow>
    \<exists>m'. gen m = Ok m' \<and> builder_ok m' \<and> mbytes m' = attach (mbytes m) trees"
begin

lemma emits_ok:
  assumes "builder_ok m" "gen m = Ok m'"
  shows "builder_ok m' \<and> mbytes m' = attach (mbytes m) trees"
  using emits [OF assms(1)] assms(2) by auto

lemma emitter_no_crash: "builder_ok m \<Longrightarrow> no_crash (gen m)"
  using emits by fastforce

end

sublocale attr_emitter \<subseteq> payload_writer gen "enc_nlas trees"
  by unfold_locales (drule emits, simp add: attach_aligned)

lemma attr_emitterI:
  "(\<And>m. builder_ok m \<Longrightarrow>
     \<exists>m'. gen m = Ok m' \<and> builder_ok m' \<and> mbytes m' = attach (mbytes m) trees) \<Longrightarrow>
   attr_emitter gen trees"
  by (rule attr_emitter.intro)

lemma PutAttr_emits: "payload_writer gen p \<Longrightarrow> attr_emitter (PutAttr typ gen) [Raw typ p]"
  by (intro attr_emitterI) (simp add: attach_single payload_writer.framed)

lemma seq_gen_emits:
  assumes "attr_emitter f ts" "attr_emitter g us"
  shows "attr_emitter (seq_gen f g) (ts @ us)"
proof (rule attr_emitterI)
  fix m assume "builder_ok m"
  then obtain m1 where m1: "f m = Ok m1" "builder_ok m1" "mbytes m1 = attach (mbytes m) ts"
    using attr_emitter.emits [OF assms(1)] by blast
  obtain m2 where "g m1 = Ok m2" "builder_ok m2" "mbytes m2 = attach (mbytes m1) us"
    using attr_emitter.emits [OF assms(2) m1(2)] by blast
  with m1 show "\<exists>m'. seq_gen f g m = Ok m' \<and> builder_ok m' \<and>
      mbytes m' = attach (mbytes m) (ts @ us)"
    by (simp add: seq_gen_def attach_append)
qed

lemma skip_gen_emits: "attr_emitter skip_gen []"
  by (rule attr_emitterI) (simp add: skip_gen_def)

lemma seq_gens_emits:
  assumes "list_all2 attr_emitter gs tss"
  shows "attr_emitter (seq_gens gs) (concat tss)"
  using assms by (induction rule: list_all2_induct) (simp_all add: skip_gen_emits seq_gen_emits)

lemma PutNestedAttrs_emits:
  assumes "attr_emitter gen ts"
  shows "attr_emitter (PutNestedAttrs typ gen) [Nested typ ts]"
proof -
  have "payload_writer (\<lambda>m. res_bind (gen m) (Align NLA_ALIGNTO)) (pad4 (enc_nlas ts))"
  proof
    fix m assume m: "builder_ok m" "4 dvd length (mbytes m)"
    obtain m1 where m1: "gen m = Ok m1" "builder_ok m1" "mbytes m1 = mbytes m @ enc_nlas ts"
      using attr_emitter.emits [OF assms m(1)] m(2) by (auto simp: attach_aligned)
    obtain m2 where "Align 4 m1 = Ok m2" "builder_ok m2" "mbytes m2 = pad4 (mbytes m1)"
      using m1(2) by (rule Align4_spec)
    with m m1 show "\<exists>m'. res_bind (gen m) (Align NLA_ALIGNTO) = Ok m' \<and> builder_ok m' \<and>
        mbytes m' = mbytes m @ pad4 (enc_nlas ts)"
      by (simp add: pad4_append)
  qed
  from PutAttr_emits [OF this] show ?thesis
    by (simp add: attr_emitter_def attach_single PutNestedAttrs_def)
qed

section \<open>The \<^verbatim>\<open>Put\<close> methods meet the contract\<close>

interpretation empty_payload: payload_writer Ok "[]"
  by unfold_locales simp

lemma grow_poke_writes:
  assumes "length bs = n" "n > 0"
  shows "payload_writer (\<lambda>m. res_bind (Grow n m) (\<lambda>(pos, m). poke_buf pos 0 bs m)) bs"
proof
  fix m assume "builder_ok m"
  then obtain m1 where m1: "Grow n m = Ok (length (mbytes m), m1)" "builder_ok m1"
    "mbytes m1 = mbytes m @ replicate n 0" by (rule Grow_spec)
  obtain m2 where m2: "poke_buf (length (mbytes m)) 0 bs m1 = Ok m2" "builder_ok m2"
    "mbytes m2 = write_at (mbytes m1) (length (mbytes m) + 0) bs"
    by (rule poke_buf_spec [of m1 "length (mbytes m)" 0 bs]) (use m1 assms in simp_all)
  have "mbytes m2 = mbytes m @ bs"
    using m2(3) m1(3) assms write_at_append [of _ "mbytes m" bs "replicate n 0" "[]"] by simp
  with m1(1) m2 show "\<exists>m'. res_bind (Grow n m) (\<lambda>(pos, m). poke_buf pos 0 bs m) = Ok m' \<and>
      builder_ok m' \<and> mbytes m' = mbytes m @ bs"
    by simp
qed

lemma putStringZ_writes: "payload_writer (putStringZ str) (string_bytes str @ [0])"
proof
  fix m assume "builder_ok m"
  then obtain m1 where m1: "Grow (length str + 1) m = Ok (length (mbytes m), m1)" "builder_ok m1"
    "mbytes m1 = mbytes m @ replicate (length str + 1) 0" by (rule Grow_spec)
  let ?s = "string_bytes str"
  obtain m2 where m2: "copy_to (length (mbytes m)) ?s m1 = Ok m2" "builder_ok m2"
    "mbytes m2 = mbytes m @ ?s @ [0]"
  proof -
    let ?new = "(buf m1)\<lparr>smem := write_at (smem (buf m1)) (length (mbytes m)) ?s\<rparr>"
    have len: "slen (buf m1) = length (mbytes m) + length str + 1"
      using m1 by (simp add: slen_buf)
    have le: "length (mbytes m) + length str + 1 \<le> length (smem (buf m1))"
      using m1(2) len by (simp add: builder_ok_def slice_ok_def scap_def)
    have "slice_ok ?new" using m1(2) len le
      by (simp add: builder_ok_def slice_ok_def scap_def drop_write_at)
    moreover have "sbytes ?new = write_at (mbytes m1) (length (mbytes m)) ?s"
      using len le by (simp add: sbytes_def mbytes_def take_write_at)
    then have "sbytes ?new = mbytes m @ ?s @ [0]"
      using m1(3) write_at_append [of _ "mbytes m" ?s "replicate (length str) 0" "[0]"]
      by (simp add: replicate_append_same)
    ultimately show thesis
      using that [of "set_buf m1 ?new"] m1(2) len
      by (simp add: copy_to_def builder_ok_def set_buf_def mbytes_def)
  qed
  obtain m3 where m3: "poke_buf (length (mbytes m) + length str) 0 [0] m2 = Ok m3" "builder_ok m3"
    "mbytes m3 = write_at (mbytes m2) (length (mbytes m) + length str + 0) [0]"
    by (rule poke_buf_spec [of m2 "length (mbytes m) + length str" 0 "[0]"]) (use m2 in simp_all)
  have "mbytes m3 = mbytes m @ ?s @ [0]"
    using m3(3) m2(3) write_at_append [of _ "mbytes m @ ?s" "[0]" "[0]" "[]"] by simp
  with m1(1) m2(1) m3 show "\<exists>m'. putStringZ str m = Ok m' \<and> builder_ok m' \<and>
      mbytes m' = mbytes m @ string_bytes str @ [0]"
    by (simp add: putStringZ_def Let_def)
qed

lemma grow_copy_writes:
  "payload_writer (\<lambda>m. res_bind (Grow (length bs) m) (\<lambda>(pos, m). copy_to pos bs m)) bs"
proof
  fix m assume "builder_ok m"
  then obtain m1 where m1: "Grow (length bs) m = Ok (length (mbytes m), m1)" "builder_ok m1"
    "mbytes m1 = mbytes m @ replicate (length bs) 0" by (rule Grow_spec)
  obtain m2 where "copy_to (length (mbytes m)) bs m1 = Ok m2" "builder_ok m2"
    "mbytes m2 = mbytes m @ bs"
    using m1(2,3) by (rule copy_to_spec) simp_all
  with m1(1) show "\<exists>m'. res_bind (Grow (length bs) m) (\<lambda>(pos, m). copy_to pos bs m) = Ok m' \<and>
      builder_ok m' \<and> mbytes m' = mbytes m @ bs"
    by simp
qed

interpretation put_empty: attr_emitter "PutEmptyAttr t" "[Raw t []]" for t
  unfolding PutEmptyAttr_def by (rule PutAttr_emits) (rule empty_payload.payload_writer_axioms)

interpretation put_uint8: attr_emitter "PutUint8Attr t val" "[Raw t [val]]" for t val
  unfolding PutUint8Attr_def by (rule PutAttr_emits, rule grow_poke_writes) simp_all

interpretation put_uint16: attr_emitter "PutUint16Attr t val" "[Raw t (enc_word 2 val)]"
  for t val
  unfolding PutUint16Attr_def by (rule PutAttr_emits, rule grow_poke_writes) simp_all

interpretation put_uint32: attr_emitter "PutUint32Attr t val" "[Raw t (enc_word 4 val)]"
  for t val
  unfolding PutUint32Attr_def by (rule PutAttr_emits, rule grow_poke_writes) simp_all

interpretation put_string: attr_emitter "PutStringAttr t str"
    "[Raw t (string_bytes str @ [0])]" for t str
  unfolding PutStringAttr_def by (rule PutAttr_emits) (rule putStringZ_writes)

interpretation put_slice: attr_emitter "PutSliceAttr t data" "[Raw t data]" for t data
  unfolding PutSliceAttr_def by (rule PutAttr_emits) (rule grow_copy_writes)

lemmas put_emits =
  put_empty.attr_emitter_axioms put_uint8.attr_emitter_axioms put_uint16.attr_emitter_axioms
  put_uint32.attr_emitter_axioms put_string.attr_emitter_axioms put_slice.attr_emitter_axioms

section \<open>Whole messages\<close>

text \<open>The bytes of a finished message with the given header fields and body.\<close>

definition nlmsg_bytes :: "u16 \<Rightarrow> u16 \<Rightarrow> u32 \<Rightarrow> u32 \<Rightarrow> bytes \<Rightarrow> bytes" where
  "nlmsg_bytes typ flags seq pid body =
     enc_word 4 (of_nat (16 + length body) :: u32) @ enc_word 2 typ @ enc_word 2 flags @
     enc_word 4 seq @ enc_word 4 pid @ body"

text \<open>The bytes of a message under construction: length and sequence number still zero.\<close>

definition draft_bytes :: "u16 \<Rightarrow> u16 \<Rightarrow> bytes \<Rightarrow> bytes" where
  "draft_bytes typ flags body =
     replicate 4 0 @ (enc_word 2 typ @ enc_word 2 flags) @ replicate 4 0 @ enc_word 4 (0 :: u32) @ body"

lemma length_nlmsg_bytes [simp]: "length (nlmsg_bytes typ flags seq pid body) = 16 + length body"
  by (simp add: nlmsg_bytes_def)

lemma length_draft_bytes [simp]: "length (draft_bytes typ flags body) = 16 + length body"
  by (simp add: draft_bytes_def)

lemma draft_bytes_append: "draft_bytes typ flags body @ bs = draft_bytes typ flags (body @ bs)"
  by (simp add: draft_bytes_def)

lemma attach_draft:
  "attach (draft_bytes typ flags body) ts = draft_bytes typ flags (attach body ts)"
  using pad4_append [of "draft_bytes typ flags []" body]
  by (simp add: attach_def) (simp add: draft_bytes_def)

lemma enc_word_0: "enc_word n (0 :: 'a::len word) = replicate n 0"
proof -
  have "nat_le n 0 = replicate n 0" by (induction n) simp_all
  then show ?thesis by (simp add: enc_word_def)
qed

lemma NewNlMsgBuilder_spec:
  obtains m where "NewNlMsgBuilder addrs flags t = Ok m" "builder_ok m"
    "mbytes m = draft_bytes t flags []"
proof -
  obtain s where s: "MakeAlignedByteSliceCap (addrs 0) 16 16 = Ok s" "slice_ok s" "slen s = 16"
    "16 \<le> scap s" "sbytes s = replicate 16 0" "8 dvd unat (saddr s)"
    by (rule MakeAlignedByteSliceCap_spec [of 16 16 "addrs 0"]) simp_all
  obtain s1 where s1: "poke s 0 6 (enc_word 2 flags) = Ok s1" "slice_ok s1" "slen s1 = slen s"
    "saddr s1 = saddr s" "sbytes s1 = write_at (sbytes s) (0 + 6) (enc_word 2 flags)"
    by (rule poke_spec [of s 0 6 "enc_word 2 flags"]) (use s in simp_all)
  obtain s2 where s2: "poke s1 0 4 (enc_word 2 t) = Ok s2" "slice_ok s2"
    "saddr s2 = saddr s1" "sbytes s2 = write_at (sbytes s1) (0 + 4) (enc_word 2 t)"
    by (rule poke_spec [of s1 0 4 "enc_word 2 t"]) (use s s1 in simp_all)
  let ?m = "\<lparr>buf = s2, allocs = (\<lambda>i. addrs (Suc i))\<rparr>"
  have "NewNlMsgBuilder addrs flags t = Ok ?m"
    using s(1) s1(1) s2(1) by (simp add: NewNlMsgBuilder_def MakeAlignedByteSlice_def)
  moreover have "builder_ok ?m"
    using s(6) s1(4) s2(2,3) by (simp add: builder_ok_def)
  moreover have "replicate 8 (0::byte) = replicate 4 0 @ replicate 4 0"
    by (simp add: replicate_add [symmetric])
  then have "mbytes ?m = draft_bytes t flags []"
    using s(5) s1(5) s2(4)
    by (simp add: mbytes_def draft_bytes_def write_at_def enc_word_0 min_def)
  ultimately show thesis by (rule that)
qed

lemma Finish_spec:
  assumes "builder_ok m" "mbytes m = draft_bytes t flags body"
  obtains m' where "Finish m n = Ok (nlmsg_bytes t flags (n + 1) 0 body, n + 1, n + 1, m')"
    "builder_ok m'" "mbytes m' = []"
proof -
  let ?h = "enc_word 2 t @ enc_word 2 flags" and ?z = "enc_word 4 (0 :: u32)"
  let ?len = "enc_word 4 (of_nat (slen (buf m)) :: u32)" and ?seq = "enc_word 4 (n + 1)"
  obtain m1 where m1: "poke_buf 0 0 ?len m = Ok m1" "builder_ok m1"
    "mbytes m1 = write_at (mbytes m) (0 + 0) ?len"
    by (rule poke_buf_spec [of m 0 0 ?len]) (use assms in simp_all)
  have b1: "mbytes m1 = ?len @ ?h @ replicate 4 0 @ ?z @ body"
    using m1(3) write_at_append [of 0 "[]" ?len "replicate 4 0" "?h @ replicate 4 0 @ ?z @ body"]
    by (simp add: assms(2) draft_bytes_def)
  obtain m2 where m2: "poke_buf 0 8 ?seq m1 = Ok m2" "builder_ok m2"
    "mbytes m2 = write_at (mbytes m1) (0 + 8) ?seq"
    by (rule poke_buf_spec [of m1 0 8 ?seq]) (use m1(2) in \<open>simp_all add: b1\<close>)
  have b2: "mbytes m2 = ?len @ ?h @ ?seq @ ?z @ body"
    using m2(3) write_at_append [of 8 "?len @ ?h" ?seq "replicate 4 0" "?z @ body"]
    by (simp add: b1)
  have "slen (buf m) = 16 + length body" using slen_buf [OF assms(1)] assms(2) by simp
  with b2 have "sbytes (buf m2) = nlmsg_bytes t flags (n + 1) 0 body"
    by (simp add: mbytes_def nlmsg_bytes_def)
  then have "Finish m n = Ok (nlmsg_bytes t flags (n + 1) 0 body, n + 1, n + 1, set_buf m2 nil_slice)"
    using m1(1) m2(1) by (simp add: Finish_def Let_def)
  then show thesis
    by (rule that) (simp_all add: builder_ok_def set_buf_def mbytes_def, simp add: nil_slice_def)
qed

section \<open>Properties\<close>

text \<open>Any attribute tree, written with the builder's own methods.\<close>

fun put_nla :: "nla \<Rightarrow> generator" and put_nlas :: "nla list \<Rightarrow> generator" where
  "put_nla (Raw t p) = PutSliceAttr t p"
| "put_nla (Nested t ts) = PutNestedAttrs t (put_nlas ts)"
| "put_nlas [] = skip_gen"
| "put_nlas (t # ts) = seq_gen (put_nla t) (put_nlas ts)"

lemma put_nla_emits: "attr_emitter (put_nla a) [a]" and put_nlas_emits: "attr_emitter (put_nlas ts) ts"
proof (induction a and ts rule: put_nla_put_nlas.induct)
  case (1 t p)
  then show ?case by (simp add: put_slice.attr_emitter_axioms)
next
  case (2 t ts)
  then show ?case by (simp add: PutNestedAttrs_emits)
next
  case 3
  then show ?case by (simp add: skip_gen_emits)
next
  case (4 t ts)
  then show ?case using seq_gen_emits [of "put_nla t" "[t]" "put_nlas ts" ts] by simp
qed

text \<open>
  Property C6: building a message never fails.  For every list of attribute trees, wherever
  the buffers are allocated and however often the buffer has to grow, creating a message,
  putting the attributes and finishing it yields exactly the encoded header and attributes,
  with the next sequence number.
\<close>

theorem build_message:
  "\<exists>m. res_bind (res_bind (NewNlMsgBuilder addrs flags t) (put_nlas ts)) (\<lambda>m. Finish m n)
     = Ok (nlmsg_bytes t flags (n + 1) 0 (enc_nlas ts), n + 1, n + 1, m) \<and> mbytes m = []"
proof -
  obtain m where m: "NewNlMsgBuilder addrs flags t = Ok m" "builder_ok m"
    "mbytes m = draft_bytes t flags []" by (rule NewNlMsgBuilder_spec)
  obtain m1 where m1: "put_nlas ts m = Ok m1" "builder_ok m1" "mbytes m1 = attach (mbytes m) ts"
    using attr_emitter.emits [OF put_nlas_emits m(2)] by blast
  have "mbytes m1 = draft_bytes t flags (enc_nlas ts)"
    using m1(3) m(3) by (simp add: attach_draft attach_aligned)
  from Finish_spec [OF m1(2) this, of n] obtain m2 where
    "Finish m1 n = Ok (nlmsg_bytes t flags (n + 1) 0 (enc_nlas ts), n + 1, n + 1, m2)" "mbytes m2 = []"
    by blast
  with m(1) m1(1) show ?thesis by simp
qed

text \<open>
  \<^verbatim>\<open>align\<close> rounds up: for a power of two it returns the least multiple that is not
  below its argument.
\<close>

lemma align_least:
  assumes "a = 2 ^ k"
  shows "a dvd align n a \<and> n \<le> align n a \<and> (\<forall>m. a dvd m \<longrightarrow> n \<le> m \<longrightarrow> align n a \<le> m)"
proof -
  have a: "a > 0" using assms by simp
  note eq = align_pow2 [OF assms, of n]
  have "n \<le> align n a"
  proof -
    have "(n + a - 1) mod a \<le> a - 1" using a by (metis Suc_pred' less_Suc_eq_le mod_less_divisor)
    then show ?thesis using div_mult_mod_eq [of "n + a - 1" a] a unfolding eq by linarith
  qed
  moreover have "align n a \<le> m" if m: "a dvd m" "n \<le> m" for m
  proof -
    obtain c where c: "m = a * c" using m(1) by (rule dvdE)
    have "(n + a - 1) div a < c + 1"
    proof -
      have "n + a - 1 < (c + 1) * a" using m(2) a c by (simp add: algebra_simps)
      then show ?thesis by (rule less_mult_imp_div_less)
    qed
    then have "(n + a - 1) div a \<le> c" by simp
    then show ?thesis unfolding eq c by (metis mult.commute mult_le_mono1)
  qed
  ultimately show ?thesis using eq by simp
qed

text \<open>
  Property C34: \<^verbatim>\<open>PutAttr\<close> does not check that an attribute fits its 16-bit length field.  Every payload
  of 65532 bytes or more is written in full and without an error, while the header states the
  length of the attribute modulo 65536, which is less than its real length.
\<close>

theorem long_attribute_length_wraps:
  assumes "builder_ok m" "65532 \<le> length p"
  shows "\<exists>n m'. PutSliceAttr t p m = Ok m' \<and>
    mbytes m' = pad4 (mbytes m) @ enc_word 2 (n :: u16) @ enc_word 2 t @ p \<and>
    unat n = (4 + length p) mod 65536 \<and> unat n < 4 + length p"
proof -
  let ?n = "of_nat (4 + length p) :: u16"
  have "unat ?n = (4 + length p) mod 65536" unfolding unat_of_nat by simp
  moreover have "(4 + length p) mod 65536 < 4 + length p" using assms(2) mod_less_divisor [of 65536 "4 + length p"] by linarith
  ultimately show ?thesis
    using put_slice.emits [OF assms(1), of t p]
    by (intro exI [of _ ?n]) (auto simp: attach_single nla_frame_def simp del: of_nat_add)
qed

theorem long_attribute_length_wraps_witness:
  "\<exists>n m'. PutSliceAttr 1 (replicate 65540 7) \<lparr>buf = nil_slice, allocs = (\<lambda>_. 0)\<rparr> = Ok m' \<and>
    mbytes m' = pad4 (mbytes \<lparr>buf = nil_slice, allocs = (\<lambda>_. 0)\<rparr>) @ enc_word 2 (n :: u16) @ enc_word 2 (1 :: u16) @ replicate 65540 7 \<and>
    unat n = 8"
proof -
  have "builder_ok \<lparr>buf = nil_slice, allocs = (\<lambda>_. 0)\<rparr>"
    by (simp add: builder_ok_def) (simp add: nil_slice_def)
  from long_attribute_length_wraps [OF this, of "replicate 65540 7" 1] show ?thesis
    by (simp only: length_replicate) auto
qed

end
