(* ===== verification/Netlink_Parser.thy ===== *)
theory Netlink_Parser
  imports Netlink_Builder
begin

text \<open>
  Model of the message parser of \<^verbatim>\<open>odp/netlink.go\<close>: \<^verbatim>\<open>NlMsgParser\<close>, the header checks, the
  attribute loop \<^verbatim>\<open>parseAttrs\<close> and the typed getters of \<^verbatim>\<open>Attrs\<close>.

  The lemmas show that the attribute loop inverts the builder's encoding, exactly when it
  crashes, and what each getter returns on every branch.
\<close>

section \<open>The parser and its cursor\<close>

record NlMsgParser =
  pdata :: bytes
  ppos :: nat

definition CheckAvailable :: "nat \<Rightarrow> NlMsgParser \<Rightarrow> unit res" where
  "CheckAvailable sz p =
     (if ppos p + sz > length (pdata p) then Err MessageTruncated else Ok ())"

definition Advance :: "nat \<Rightarrow> NlMsgParser \<Rightarrow> NlMsgParser res" where
  "Advance sz p = res_bind (CheckAvailable sz p) (\<lambda>_. Ok (p\<lparr>ppos := ppos p + sz\<rparr>))"

definition AlignAdvance :: "nat \<Rightarrow> nat \<Rightarrow> NlMsgParser \<Rightarrow> (nat \<times> NlMsgParser) res" where
  "AlignAdvance a sz p =
     (let pos = align (ppos p) a
      in res_bind (Advance sz (p\<lparr>ppos := pos\<rparr>)) (\<lambda>p. Ok (pos, p)))"

definition get_NlMsghdr :: "NlMsgParser \<Rightarrow> NlMsghdr res" where
  "get_NlMsghdr p = nlMsghdrAt (pdata p) (ppos p)"

text \<open>Returns the next message, if any, and the parser moved past it.\<close>

definition nextNlMsg :: "NlMsgParser \<Rightarrow> (NlMsgParser option \<times> NlMsgParser) res" where
  "nextNlMsg msg =
     (let pos = ppos msg; avail = int (length (pdata msg)) - int pos
      in if avail \<le> 0 then Ok (None, msg)
         else if avail < int SizeofNlMsghdr then Err HeaderTruncated
         else res_bind (get_NlMsghdr msg) (\<lambda>h.
           if avail < int (unat (Len h)) then Err (NlMsgTruncated avail (Len h))
           else (let end = pos + unat (Len h)
                 in Ok (Some \<lparr>pdata = take end (pdata msg), ppos = pos\<rparr>,
                        msg\<lparr>ppos := align end NLMSG_ALIGNTO\<rparr>))))"

text \<open>
  \<^verbatim>\<open>NetlinkError(-nlerr.Error)\<close>: the negated 32-bit value, sign-extended to a \<open>uintptr\<close>.
\<close>

definition netlink_error :: "i32 \<Rightarrow> error" where
  "netlink_error e = NetlinkError (scast (- e))"

definition checkHeader :: "NlMsgParser \<Rightarrow> unit res" where
  "checkHeader p =
     res_bind (get_NlMsghdr p) (\<lambda>h.
       if Type h = NLMSG_ERROR
       then res_bind (nlMsgerrAt (pdata p) (ppos p + NLMSG_HDRLEN)) (\<lambda>e.
              if e \<noteq> 0 then Err (netlink_error e) else Ok ())
       else Ok ())"

text \<open>
  \<open>Ok b\<close> stands for \<^verbatim>\<open>(b, nil)\<close> and \<open>Err e\<close> for \<^verbatim>\<open>(true, e)\<close>, the only two shapes returned.
\<close>

definition checkResponseHeader :: "u32 \<Rightarrow> u32 \<Rightarrow> NlMsgParser \<Rightarrow> bool res" where
  "checkResponseHeader expectedPortId expectedSeq p =
     res_bind (get_NlMsghdr p) (\<lambda>h.
       if Pid h \<noteq> expectedPortId then Err (PortIdMismatch (Pid h) expectedPortId)
       else if Seq h \<noteq> expectedSeq then Ok False
       else res_bind (checkHeader p) (\<lambda>_. Ok True))"

text \<open>
  The pointer to the header is taken before the length check and read after it.
\<close>

definition ExpectNlMsghdr :: "u16 \<Rightarrow> NlMsgParser \<Rightarrow> (NlMsghdr \<times> NlMsgParser) res" where
  "ExpectNlMsghdr t p =
     (if ppos p < length (pdata p)
      then res_bind (Advance SizeofNlMsghdr p) (\<lambda>p'.
           res_bind (get_NlMsghdr p) (\<lambda>h.
             if Type h \<noteq> t then Err (WrongType (Type h) t) else Ok (h, p')))
      else Crash IndexOutOfRange)"

definition checkData :: "nat \<Rightarrow> string \<Rightarrow> NlMsgParser \<Rightarrow> unit res" where
  "checkData l obj p =
     (if ppos p + l \<le> length (pdata p) then Ok ()
      else Err (Truncated obj (int (length (pdata p)) - int (ppos p)) l))"

definition processNlMsgDone :: "NlMsgParser \<Rightarrow> unit res" where
  "processNlMsgDone msg =
     res_bind (Advance SizeofNlMsghdr msg) (\<lambda>msg.
     res_bind (checkData 4 ''NLMSG_DONE error code'' msg) (\<lambda>_.
     res_bind (int32At (pdata msg) (ppos msg)) (\<lambda>errno.
       if errno = 0 then Ok () else Err (netlink_error errno))))"

section \<open>The attribute loop\<close>

text \<open>One iteration: \<open>None\<close> when the loop is over, otherwise the attribute and the new cursor.\<close>

definition parseAttr :: "NlMsgParser \<Rightarrow> ((u16 \<times> bytes) \<times> NlMsgParser) option res" where
  "parseAttr p =
     (let apos = align (ppos p) NLA_ALIGNTO
      in if length (pdata p) \<le> apos then Ok None
         else (let p = p\<lparr>ppos := apos\<rparr> in
           res_bind (checkData SizeofNlAttr ''netlink attribute'' p) (\<lambda>_.
           res_bind (nlAttrAt (pdata p) (ppos p)) (\<lambda>nla.
           res_bind (checkData (unat (nlaLen nla)) ''netlink attribute'' p) (\<lambda>_.
             let valpos = align (ppos p + SizeofNlAttr) NLA_ALIGNTO;
                 end = ppos p + unat (nlaLen nla)
             in if valpos \<le> end
                then Ok (Some ((nlaType nla, take (end - valpos) (drop valpos (pdata p))),
                               p\<lparr>ppos := end\<rparr>))
                else Crash SliceBounds)))))"

lemma parseAttr_progress:
  assumes "parseAttr p = Ok (Some (a, q))"
  shows "pdata q = pdata p" "ppos p < ppos q" "ppos q \<le> length (pdata p)"
proof -
  from assms show "pdata q = pdata p"
    by (auto simp: parseAttr_def Let_def outcome_simps split: if_splits)
  from assms show "ppos q \<le> length (pdata p)"
    by (auto simp: parseAttr_def Let_def outcome_simps checkData_def split: if_splits)
  have "ppos p \<le> align (ppos p) 4" by simp
  moreover from assms have "align (align (ppos p) 4 + 4) 4 \<le> ppos q"
    by (auto simp: parseAttr_def Let_def outcome_simps split: if_splits)
  moreover have "align (ppos p) 4 + 4 \<le> align (align (ppos p) 4 + 4) 4" by (rule align4_ge)
  ultimately show "ppos p < ppos q" by linarith
qed

text \<open>
  The consumer closure updates captured state; an error discards it, as every caller does.
\<close>

function parseAttrs :: "(u16 \<Rightarrow> bytes \<Rightarrow> 's \<Rightarrow> 's) \<Rightarrow> NlMsgParser \<Rightarrow> 's \<Rightarrow> ('s \<times> NlMsgParser) res" where
  "parseAttrs consumer p s =
     res_bind (parseAttr p) (\<lambda>r. case r of
         None \<Rightarrow> Ok (s, p)
       | Some ((t, val), q) \<Rightarrow> parseAttrs consumer q (consumer t val s))"
  by pat_completeness auto
termination
proof (relation "measure (\<lambda>(c, p, s). length (pdata p) - ppos p)", goal_cases)
  case (2 consumer p s r z y q t val)
  then show ?case using parseAttr_progress [of p y q] by simp
qed simp

declare parseAttrs.simps [simp del]

type_synonym Attrs = "u16 \<rightharpoonup> bytes"
type_synonym Attr = "u16 \<times> bytes"

definition TakeAttrs :: "NlMsgParser \<Rightarrow> (Attrs \<times> NlMsgParser) res" where
  "TakeAttrs p = parseAttrs (\<lambda>t val res. res(t \<mapsto> val)) p Map.empty"

definition ParseNestedAttrs :: "bytes \<Rightarrow> Attrs res" where
  "ParseNestedAttrs dat = map_res fst (TakeAttrs \<lparr>pdata = dat, ppos = 0\<rparr>)"

section \<open>Typed access to attributes\<close>

text \<open>A nil slice or map is \<open>None\<close>.\<close>

definition Get :: "Attrs \<Rightarrow> u16 \<Rightarrow> bool \<Rightarrow> bytes option res" where
  "Get attrs t optional =
     (if attrs t = None \<and> \<not> optional then Err (MissingAttr t) else Ok (attrs t))"

definition GetFixedBytes :: "Attrs \<Rightarrow> u16 \<Rightarrow> nat \<Rightarrow> bool \<Rightarrow> bytes option res" where
  "GetFixedBytes attrs t expect optional =
     res_bind (Get attrs t optional) (\<lambda>val. case val of
         None \<Rightarrow> Ok None
       | Some v \<Rightarrow> if length v \<noteq> expect then Err (AttrWrongLength t (length v) expect)
                   else Ok (Some v))"

text \<open>Returns the flag and the destination array after the copy.\<close>

definition GetOptionalBytes :: "Attrs \<Rightarrow> u16 \<Rightarrow> bytes \<Rightarrow> (bool \<times> bytes) res" where
  "GetOptionalBytes attrs t dest =
     res_bind (GetFixedBytes attrs t (length dest) True) (\<lambda>val. case val of
         None \<Rightarrow> Ok (False, dest)
       | Some v \<Rightarrow> Ok (True, write_at dest 0 v))"

definition GetEmpty :: "Attrs \<Rightarrow> u16 \<Rightarrow> bool res" where
  "GetEmpty attrs t =
     res_bind (Get attrs t True) (\<lambda>val. case val of
         None \<Rightarrow> Ok False
       | Some v \<Rightarrow> if length v \<noteq> 0 then Err (EmptyAttrWrongLength t (length v)) else Ok True)"

definition GetOptionalUint8 :: "Attrs \<Rightarrow> u16 \<Rightarrow> (u8 \<times> bool) res" where
  "GetOptionalUint8 attrs t =
     res_bind (Get attrs t True) (\<lambda>val. case val of
         None \<Rightarrow> Ok (0, False)
       | Some v \<Rightarrow> if length v \<noteq> 1 then Err (Uint8WrongLength t (length v)) else Ok (v ! 0, True))"

definition getUint16 :: "Attrs \<Rightarrow> u16 \<Rightarrow> bool \<Rightarrow> (u16 \<times> bool) res" where
  "getUint16 attrs t optional =
     res_bind (Get attrs t optional) (\<lambda>val. case val of
         None \<Rightarrow> Ok (0, False)
       | Some v \<Rightarrow> if length v \<noteq> 2 then Err (Uint16WrongLength t (length v))
                   else map_res (\<lambda>x. (x, True)) (uint16At v 0))"

definition GetUint16 :: "Attrs \<Rightarrow> u16 \<Rightarrow> u16 res" where
  "GetUint16 attrs t = map_res fst (getUint16 attrs t False)"

definition GetOptionalUint16 :: "Attrs \<Rightarrow> u16 \<Rightarrow> (u16 \<times> bool) res" where
  "GetOptionalUint16 attrs t = getUint16 attrs t True"

definition GetUint32 :: "Attrs \<Rightarrow> u16 \<Rightarrow> u32 res" where
  "GetUint32 attrs t =
     res_bind (Get attrs t False) (\<lambda>val. case val of
         None \<Rightarrow> Err (Uint32WrongLength t 0)
       | Some v \<Rightarrow> if length v \<noteq> 4 then Err (Uint32WrongLength t (length v)) else uint32At v 0)"

definition getUint64 :: "Attrs \<Rightarrow> u16 \<Rightarrow> bool \<Rightarrow> (u64 \<times> bool) res" where
  "getUint64 attrs t optional =
     res_bind (Get attrs t optional) (\<lambda>val. case val of
         None \<Rightarrow> Ok (0, False)
       | Some v \<Rightarrow> if length v \<noteq> 8 then Err (Uint64WrongLength t (length v))
                   else map_res (\<lambda>x. (x, True)) (uint64At v 0))"

definition GetUint64 :: "Attrs \<Rightarrow> u16 \<Rightarrow> u64 res" where
  "GetUint64 attrs t = map_res fst (getUint64 attrs t False)"

definition GetOptionalUint64 :: "Attrs \<Rightarrow> u16 \<Rightarrow> (u64 \<times> bool) res" where
  "GetOptionalUint64 attrs t = getUint64 attrs t True"

definition GetString :: "Attrs \<Rightarrow> u16 \<Rightarrow> string res" where
  "GetString attrs t =
     res_bind (Get attrs t False) (\<lambda>val. case val of
         None \<Rightarrow> Err (StringZeroLength t)
       | Some v \<Rightarrow> if length v = 0 then Err (StringZeroLength t)
                   else if v ! (length v - 1) \<noteq> 0 then Err (StringNotNulTerminated t)
                   else Ok (bytes_string (take (length v - 1) v)))"

definition GetNestedAttrs :: "Attrs \<Rightarrow> u16 \<Rightarrow> bool \<Rightarrow> Attrs option res" where
  "GetNestedAttrs attrs t optional =
     res_bind (Get attrs t optional) (\<lambda>val. case val of
         None \<Rightarrow> Ok None
       | Some v \<Rightarrow> map_res Some (ParseNestedAttrs v))"

definition GetOrderedAttrs :: "Attrs \<Rightarrow> u16 \<Rightarrow> Attr list res" where
  "GetOrderedAttrs attrs t =
     res_bind (Get attrs t False) (\<lambda>val. case val of
         None \<Rightarrow> Ok []
       | Some v \<Rightarrow> map_res fst
           (parseAttrs (\<lambda>t val res. res @ [(t, val)]) \<lparr>pdata = v, ppos = 0\<rparr> []))"

lemmas getter_defs =
  Get_def GetFixedBytes_def GetOptionalBytes_def GetEmpty_def GetOptionalUint8_def getUint16_def
  GetUint16_def GetOptionalUint16_def GetUint32_def getUint64_def GetUint64_def
  GetOptionalUint64_def GetString_def

section \<open>The attribute loop inverts the encoding\<close>

fun nla_payload :: "nla \<Rightarrow> bytes" where
  "nla_payload (Raw t p) = p"
| "nla_payload (Nested t ts) = pad4 (enc_nlas ts)"

text \<open>The length of an attribute, header included, fits its 16-bit length field.\<close>

definition fits :: "nla \<Rightarrow> bool" where
  "fits a \<longleftrightarrow> 4 + length (nla_payload a) < 2 ^ 16"

definition attrs_of :: "nla list \<Rightarrow> Attrs" where
  "attrs_of ts = map_of (rev (map (\<lambda>a. (nla_type a, nla_payload a)) ts))"

lemma enc_nla_frame: "enc_nla a = nla_frame (nla_type a) (nla_payload a)"
  by (cases a) simp_all

lemma length_enc_nla [simp]: "length (enc_nla a) = 4 + length (nla_payload a)"
  by (simp add: enc_nla_frame)

text \<open>When a nested attribute fits, so does everything inside it.\<close>

lemma length_enc_member: "a \<in> set ts \<Longrightarrow> length (enc_nla a) \<le> length (enc_nlas ts)"
proof (induction ts)
  case (Cons b ts)
  have "4 + length (nla_payload b) \<le> align (4 + length (nla_payload b)) 4" by (rule align4_ge)
  with Cons show ?case by (cases "ts = []") (auto simp del: align4_ge)
qed simp

lemma fits_children:
  assumes "fits (Nested t ts)"
  shows "list_all fits ts"
proof -
  have "length (enc_nlas ts) \<le> align (length (enc_nlas ts)) 4" by simp
  then have "fits a" if "a \<in> set ts" for a
    using assms length_enc_member [OF that] by (simp add: fits_def del: align4_ge)
  then show ?thesis by (simp add: list_all_iff)
qed

lemma nlAttrAt_enc:
  assumes "dat = pre @ enc_nla a @ rest" "pos = length pre" "fits a"
  shows "nlAttrAt dat pos = Ok \<lparr>nlaLen = of_nat (4 + length (nla_payload a)), nlaType = nla_type a\<rparr>"
proof -
  let ?h = "enc_word 2 (of_nat (4 + length (nla_payload a)) :: u16) @ enc_word 2 (nla_type a)"
  have "read_at dat (pos + 0) 4 = ?h"
    using assms by (simp add: read_at_def enc_nla_frame nla_frame_def)
  moreover have "pos < length dat" "pos + 0 + 4 \<le> length dat"
    using assms by simp_all
  ultimately show ?thesis
    by (simp add: nlAttrAt_def peek_Ok read_at_def)
qed

lemma parseAttr_enc:
  assumes "pdata p = pre @ enc_nla a @ rest" "align (ppos p) 4 = length pre" "fits a"
  shows "parseAttr p = Ok (Some ((nla_type a, nla_payload a),
           p\<lparr>ppos := length pre + length (enc_nla a)\<rparr>))"
proof -
  have al: "4 dvd length pre" using align4_dvd [of "ppos p"] assms(2) by simp
  have len: "unat (of_nat (4 + length (nla_payload a)) :: u16) = 4 + length (nla_payload a)"
    using assms(3) by (simp only: fits_def unat_of_nat) simp
  have nla: "nlAttrAt (pdata p) (length pre)
      = Ok \<lparr>nlaLen = of_nat (4 + length (nla_payload a)), nlaType = nla_type a\<rparr>"
    using assms(1) _ assms(3) by (rule nlAttrAt_enc) simp
  have val: "take (length (nla_payload a)) (drop (length pre + 4) (pdata p)) = nla_payload a"
    using assms(1) by (simp add: enc_nla_frame nla_frame_def)
  have "align (length pre + 4) 4 = length pre + 4" using al by (simp add: align4_id)
  with nla len val assms(1) show ?thesis
    by (simp add: parseAttr_def Let_def assms(2) checkData_def del: of_nat_add)
qed

lemma parseAttr_end: "length (pdata p) \<le> align (ppos p) 4 \<Longrightarrow> parseAttr p = Ok None"
  by (simp add: parseAttr_def Let_def)

lemma parseAttrs_enc:
  assumes "pdata p = pre @ enc_nlas ts @ z" "align (ppos p) 4 = length pre"
    "length z \<le> align (length (enc_nlas ts)) 4 - length (enc_nlas ts)" "list_all fits ts"
  shows "\<exists>q. parseAttrs c p s = Ok (fold (\<lambda>a. c (nla_type a) (nla_payload a)) ts s, q)"
  using assms
proof (induction ts arbitrary: p pre s)
  case Nil
  then have "parseAttr p = Ok None" by (intro parseAttr_end) (simp add: align4)
  then show ?case by (subst parseAttrs.simps) simp
next
  case (Cons a ts)
  have al: "4 dvd length pre" using align4_dvd [of "ppos p"] Cons.prems(2) by simp
  define rest where "rest = drop (length (pre @ enc_nla a)) (pdata p)"
  have split: "pdata p = pre @ enc_nla a @ rest"
    using Cons.prems(1) by (cases "ts = []") (simp_all add: rest_def pad4_def)
  let ?q = "p\<lparr>ppos := length pre + length (enc_nla a)\<rparr>"
  let ?s = "c (nla_type a) (nla_payload a) s"
  have step: "parseAttrs c p s = parseAttrs c ?q ?s"
    using parseAttr_enc [OF split Cons.prems(2)] Cons.prems(4)
    by (subst parseAttrs.simps) simp
  have "\<exists>q. parseAttrs c ?q ?s = Ok (fold (\<lambda>a. c (nla_type a) (nla_payload a)) ts ?s, q)"
  proof (cases "ts = []")
    case True
    have "length (pdata ?q) \<le> align (ppos ?q) 4"
      using Cons.prems(1,3) True al
      by (simp add: align4_add) (use align4_ge [of "length (nla_payload a)"] in linarith)
    then have "parseAttr ?q = Ok None" by (rule parseAttr_end)
    then show ?thesis using True by (subst parseAttrs.simps) simp
  next
    case False
    let ?pre = "pre @ pad4 (enc_nla a)"
    show ?thesis
    proof (rule Cons.IH [of ?q ?pre])
      show "pdata ?q = ?pre @ enc_nlas ts @ z" using Cons.prems(1) False by simp
      show "align (ppos ?q) 4 = length ?pre" using al by (simp add: align4_add)
      show "length z \<le> align (length (enc_nlas ts)) 4 - length (enc_nlas ts)"
        using Cons.prems(3) False by (simp add: align4_add)
      show "list_all fits ts" using Cons.prems(4) by simp
    qed
  qed
  then show ?case using step by simp
qed

lemma parseAttrs_enc_pad:
  assumes "list_all fits ts" "dat = enc_nlas ts \<or> dat = pad4 (enc_nlas ts)"
  shows "\<exists>q. parseAttrs c \<lparr>pdata = dat, ppos = 0\<rparr> s
           = Ok (fold (\<lambda>a. c (nla_type a) (nla_payload a)) ts s, q)"
proof -
  define z where "z = drop (length (enc_nlas ts)) dat"
  have "dat = enc_nlas ts @ z" "length z \<le> align (length (enc_nlas ts)) 4 - length (enc_nlas ts)"
    using assms(2) by (auto simp: z_def pad4_def)
  then show ?thesis
    using parseAttrs_enc [of "\<lparr>pdata = dat, ppos = 0\<rparr>" "[]" ts z c s] assms(1) by (simp add: align4)
qed

lemma fold_map_upd:
  "fold (\<lambda>a m. m(f a \<mapsto> g a)) xs m0 = m0 ++ map_of (rev (map (\<lambda>a. (f a, g a)) xs))"
  by (induction xs arbitrary: m0) (auto simp: map_add_assoc)

lemma fold_append: "fold (\<lambda>a acc. acc @ [g a]) xs acc = acc @ map g xs"
  by (induction xs arbitrary: acc) simp_all

lemma ParseNestedAttrs_enc:
  assumes "list_all fits ts" "dat = enc_nlas ts \<or> dat = pad4 (enc_nlas ts)"
  shows "ParseNestedAttrs dat = Ok (attrs_of ts)"
  using parseAttrs_enc_pad [OF assms, of "\<lambda>t val res. res(t \<mapsto> val)" Map.empty]
  by (auto simp: ParseNestedAttrs_def TakeAttrs_def attrs_of_def fold_map_upd)

lemma GetNestedAttrs_enc:
  assumes "list_all fits ts" "attrs t = Some (pad4 (enc_nlas ts))"
  shows "GetNestedAttrs attrs t opt = Ok (Some (attrs_of ts))"
  using assms ParseNestedAttrs_enc [of ts] by (simp add: GetNestedAttrs_def Get_def)

lemma GetOrderedAttrs_enc:
  assumes "list_all fits ts" "attrs t = Some (pad4 (enc_nlas ts))"
  shows "GetOrderedAttrs attrs t = Ok (map (\<lambda>a. (nla_type a, nla_payload a)) ts)"
  using parseAttrs_enc_pad [OF assms(1), of "pad4 (enc_nlas ts)"
      "\<lambda>t val res. res @ [(t, val)]" "[]"] assms(2)
  by (auto simp: GetOrderedAttrs_def Get_def fold_append)

lemma attrs_of_Nil [simp]: "attrs_of [] = Map.empty"
  by (simp add: attrs_of_def)

lemma attrs_of_append: "attrs_of (ts @ us) = attrs_of ts ++ attrs_of us"
  by (simp add: attrs_of_def)

lemma attrs_of_Cons: "attrs_of (a # ts) = [nla_type a \<mapsto> nla_payload a] ++ attrs_of ts"
  by (simp add: attrs_of_def)

lemma attrs_of_None: "t \<notin> nla_type ` set ts \<Longrightarrow> attrs_of ts t = None"
  by (auto simp: attrs_of_def map_of_eq_None_iff image_iff)

lemma attrs_of_member:
  assumes "distinct (map nla_type ts)" "a \<in> set ts"
  shows "attrs_of ts (nla_type a) = Some (nla_payload a)"
proof -
  have "distinct (map fst (rev (map (\<lambda>a. (nla_type a, nla_payload a)) ts)))"
    using assms(1) by (simp add: o_def rev_map [symmetric])
  then show ?thesis
    unfolding attrs_of_def using assms(2) by (intro map_of_is_SomeI) auto
qed

section \<open>When the loop fails\<close>

lemma nlAttrAt_in_range:
  "pos + 4 \<le> length dat \<Longrightarrow> nlAttrAt dat pos =
     Ok \<lparr>nlaLen = dec_word (read_at dat pos 2), nlaType = dec_word (read_at dat (pos + 2) 2)\<rparr>"
  by (simp add: nlAttrAt_def peek_def read_at_def drop_take min_def add.commute)

lemma parseAttr_no_block [simp]: "parseAttr p \<noteq> Blocked b"
  by (auto simp: parseAttr_def Let_def checkData_def nlAttrAt_in_range)

lemma parseAttr_crash:
  assumes "parseAttr p = Crash x"
  shows "x = SliceBounds \<and> align (ppos p) 4 + 4 \<le> length (pdata p) \<and>
    unat (dec_word (read_at (pdata p) (align (ppos p) 4) 2) :: u16) < 4"
proof -
  have al: "align (align (ppos p) 4 + 4) 4 = align (ppos p) 4 + 4" by (simp add: align4_id)
  from assms show ?thesis
    by (auto simp: parseAttr_def Let_def checkData_def nlAttrAt_in_range al split: if_splits)
qed

lemma parseAttrs_crash:
  "parseAttrs c p s = Crash x \<Longrightarrow> x = SliceBounds \<and>
    (\<exists>pos. 4 dvd pos \<and> ppos p \<le> pos \<and> pos + 4 \<le> length (pdata p) \<and>
      unat (dec_word (read_at (pdata p) pos 2) :: u16) < 4)"
proof (induction c p s rule: parseAttrs.induct)
  case (1 c p s)
  show ?case
  proof (cases "parseAttr p")
    case (Crash y)
    with 1(2) have "y = x" by (simp add: parseAttrs.simps [of c p s])
    with parseAttr_crash [OF Crash] align4_dvd align4_ge show ?thesis by blast
  next
    case (Ok r)
    then obtain t v q where r: "r = Some ((t, v), q)"
      using 1(2) by (cases r) (auto simp: parseAttrs.simps [of c p s])
    with Ok 1(2) have "parseAttrs c q (c t v s) = Crash x" by (simp add: parseAttrs.simps [of c p s])
    with 1(1) [OF Ok r refl refl] have "x = SliceBounds \<and> (\<exists>pos. 4 dvd pos \<and> ppos q \<le> pos \<and>
        pos + 4 \<le> length (pdata q) \<and> unat (dec_word (read_at (pdata q) pos 2) :: u16) < 4)"
      by simp
    moreover have "pdata q = pdata p" "ppos p \<le> ppos q"
      using parseAttr_progress [of p "(t, v)" q] Ok r by simp_all
    ultimately show ?thesis by (metis le_trans)
  qed (use 1(2) in \<open>auto simp: parseAttrs.simps [of c p s]\<close>)
qed

section \<open>Properties\<close>

text \<open>
  Property C7: parsing inverts building.  The attributes that the builder's encoding of any list
  of trees carries are recovered by the attribute loop, in order and with their payloads; a
  nested attribute's payload parses to its children in turn.
\<close>

theorem parse_encoded_attrs:
  assumes "list_all fits ts"
  shows "ParseNestedAttrs (enc_nlas ts) = Ok (attrs_of ts) \<and>
    GetOrderedAttrs [t \<mapsto> enc_nlas ts] t = Ok (map (\<lambda>a. (nla_type a, nla_payload a)) ts) \<and>
    (\<forall>u us. Nested u us \<in> set ts \<longrightarrow> ParseNestedAttrs (nla_payload (Nested u us)) = Ok (attrs_of us))"
proof -
  have "ParseNestedAttrs (nla_payload (Nested u us)) = Ok (attrs_of us)" if "Nested u us \<in> set ts" for u us
  proof -
    have "list_all fits us" using that assms fits_children by (auto simp: list_all_iff)
    then show ?thesis using ParseNestedAttrs_enc by simp
  qed
  moreover have "GetOrderedAttrs [t \<mapsto> enc_nlas ts] t = Ok (map (\<lambda>a. (nla_type a, nla_payload a)) ts)"
    using parseAttrs_enc_pad [OF assms, of "enc_nlas ts" "\<lambda>t val res. res @ [(t, val)]" "[]"]
    by (auto simp: GetOrderedAttrs_def Get_def fold_append)
  ultimately show ?thesis using ParseNestedAttrs_enc [OF assms] by blast
qed

theorem parse_encoded_attrs_witness:
  "ParseNestedAttrs (enc_nlas [Raw 1 [5, 6], Nested 2 [Raw 3 [9]]]) =
     Ok (attrs_of [Raw 1 [5, 6], Nested 2 [Raw 3 [9]]]) \<and>
   ParseNestedAttrs (nla_payload (Nested 2 [Raw 3 [9]])) = Ok (attrs_of [Raw 3 [9]])"
  using parse_encoded_attrs [of "[Raw 1 [5, 6], Nested 2 [Raw 3 [9]]]"]
  by (simp add: fits_def nla_frame_def align4)

text \<open>
  Property C33: the attribute loop always terminates, and panics in one case only: a slice
  expression out of range, at an attribute whose length field is smaller than its own header.
\<close>

theorem attribute_loop_panics_only_on_short_length:
  assumes "ParseNestedAttrs dat = Crash x"
  shows "x = SliceBounds \<and>
    (\<exists>pos. 4 dvd pos \<and> pos + 4 \<le> length dat \<and> unat (dec_word (read_at dat pos 2) :: u16) < 4)"
proof -
  have "parseAttrs (\<lambda>t val res. res(t \<mapsto> val)) \<lparr>pdata = dat, ppos = 0\<rparr> Map.empty = Crash x"
    using assms by (cases "TakeAttrs \<lparr>pdata = dat, ppos = 0\<rparr>")
      (simp_all add: ParseNestedAttrs_def TakeAttrs_def)
  from parseAttrs_crash [OF this] show ?thesis by auto
qed

theorem attribute_loop_panics_witness:
  "ParseNestedAttrs [0, 0, 1, 0] = Crash SliceBounds \<and>
   (\<exists>pos. 4 dvd pos \<and> pos + 4 \<le> length [0, 0, 1, 0 :: byte] \<and>
      unat (dec_word (read_at [0, 0, 1, 0] pos 2) :: u16) < 4)"
proof -
  have "parseAttr \<lparr>pdata = [0, 0, 1, 0], ppos = 0\<rparr> = Crash SliceBounds"
    by (simp add: parseAttr_def align4 checkData_def nlAttrAt_in_range read_at_def dec_word_def Let_def)
  then have "ParseNestedAttrs [0, 0, 1, 0] = Crash SliceBounds"
    unfolding ParseNestedAttrs_def TakeAttrs_def by (subst parseAttrs.simps) simp
  then show ?thesis using attribute_loop_panics_only_on_short_length by blast
qed

end
