(* ===== verification/Ovs_Constants.thy ===== *)
theory Ovs_Constants
  imports Netlink_Builder
begin

text \<open>
  The constants of \<^verbatim>\<open>odp/syscall.go\<close>: generic netlink and Open vSwitch identifiers, with the
  width at which the code uses them (commands and versions 8 bits, attribute types and
  family identifiers 16 bits, vport types and feature flags 32 bits, sizes as numbers).
\<close>

definition SOL_NETLINK :: int where "SOL_NETLINK = 270"
definition SizeofGenlMsghdr :: nat where "SizeofGenlMsghdr = 4"
definition GENL_ID_GENERATE :: u16 where "GENL_ID_GENERATE = 0"
definition GENL_ID_CTRL :: u16 where "GENL_ID_CTRL = 0x10"
definition GENL_ID_VFS_DQUOT :: u16 where "GENL_ID_VFS_DQUOT = 0x10 + 1"
definition GENL_ID_PMCRAID :: u16 where "GENL_ID_PMCRAID = 0x10 + 2"
definition CTRL_CMD_UNSPEC :: u8 where "CTRL_CMD_UNSPEC = 0"
definition CTRL_CMD_NEWFAMILY :: u8 where "CTRL_CMD_NEWFAMILY = 1"
definition CTRL_CMD_DELFAMILY :: u8 where "CTRL_CMD_DELFAMILY = 2"
definition CTRL_CMD_GETFAMILY :: u8 where "CTRL_CMD_GETFAMILY = 3"
definition CTRL_CMD_NEWOPS :: u8 where "CTRL_CMD_NEWOPS = 4"
definition CTRL_CMD_DELOPS :: u8 where "CTRL_CMD_DELOPS = 5"
definition CTRL_CMD_GETOPS :: u8 where "CTRL_CMD_GETOPS = 6"
definition CTRL_CMD_NEWMCAST_GRP :: u8 where "CTRL_CMD_NEWMCAST_GRP = 7"
definition CTRL_CMD_DELMCAST_GRP :: u8 where "CTRL_CMD_DELMCAST_GRP = 8"
definition CTRL_ATTR_UNSPEC :: u16 where "CTRL_ATTR_UNSPEC = 0"
definition CTRL_ATTR_FAMILY_ID :: u16 where "CTRL_ATTR_FAMILY_ID = 1"
definition CTRL_ATTR_FAMILY_NAME :: u16 where "CTRL_ATTR_FAMILY_NAME = 2"
definition CTRL_ATTR_VERSION :: u16 where "CTRL_ATTR_VERSION = 3"
definition CTRL_ATTR_HDRSIZE :: u16 where "CTRL_ATTR_HDRSIZE = 4"
definition CTRL_ATTR_MAXATTR :: u16 where "CTRL_ATTR_MAXATTR = 5"
definition CTRL_ATTR_OPS :: u16 where "CTRL_ATTR_OPS = 6"
definition CTRL_ATTR_MCAST_GROUPS :: u16 where "CTRL_ATTR_MCAST_GROUPS = 7"
definition CTRL_ATTR_MCAST_GRP_UNSPEC :: u16 where "CTRL_ATTR_MCAST_GRP_UNSPEC = 0"
definition CTRL_ATTR_MCAST_GRP_NAME :: u16 where "CTRL_ATTR_MCAST_GRP_NAME = 1"
definition CTRL_ATTR_MCAST_GRP_ID :: u16 where "CTRL_ATTR_MCAST_GRP_ID = 2"
definition SizeofOvsHeader :: nat where "SizeofOvsHeader = 4"
definition OVS_DATAPATH_VERSION :: u8 where "OVS_DATAPATH_VERSION = 2"
definition OVS_VPORT_VERSION :: u8 where "OVS_VPORT_VERSION = 1"
definition OVS_FLOW_VERSION :: u8 where "OVS_FLOW_VERSION = 1"
definition OVS_PACKET_VERSION :: u8 where "OVS_PACKET_VERSION = 1"
definition OVS_DP_CMD_UNSPEC :: u8 where "OVS_DP_CMD_UNSPEC = 0"
definition OVS_DP_CMD_NEW :: u8 where "OVS_DP_CMD_NEW = 1"
definition OVS_DP_CMD_DEL :: u8 where "OVS_DP_CMD_DEL = 2"
definition OVS_DP_CMD_GET :: u8 where "OVS_DP_CMD_GET = 3"
definition OVS_DP_CMD_SET :: u8 where "OVS_DP_CMD_SET = 4"
definition OVS_DP_ATTR_UNSPEC :: u16 where "OVS_DP_ATTR_UNSPEC = 0"
definition OVS_DP_ATTR_NAME :: u16 where "OVS_DP_ATTR_NAME = 1"
definition OVS_DP_ATTR_UPCALL_PID :: u16 where "OVS_DP_ATTR_UPCALL_PID = 2"
definition OVS_DP_ATTR_STATS :: u16 where "OVS_DP_ATTR_STATS = 3"
definition OVS_DP_ATTR_MEGAFLOW_STATS :: u16 where "OVS_DP_ATTR_MEGAFLOW_STATS = 4"
definition OVS_DP_ATTR_USER_FEATURES :: u16 where "OVS_DP_ATTR_USER_FEATURES = 5"
definition OVS_DP_F_UNALIGNED :: u32 where "OVS_DP_F_UNALIGNED = 1"
definition OVS_DP_F_VPORT_PIDS :: u32 where "OVS_DP_F_VPORT_PIDS = 2"
definition OVS_VPORT_CMD_UNSPEC :: u8 where "OVS_VPORT_CMD_UNSPEC = 0"
definition OVS_VPORT_CMD_NEW :: u8 where "OVS_VPORT_CMD_NEW = 1"
definition OVS_VPORT_CMD_DEL :: u8 where "OVS_VPORT_CMD_DEL = 2"
definition OVS_VPORT_CMD_GET :: u8 where "OVS_VPORT_CMD_GET = 3"
definition OVS_VPORT_CMD_SET :: u8 where "OVS_VPORT_CMD_SET = 4"
definition OVS_VPORT_ATTR_UNSPEC :: u16 where "OVS_VPORT_ATTR_UNSPEC = 0"
definition OVS_VPORT_ATTR_PORT_NO :: u16 where "OVS_VPORT_ATTR_PORT_NO = 1"
definition OVS_VPORT_ATTR_TYPE :: u16 where "OVS_VPORT_ATTR_TYPE = 2"
definition OVS_VPORT_ATTR_NAME :: u16 where "OVS_VPORT_ATTR_NAME = 3"
definition OVS_VPORT_ATTR_OPTIONS :: u16 where "OVS_VPORT_ATTR_OPTIONS = 4"
definition OVS_VPORT_ATTR_UPCALL_PID :: u16 where "OVS_VPORT_ATTR_UPCALL_PID = 5"
definition OVS_VPORT_ATTR_STATS :: u16 where "OVS_VPORT_ATTR_STATS = 6"
definition OVS_VPORT_TYPE_UNSPEC :: u32 where "OVS_VPORT_TYPE_UNSPEC = 0"
definition OVS_VPORT_TYPE_NETDEV :: u32 where "OVS_VPORT_TYPE_NETDEV = 1"
definition OVS_VPORT_TYPE_INTERNAL :: u32 where "OVS_VPORT_TYPE_INTERNAL = 2"
definition OVS_VPORT_TYPE_GRE :: u32 where "OVS_VPORT_TYPE_GRE = 3"
definition OVS_VPORT_TYPE_VXLAN :: u32 where "OVS_VPORT_TYPE_VXLAN = 4"
definition OVS_VPORT_TYPE_GENEVE :: u32 where "OVS_VPORT_TYPE_GENEVE = 5"
definition OVS_TUNNEL_ATTR_UNSPEC :: u16 where "OVS_TUNNEL_ATTR_UNSPEC = 0"
definition OVS_TUNNEL_ATTR_DST_PORT :: u16 where "OVS_TUNNEL_ATTR_DST_PORT = 1"
definition OVS_FLOW_CMD_UNSPEC :: u8 where "OVS_FLOW_CMD_UNSPEC = 0"
definition OVS_FLOW_CMD_NEW :: u8 where "OVS_FLOW_CMD_NEW = 1"
definition OVS_FLOW_CMD_DEL :: u8 where "OVS_FLOW_CMD_DEL = 2"
definition OVS_FLOW_CMD_GET :: u8 where "OVS_FLOW_CMD_GET = 3"
definition OVS_FLOW_CMD_SET :: u8 where "OVS_FLOW_CMD_SET = 4"
definition OVS_FLOW_ATTR_UNSPEC :: u16 where "OVS_FLOW_ATTR_UNSPEC = 0"
definition OVS_FLOW_ATTR_KEY :: u16 where "OVS_FLOW_ATTR_KEY = 1"
definition OVS_FLOW_ATTR_ACTIONS :: u16 where "OVS_FLOW_ATTR_ACTIONS = 2"
definition OVS_FLOW_ATTR_STATS :: u16 where "OVS_FLOW_ATTR_STATS = 3"
definition OVS_FLOW_ATTR_TCP_FLAGS :: u16 where "OVS_FLOW_ATTR_TCP_FLAGS = 4"
definition OVS_FLOW_ATTR_USED :: u16 where "OVS_FLOW_ATTR_USED = 5"
definition OVS_FLOW_ATTR_CLEAR :: u16 where "OVS_FLOW_ATTR_CLEAR = 6"
definition OVS_FLOW_ATTR_MASK :: u16 where "OVS_FLOW_ATTR_MASK = 7"
definition SizeofOvsFlowStats :: nat where "SizeofOvsFlowStats = 16"
definition OVS_KEY_ATTR_UNSPEC :: u16 where "OVS_KEY_ATTR_UNSPEC = 0"
definition OVS_KEY_ATTR_ENCAP :: u16 where "OVS_KEY_ATTR_ENCAP = 1"
definition OVS_KEY_ATTR_PRIORITY :: u16 where "OVS_KEY_ATTR_PRIORITY = 2"
definition OVS_KEY_ATTR_IN_PORT :: u16 where "OVS_KEY_ATTR_IN_PORT = 3"
definition OVS_KEY_ATTR_ETHERNET :: u16 where "OVS_KEY_ATTR_ETHERNET = 4"
definition OVS_KEY_ATTR_VLAN :: u16 where "OVS_KEY_ATTR_VLAN = 5"
definition OVS_KEY_ATTR_ETHERTYPE :: u16 where "OVS_KEY_ATTR_ETHERTYPE = 6"
definition OVS_KEY_ATTR_IPV4 :: u16 where "OVS_KEY_ATTR_IPV4 = 7"
definition OVS_KEY_ATTR_IPV6 :: u16 where "OVS_KEY_ATTR_IPV6 = 8"
definition OVS_KEY_ATTR_TCP :: u16 where "OVS_KEY_ATTR_TCP = 9"
definition OVS_KEY_ATTR_UDP :: u16 where "OVS_KEY_ATTR_UDP = 10"
definition OVS_KEY_ATTR_ICMP :: u16 where "OVS_KEY_ATTR_ICMP = 11"
definition OVS_KEY_ATTR_ICMPV6 :: u16 where "OVS_KEY_ATTR_ICMPV6 = 12"
definition OVS_KEY_ATTR_ARP :: u16 where "OVS_KEY_ATTR_ARP = 13"
definition OVS_KEY_ATTR_ND :: u16 where "OVS_KEY_ATTR_ND = 14"
definition OVS_KEY_ATTR_SKB_MARK :: u16 where "OVS_KEY_ATTR_SKB_MARK = 15"
definition OVS_KEY_ATTR_TUNNEL :: u16 where "OVS_KEY_ATTR_TUNNEL = 16"
definition OVS_KEY_ATTR_SCTP :: u16 where "OVS_KEY_ATTR_SCTP = 17"
definition OVS_KEY_ATTR_TCP_FLAGS :: u16 where "OVS_KEY_ATTR_TCP_FLAGS = 18"
definition OVS_KEY_ATTR_DP_HASH :: u16 where "OVS_KEY_ATTR_DP_HASH = 19"
definition OVS_KEY_ATTR_RECIRC_ID :: u16 where "OVS_KEY_ATTR_RECIRC_ID = 20"
definition OVS_TUNNEL_KEY_ATTR_ID :: u16 where "OVS_TUNNEL_KEY_ATTR_ID = 0"
definition OVS_TUNNEL_KEY_ATTR_IPV4_SRC :: u16 where "OVS_TUNNEL_KEY_ATTR_IPV4_SRC = 1"
definition OVS_TUNNEL_KEY_ATTR_IPV4_DST :: u16 where "OVS_TUNNEL_KEY_ATTR_IPV4_DST = 2"
definition OVS_TUNNEL_KEY_ATTR_TOS :: u16 where "OVS_TUNNEL_KEY_ATTR_TOS = 3"
definition OVS_TUNNEL_KEY_ATTR_TTL :: u16 where "OVS_TUNNEL_KEY_ATTR_TTL = 4"
definition OVS_TUNNEL_KEY_ATTR_DONT_FRAGMENT :: u16 where "OVS_TUNNEL_KEY_ATTR_DONT_FRAGMENT = 5"
definition OVS_TUNNEL_KEY_ATTR_CSUM :: u16 where "OVS_TUNNEL_KEY_ATTR_CSUM = 6"
definition OVS_TUNNEL_KEY_ATTR_OAM :: u16 where "OVS_TUNNEL_KEY_ATTR_OAM = 7"
definition OVS_TUNNEL_KEY_ATTR_GENEVE_OPTS :: u16 where "OVS_TUNNEL_KEY_ATTR_GENEVE_OPTS = 8"
definition OVS_TUNNEL_KEY_ATTR_TP_SRC :: u16 where "OVS_TUNNEL_KEY_ATTR_TP_SRC = 9"
definition OVS_TUNNEL_KEY_ATTR_TP_DST :: u16 where "OVS_TUNNEL_KEY_ATTR_TP_DST = 10"
definition OVS_TUNNEL_KEY_ATTR_VXLAN_OPTS :: u16 where "OVS_TUNNEL_KEY_ATTR_VXLAN_OPTS = 11"
definition OVS_TUNNEL_KEY_ATTR_IPV6_SRC :: u16 where "OVS_TUNNEL_KEY_ATTR_IPV6_SRC = 12"
definition OVS_TUNNEL_KEY_ATTR_IPV6_DST :: u16 where "OVS_TUNNEL_KEY_ATTR_IPV6_DST = 13"
definition ETH_ALEN :: nat where "ETH_ALEN = 6"
definition SizeofOvsKeyEthernet :: nat where "SizeofOvsKeyEthernet = 12"
definition OVS_ACTION_ATTR_UNSPEC :: u16 where "OVS_ACTION_ATTR_UNSPEC = 0"
definition OVS_ACTION_ATTR_OUTPUT :: u16 where "OVS_ACTION_ATTR_OUTPUT = 1"
definition OVS_ACTION_ATTR_USERSPACE :: u16 where "OVS_ACTION_ATTR_USERSPACE = 2"
definition OVS_ACTION_ATTR_SET :: u16 where "OVS_ACTION_ATTR_SET = 3"
definition OVS_ACTION_ATTR_PUSH_VLAN :: u16 where "OVS_ACTION_ATTR_PUSH_VLAN = 4"
definition OVS_ACTION_ATTR_POP_VLAN :: u16 where "OVS_ACTION_ATTR_POP_VLAN = 5"
definition OVS_ACTION_ATTR_SAMPLE :: u16 where "OVS_ACTION_ATTR_SAMPLE = 6"
definition OVS_PACKET_CMD_UNSPEC :: u8 where "OVS_PACKET_CMD_UNSPEC = 0"
definition OVS_PACKET_CMD_MISS :: u8 where "OVS_PACKET_CMD_MISS = 1"
definition OVS_PACKET_CMD_ACTION :: u8 where "OVS_PACKET_CMD_ACTION = 2"
definition OVS_PACKET_CMD_EXECUTE :: u8 where "OVS_PACKET_CMD_EXECUTE = 3"
definition OVS_PACKET_ATTR_UNSPEC :: u16 where "OVS_PACKET_ATTR_UNSPEC = 0"
definition OVS_PACKET_ATTR_PACKET :: u16 where "OVS_PACKET_ATTR_PACKET = 1"
definition OVS_PACKET_ATTR_KEY :: u16 where "OVS_PACKET_ATTR_KEY = 2"
definition OVS_PACKET_ATTR_ACTIONS :: u16 where "OVS_PACKET_ATTR_ACTIONS = 3"
definition OVS_PACKET_ATTR_USERDATA :: u16 where "OVS_PACKET_ATTR_USERDATA = 4"

lemmas ovs_consts =
  SOL_NETLINK_def SizeofGenlMsghdr_def GENL_ID_GENERATE_def GENL_ID_CTRL_def
  GENL_ID_VFS_DQUOT_def GENL_ID_PMCRAID_def CTRL_CMD_UNSPEC_def CTRL_CMD_NEWFAMILY_def
  CTRL_CMD_DELFAMILY_def CTRL_CMD_GETFAMILY_def CTRL_CMD_NEWOPS_def CTRL_CMD_DELOPS_def
  CTRL_CMD_GETOPS_def CTRL_CMD_NEWMCAST_GRP_def CTRL_CMD_DELMCAST_GRP_def CTRL_ATTR_UNSPEC_def
  CTRL_ATTR_FAMILY_ID_def CTRL_ATTR_FAMILY_NAME_def CTRL_ATTR_VERSION_def CTRL_ATTR_HDRSIZE_def
  CTRL_ATTR_MAXATTR_def CTRL_ATTR_OPS_def CTRL_ATTR_MCAST_GROUPS_def
  CTRL_ATTR_MCAST_GRP_UNSPEC_def CTRL_ATTR_MCAST_GRP_NAME_def CTRL_ATTR_MCAST_GRP_ID_def
  SizeofOvsHeader_def OVS_DATAPATH_VERSION_def OVS_VPORT_VERSION_def OVS_FLOW_VERSION_def
  OVS_PACKET_VERSION_def OVS_DP_CMD_UNSPEC_def OVS_DP_CMD_NEW_def OVS_DP_CMD_DEL_def
  OVS_DP_CMD_GET_def OVS_DP_CMD_SET_def OVS_DP_ATTR_UNSPEC_def OVS_DP_ATTR_NAME_def
  OVS_DP_ATTR_UPCALL_PID_def OVS_DP_ATTR_STATS_def OVS_DP_ATTR_MEGAFLOW_STATS_def
  OVS_DP_ATTR_USER_FEATURES_def OVS_DP_F_UNALIGNED_def OVS_DP_F_VPORT_PIDS_def
  OVS_VPORT_CMD_UNSPEC_def OVS_VPORT_CMD_NEW_def OVS_VPORT_CMD_DEL_def OVS_VPORT_CMD_GET_def
  OVS_VPORT_CMD_SET_def OVS_VPORT_ATTR_UNSPEC_def OVS_VPORT_ATTR_PORT_NO_def
  OVS_VPORT_ATTR_TYPE_def OVS_VPORT_ATTR_NAME_def OVS_VPORT_ATTR_OPTIONS_def
  OVS_VPORT_ATTR_UPCALL_PID_def OVS_VPORT_ATTR_STATS_def OVS_VPORT_TYPE_UNSPEC_def
  OVS_VPORT_TYPE_NETDEV_def OVS_VPORT_TYPE_INTERNAL_def OVS_VPORT_TYPE_GRE_def
  OVS_VPORT_TYPE_VXLAN_def OVS_VPORT_TYPE_GENEVE_def OVS_TUNNEL_ATTR_UNSPEC_def
  OVS_TUNNEL_ATTR_DST_PORT_def OVS_FLOW_CMD_UNSPEC_def OVS_FLOW_CMD_NEW_def OVS_FLOW_CMD_DEL_def
  OVS_FLOW_CMD_GET_def OVS_FLOW_CMD_SET_def OVS_FLOW_ATTR_UNSPEC_def OVS_FLOW_ATTR_KEY_def
  OVS_FLOW_ATTR_ACTIONS_def OVS_FLOW_ATTR_STATS_def OVS_FLOW_ATTR_TCP_FLAGS_def
  OVS_FLOW_ATTR_USED_def OVS_FLOW_ATTR_CLEAR_def OVS_FLOW_ATTR_MASK_def SizeofOvsFlowStats_def
  OVS_KEY_ATTR_UNSPEC_def OVS_KEY_ATTR_ENCAP_def OVS_KEY_ATTR_PRIORITY_def
  OVS_KEY_ATTR_IN_PORT_def OVS_KEY_ATTR_ETHERNET_def OVS_KEY_ATTR_VLAN_def
  OVS_KEY_ATTR_ETHERTYPE_def OVS_KEY_ATTR_IPV4_def OVS_KEY_ATTR_IPV6_def OVS_KEY_ATTR_TCP_def
  OVS_KEY_ATTR_UDP_def OVS_KEY_ATTR_ICMP_def OVS_KEY_ATTR_ICMPV6_def OVS_KEY_ATTR_ARP_def
  OVS_KEY_ATTR_ND_def OVS_KEY_ATTR_SKB_MARK_def OVS_KEY_ATTR_TUNNEL_def OVS_KEY_ATTR_SCTP_def
  OVS_KEY_ATTR_TCP_FLAGS_def OVS_KEY_ATTR_DP_HASH_def OVS_KEY_ATTR_RECIRC_ID_def
  OVS_TUNNEL_KEY_ATTR_ID_def OVS_TUNNEL_KEY_ATTR_IPV4_SRC_def OVS_TUNNEL_KEY_ATTR_IPV4_DST_def
  OVS_TUNNEL_KEY_ATTR_TOS_def OVS_TUNNEL_KEY_ATTR_TTL_def OVS_TUNNEL_KEY_ATTR_DONT_FRAGMENT_def
  OVS_TUNNEL_KEY_ATTR_CSUM_def OVS_TUNNEL_KEY_ATTR_OAM_def OVS_TUNNEL_KEY_ATTR_GENEVE_OPTS_def
  OVS_TUNNEL_KEY_ATTR_TP_SRC_def OVS_TUNNEL_KEY_ATTR_TP_DST_def
  OVS_TUNNEL_KEY_ATTR_VXLAN_OPTS_def OVS_TUNNEL_KEY_ATTR_IPV6_SRC_def
  OVS_TUNNEL_KEY_ATTR_IPV6_DST_def ETH_ALEN_def SizeofOvsKeyEthernet_def
  OVS_ACTION_ATTR_UNSPEC_def OVS_ACTION_ATTR_OUTPUT_def OVS_ACTION_ATTR_USERSPACE_def
  OVS_ACTION_ATTR_SET_def OVS_ACTION_ATTR_PUSH_VLAN_def OVS_ACTION_ATTR_POP_VLAN_def
  OVS_ACTION_ATTR_SAMPLE_def OVS_PACKET_CMD_UNSPEC_def OVS_PACKET_CMD_MISS_def
  OVS_PACKET_CMD_ACTION_def OVS_PACKET_CMD_EXECUTE_def OVS_PACKET_ATTR_UNSPEC_def
  OVS_PACKET_ATTR_PACKET_def OVS_PACKET_ATTR_KEY_def OVS_PACKET_ATTR_ACTIONS_def
  OVS_PACKET_ATTR_USERDATA_def

declare ovs_consts [simp]

end
