(* ===== verification/Netlink_Socket.thy ===== *)
theory Netlink_Socket
  imports Netlink_Parser Ovs_Constants
begin

text \<open>
  Model of the netlink socket of \<^verbatim>\<open>odp/netlink.go\<close>: opening and closing, \<^verbatim>\<open>send\<close>, \<^verbatim>\<open>recv\<close>, the
  receive loop, single and multi-part requests and the endless \<^verbatim>\<open>consume\<close> loop.

  The kernel is a parameter: the state \<open>sys\<close> holds, besides the program's own globals and
  heap of sockets, the answers the system calls are going to give, and the trace of the
  calls made.  Theorems hold for every choice of answers, or name the answers they need.

  The receive loop runs as long as datagrams arrive; \<open>fuel\<close> bounds the iterations it is
  followed for.  It is shown that a bound read off the pending datagrams is enough.
\<close>

section \<open>The system\<close>

record NetlinkSocket =
  sock_fd :: int
  sock_pid :: u32

datatype sockaddr = NetlinkAddr u32 | OtherAddr

datatype recv_answer = RecvErr u64 | Datagram bytes sockaddr

text \<open>The answers to the four calls of one \<^verbatim>\<open>OpenNetlinkSocket\<close>; \<open>Inl\<close> is an errno.\<close>

record open_answer =
  oa_socket :: "u64 + int"
  oa_setsockopt :: "u64 option"
  oa_bind :: "u64 option"
  oa_name :: "u64 + sockaddr"

datatype syscall =
    SysSocket int "u64 + int"
  | SysSetsockopt int int int
  | SysBind int
  | SysGetsockname int
  | SysSendto int bytes
  | SysRecvfrom int
  | SysIoctl int string
  | SysClose int

record sys =
  nextSeqNo :: u32
  triedLoad :: bool
  sockets :: "nat \<Rightarrow> NetlinkSocket"
  nsockets :: nat
  heaps :: "nat \<Rightarrow> nat \<Rightarrow> u64"
  fuel :: nat
  opens :: "open_answer list"
  dgrams :: "(u64 + int) list"
  sends :: "u64 option list"
  closes :: "u64 option list"
  joins :: "u64 option list"
  inbox :: "int \<Rightarrow> recv_answer list"
  trace :: "syscall list"

text \<open>An outcome with the state it leaves, and sequencing that stops at the first failure.\<close>

type_synonym ('a, 's) outcome = "'a res \<times> 's"

definition and_then ::
    "('a, 's) outcome \<Rightarrow> ('a \<Rightarrow> 's \<Rightarrow> ('b, 's) outcome) \<Rightarrow> ('b, 's) outcome" where
  "and_then r f = (case fst r of Ok x \<Rightarrow> f x (snd r) | Err e \<Rightarrow> (Err e, snd r)
     | Crash c \<Rightarrow> (Crash c, snd r) | Blocked b \<Rightarrow> (Blocked b, snd r))"

lemma and_then_simps [simp]:
  "and_then (Ok x, s) f = f x s" "and_then (Err e, s) f = (Err e, s)"
  "and_then (Crash c, s) f = (Crash c, s)" "and_then (Blocked b, s) f = (Blocked b, s)"
  by (simp_all add: and_then_def)

lemma and_then_cong [fundef_cong]:
  "r = r' \<Longrightarrow> (\<And>x s. r' = (Ok x, s) \<Longrightarrow> f x s = g x s) \<Longrightarrow> and_then r f = and_then r' g"
  by (cases r') (simp add: and_then_def split: res.split)

definition log :: "syscall \<Rightarrow> sys \<Rightarrow> sys" where
  "log c w = w\<lparr>trace := trace w @ [c]\<rparr>"

text \<open>The answer to a call that only succeeds or fails; success when no answer is listed.\<close>

fun answer :: "u64 option list \<Rightarrow> unit res" where
  "answer (Some e # as) = Err (Errno e)"
| "answer _ = Ok ()"

definition sys_close :: "int \<Rightarrow> sys \<Rightarrow> (unit, sys) outcome" where
  "sys_close fd w = (answer (closes w), log (SysClose fd) (w\<lparr>closes := tl (closes w)\<rparr>))"

section \<open>Opening and closing\<close>

definition NETLINK_GENERIC :: int where "NETLINK_GENERIC = 16"
definition NETLINK_NO_ENOBUFS :: int where "NETLINK_NO_ENOBUFS = 5"
definition NETLINK_ADD_MEMBERSHIP :: int where "NETLINK_ADD_MEMBERSHIP = 1"
definition RECV_BUF :: nat where "RECV_BUF = 65536"

text \<open>
  The deferred function closes the descriptor on every path on which the socket was created
  but not returned.
\<close>

definition OpenNetlinkSocket :: "int \<Rightarrow> sys \<Rightarrow> (nat, sys) outcome" where
  "OpenNetlinkSocket protocol w =
     (case opens w of
        [] \<Rightarrow> (Blocked Waiting, w)
      | a # as \<Rightarrow>
          (let w = log (SysSocket protocol (oa_socket a)) (w\<lparr>opens := as\<rparr>) in
           case oa_socket a of
             Inl e \<Rightarrow> (Err (Errno e), w)
           | Inr fd \<Rightarrow>
               (let w = log (SysSetsockopt fd NETLINK_NO_ENOBUFS 1) w;
                    fail = (\<lambda>e w. (Err e, snd (sys_close fd w)))
                in case oa_setsockopt a of
                     Some e \<Rightarrow> fail (Errno e) w
                   | None \<Rightarrow>
                (let w = log (SysBind fd) w
                 in case oa_bind a of
                      Some e \<Rightarrow> fail (Errno e) w
                    | None \<Rightarrow>
                 (let w = log (SysGetsockname fd) w
                  in case oa_name a of
                       Inl e \<Rightarrow> fail (Errno e) w
                     | Inr OtherAddr \<Rightarrow> fail ExpectedNetlinkSockaddr w
                     | Inr (NetlinkAddr pid) \<Rightarrow>
                         (Ok (nsockets w),
                          w\<lparr>sockets := (sockets w)(nsockets w := \<lparr>sock_fd = fd, sock_pid = pid\<rparr>),
                            nsockets := nsockets w + 1\<rparr>))))))"

definition PortId :: "nat \<Rightarrow> sys \<Rightarrow> u32" where
  "PortId s w = sock_pid (sockets w s)"

definition Close :: "nat \<Rightarrow> sys \<Rightarrow> (unit, sys) outcome" where
  "Close s w =
     (if sock_fd (sockets w s) < 0 then (Ok (), w)
      else (let (err, w) = sys_close (sock_fd (sockets w s)) w
            in (err, w\<lparr>sockets := (sockets w)(s := (sockets w s)\<lparr>sock_fd := -1\<rparr>)\<rparr>)))"

section \<open>Sending and receiving\<close>

definition send :: "nat \<Rightarrow> NlMsgBuilder \<Rightarrow> sys \<Rightarrow> (u32, sys) outcome" where
  "send s msg w =
     and_then (Finish msg (nextSeqNo w), w) (\<lambda>(dat, seq, n, _) w.
       (map_res (\<lambda>_. seq) (answer (sends w)),
        log (SysSendto (sock_fd (sockets w s)) dat)
          (w\<lparr>nextSeqNo := n, sends := tl (sends w)\<rparr>)))"

definition recv :: "nat \<Rightarrow> u32 \<Rightarrow> sys \<Rightarrow> (NlMsgParser, sys) outcome" where
  "recv s peer w =
     (let fd = sock_fd (sockets w s); w = log (SysRecvfrom fd) w in
      case inbox w fd of
        [] \<Rightarrow> (Blocked Waiting, w)
      | a # as \<Rightarrow>
          (let w = w\<lparr>inbox := (inbox w)(fd := as)\<rparr> in
           case a of
             RecvErr e \<Rightarrow> (Err (Errno e), w)
           | Datagram d from \<Rightarrow>
               (case from of
                  NetlinkAddr pid \<Rightarrow>
                    (if pid \<noteq> peer then Err (WrongPeerPid peer pid)
                     else Ok \<lparr>pdata = take RECV_BUF d, ppos = 0\<rparr>, w)
                | OtherAddr \<Rightarrow> (Err ExpectedNetlinkSockaddr, w))))"

text \<open>
  A consumer closure works on the variables it captures and on the system.  \<open>Ok done\<close> stands
  for the results \<^verbatim>\<open>(done, nil)\<close>; with an error the loop ends whatever \<^verbatim>\<open>done\<close> is.
\<close>

type_synonym 's consumer = "NlMsgParser \<Rightarrow> 's \<times> sys \<Rightarrow> (bool, 's \<times> sys) outcome"

text \<open>The inner loop: \<open>Ok True\<close> when \<^verbatim>\<open>Receive\<close> returns, \<open>Ok False\<close> when it asks for a datagram.\<close>

fun msgs_loop ::
    "nat \<Rightarrow> 's consumer \<Rightarrow> NlMsgParser \<Rightarrow> NlMsgParser \<Rightarrow> 's \<times> sys \<Rightarrow> (bool, 's \<times> sys) outcome" where
  "msgs_loop 0 c resp msg st = (Blocked OutOfFuel, st)"
| "msgs_loop (Suc n) c resp msg st =
     and_then (c msg st) (\<lambda>done st.
       if done then (Ok True, st)
       else and_then (nextNlMsg resp, st) (\<lambda>(next, resp) st.
         case next of None \<Rightarrow> (Ok False, st) | Some msg \<Rightarrow> msgs_loop n c resp msg st))"

fun receive_loop ::
    "nat \<Rightarrow> nat \<Rightarrow> nat \<Rightarrow> 's consumer \<Rightarrow> 's \<times> sys \<Rightarrow> (unit, 's \<times> sys) outcome" where
  "receive_loop s k 0 c st = (Blocked OutOfFuel, st)"
| "receive_loop s k (Suc n) c st =
     and_then (case recv s 0 (snd st) of (r, w) \<Rightarrow> (r, (fst st, w))) (\<lambda>resp st.
     and_then (nextNlMsg resp, st) (\<lambda>(next, resp) st.
       case next of
         None \<Rightarrow> (Err ResponseMissing, st)
       | Some msg \<Rightarrow>
           and_then (msgs_loop k c resp msg st) (\<lambda>done st.
             if done then (Ok (), st) else receive_loop s k n c st)))"

definition Receive :: "nat \<Rightarrow> 's consumer \<Rightarrow> 's \<times> sys \<Rightarrow> (unit, 's \<times> sys) outcome" where
  "Receive s c st = receive_loop s (fuel (snd st)) (fuel (snd st)) c st"

section \<open>Requests\<close>

definition request_consumer :: "u32 \<Rightarrow> u32 \<Rightarrow> NlMsgParser option consumer" where
  "request_consumer port seq msg st =
     and_then (checkResponseHeader port seq msg, st) (\<lambda>relevant st.
       (Ok True, if relevant then (Some msg, snd st) else st))"

text \<open>The response is \<open>None\<close> where the code returns a nil pointer and no error.\<close>

definition Request :: "nat \<Rightarrow> NlMsgBuilder \<Rightarrow> sys \<Rightarrow> (NlMsgParser option, sys) outcome" where
  "Request s req w =
     and_then (send s req w) (\<lambda>seq w.
       case Receive s (request_consumer (PortId s w) seq) (None, w) of
         (r, (resp, w)) \<Rightarrow> (map_res (\<lambda>_. resp) r, w))"

text \<open>A handler of one message: \<open>Ok ()\<close> is a nil error.\<close>

type_synonym 's handler = "NlMsgParser \<Rightarrow> 's \<times> sys \<Rightarrow> (unit, 's \<times> sys) outcome"

definition multi_consumer :: "u32 \<Rightarrow> u32 \<Rightarrow> 's handler \<Rightarrow> 's consumer" where
  "multi_consumer port seq h msg st =
     and_then (checkResponseHeader port seq msg, st) (\<lambda>relevant st.
       if \<not> relevant then (Ok False, st)
       else and_then (get_NlMsghdr msg, st) (\<lambda>hdr st.
         if Type hdr = NLMSG_DONE then (map_res (\<lambda>_. True) (processNlMsgDone msg), st)
         else and_then (h msg st) (\<lambda>_ st. (Ok False, st))))"

definition RequestMulti ::
    "nat \<Rightarrow> NlMsgBuilder \<Rightarrow> 's handler \<Rightarrow> 's \<times> sys \<Rightarrow> (unit, 's \<times> sys) outcome" where
  "RequestMulti s req h st =
     (case send s req (snd st) of (r, w) \<Rightarrow>
        and_then (r, (fst st, w)) (\<lambda>seq st.
          Receive s (multi_consumer (PortId s (snd st)) seq h) st))"

section \<open>The endless consumer\<close>

text \<open>\<^verbatim>\<open>consumer.Error(err, stopped)\<close> is a parameter acting on the captured state.\<close>

definition consume_consumer ::
    "(error \<Rightarrow> bool \<Rightarrow> 's \<Rightarrow> 's) \<Rightarrow> 's handler \<Rightarrow> 's consumer" where
  "consume_consumer on_error h msg st =
     (case and_then (checkHeader msg, st) (\<lambda>_ st. h msg st) of
        (Ok _, st) \<Rightarrow> (Ok False, st)
      | (Err e, (s, w)) \<Rightarrow> (Ok False, (on_error e False s, w))
      | (Crash x, st) \<Rightarrow> (Crash x, st)
      | (Blocked b, st) \<Rightarrow> (Blocked b, st))"

fun consume_loop ::
    "nat \<Rightarrow> nat \<Rightarrow> (error \<Rightarrow> bool \<Rightarrow> 's \<Rightarrow> 's) \<Rightarrow> 's handler \<Rightarrow> 's \<times> sys \<Rightarrow> (unit, 's \<times> sys) outcome" where
  "consume_loop 0 s on_error h st = (Blocked OutOfFuel, st)"
| "consume_loop (Suc n) s on_error h st =
     (case Receive s (consume_consumer on_error h) st of
        (Ok _, st) \<Rightarrow> consume_loop n s on_error h st
      | (Err e, (u, w)) \<Rightarrow> (Ok (), (on_error e True u, w))
      | (Crash x, st) \<Rightarrow> (Crash x, st)
      | (Blocked b, st) \<Rightarrow> (Blocked b, st))"

definition consume ::
    "nat \<Rightarrow> (error \<Rightarrow> bool \<Rightarrow> 's \<Rightarrow> 's) \<Rightarrow> 's handler \<Rightarrow> 's \<times> sys \<Rightarrow> (unit, 's \<times> sys) outcome" where
  "consume s on_error h st = consume_loop (fuel (snd st)) s on_error h st"

section \<open>Descriptors\<close>

text \<open>The descriptors the trace has opened and not closed.\<close>

definition track_fd :: "syscall \<Rightarrow> int list \<Rightarrow> int list" where
  "track_fd c fds = (case c of
       SysSocket p (Inr fd) \<Rightarrow> fd # fds
     | SysClose fd \<Rightarrow> remove1 fd fds
     | _ \<Rightarrow> fds)"

definition open_fds :: "sys \<Rightarrow> int list" where
  "open_fds w = fold track_fd (trace w) []"

lemma open_fds_log [simp]: "open_fds (log c w) = track_fd c (open_fds w)"
  by (simp add: open_fds_def log_def)

lemma open_fds_cong: "trace v = trace w \<Longrightarrow> open_fds v = open_fds w"
  by (simp add: open_fds_def)

lemma open_fds_upd [simp]:
  "open_fds (w\<lparr>opens := a\<rparr>) = open_fds w" "open_fds (w\<lparr>closes := b\<rparr>) = open_fds w"
  "open_fds (w\<lparr>sockets := f\<rparr>) = open_fds w" "open_fds (w\<lparr>nsockets := n\<rparr>) = open_fds w"
  "open_fds (w\<lparr>sends := b\<rparr>) = open_fds w" "open_fds (w\<lparr>nextSeqNo := q\<rparr>) = open_fds w"
  "open_fds (w\<lparr>inbox := i\<rparr>) = open_fds w" "open_fds (w\<lparr>joins := b\<rparr>) = open_fds w"
  "open_fds (w\<lparr>heaps := g\<rparr>) = open_fds w" "open_fds (w\<lparr>triedLoad := t\<rparr>) = open_fds w"
  "open_fds (w\<lparr>dgrams := d\<rparr>) = open_fds w"
  by (simp_all add: open_fds_def)

lemma log_sel [simp]:
  "opens (log c w) = opens w" "closes (log c w) = closes w" "sockets (log c w) = sockets w"
  "nsockets (log c w) = nsockets w" "inbox (log c w) = inbox w" "sends (log c w) = sends w"
  "fuel (log c w) = fuel w" "nextSeqNo (log c w) = nextSeqNo w" "heaps (log c w) = heaps w"
  "joins (log c w) = joins w" "triedLoad (log c w) = triedLoad w" "dgrams (log c w) = dgrams w"
  by (simp_all add: log_def)

lemma track_fd_simps [simp]:
  "track_fd (SysSocket p (Inr fd)) fds = fd # fds" "track_fd (SysSocket p (Inl e)) fds = fds"
  "track_fd (SysClose fd) fds = remove1 fd fds" "track_fd (SysSetsockopt fd a b) fds = fds"
  "track_fd (SysBind fd) fds = fds" "track_fd (SysGetsockname fd) fds = fds"
  "track_fd (SysSendto fd d) fds = fds" "track_fd (SysRecvfrom fd) fds = fds"
  "track_fd (SysIoctl fd name) fds = fds"
  by (simp_all add: track_fd_def)

lemma OpenNetlinkSocket_Ok:
  assumes "OpenNetlinkSocket protocol w = (Ok s, w')"
  obtains fd pid where "s = nsockets w" "nsockets w' = nsockets w + 1"
    "sockets w' = (sockets w)(s := \<lparr>sock_fd = fd, sock_pid = pid\<rparr>)" "open_fds w' = fd # open_fds w"
    "inbox w' = inbox w" "fuel w' = fuel w" "nextSeqNo w' = nextSeqNo w" "sends w' = sends w"
  using assms
  by (auto simp: OpenNetlinkSocket_def Let_def split: list.splits sum.splits option.splits sockaddr.splits)

lemma OpenNetlinkSocket_Err:
  assumes "OpenNetlinkSocket protocol w = (Err e, w')"
  shows "open_fds w' = open_fds w \<and> sockets w' = sockets w \<and> nsockets w' = nsockets w"
  using assms
  by (auto simp: OpenNetlinkSocket_def Let_def sys_close_def
      split: list.splits sum.splits option.splits sockaddr.splits)

lemma OpenNetlinkSocket_no_crash: "no_crash (fst (OpenNetlinkSocket protocol w))"
  by (auto simp: OpenNetlinkSocket_def Let_def sys_close_def
      split: list.splits sum.splits option.splits sockaddr.splits)

lemma Close_open_fds:
  "0 \<le> sock_fd (sockets w s) \<Longrightarrow> open_fds (snd (Close s w)) = remove1 (sock_fd (sockets w s)) (open_fds w)"
  "sock_fd (sockets w s) < 0 \<Longrightarrow> Close s w = (Ok (), w)"
  "sock_fd (sockets (snd (Close s w)) s) < 0"
  by (simp_all add: Close_def sys_close_def)

section \<open>Messages on the wire\<close>

lemma nlMsghdrAt_msg:
  assumes "dat = pre @ nlmsg_bytes t fl seq pid body @ post"
  shows "nlMsghdrAt dat (length pre) =
    Ok \<lparr>Len = of_nat (16 + length body), Type = t, Flags = fl, Seq = seq, Pid = pid\<rparr>"
proof -
  let ?h = "enc_word 4 (of_nat (16 + length body) :: u32) @ enc_word 2 t @ enc_word 2 fl @
    enc_word 4 seq @ enc_word 4 pid"
  have "read_at dat (length pre + 0) 16 = ?h"
    using assms by (simp add: read_at_def nlmsg_bytes_def)
  moreover have "length pre < length dat" "length pre + 0 + 16 \<le> length dat"
    using assms by simp_all
  ultimately have "peek dat (length pre) 0 16 = Ok ?h" by (simp add: peek_Ok)
  then show ?thesis by (simp add: nlMsghdrAt_def read_at_def)
qed

lemma get_NlMsghdr_msg [simp]:
  "get_NlMsghdr \<lparr>pdata = pre @ nlmsg_bytes t fl seq pid body, ppos = length pre\<rparr> =
    Ok \<lparr>Len = of_nat (16 + length body), Type = t, Flags = fl, Seq = seq, Pid = pid\<rparr>"
  using nlMsghdrAt_msg [of _ pre t fl seq pid body "[]"] by (simp add: get_NlMsghdr_def)

lemma nextNlMsg_msg:
  assumes "dat = pre @ nlmsg_bytes t fl seq pid body @ post" "16 + length body < 2 ^ 32"
  shows "nextNlMsg \<lparr>pdata = dat, ppos = length pre\<rparr> =
    Ok (Some \<lparr>pdata = pre @ nlmsg_bytes t fl seq pid body, ppos = length pre\<rparr>,
        \<lparr>pdata = dat, ppos = align (length pre + 16 + length body) 4\<rparr>)"
proof -
  have len: "unat (of_nat (16 + length body) :: u32) = 16 + length body"
    using assms(2) by (simp only: unat_of_nat) simp
  have hdr: "get_NlMsghdr \<lparr>pdata = dat, ppos = length pre\<rparr> =
      Ok \<lparr>Len = of_nat (16 + length body), Type = t, Flags = fl, Seq = seq, Pid = pid\<rparr>"
    using nlMsghdrAt_msg [OF assms(1)] by (simp add: get_NlMsghdr_def)
  have "take (length pre + (16 + length body)) dat = pre @ nlmsg_bytes t fl seq pid body"
    using assms(1) by simp
  moreover have "uint (of_nat (16 + length body) :: u32) = int (16 + length body)"
    by (simp only: uint_nat len)
  moreover have "length dat = length pre + (16 + length body) + length post" using assms(1) by simp
  ultimately show ?thesis
    using hdr len by (simp add: nextNlMsg_def Let_def add.assoc del: of_nat_add)
qed

lemma nextNlMsg_end: "length dat \<le> pos \<Longrightarrow>
    nextNlMsg \<lparr>pdata = dat, ppos = pos\<rparr> = Ok (None, \<lparr>pdata = dat, ppos = pos\<rparr>)"
  by (simp add: nextNlMsg_def Let_def)

lemma checkHeader_msg:
  "t \<noteq> NLMSG_ERROR \<Longrightarrow>
     checkHeader \<lparr>pdata = pre @ nlmsg_bytes t fl seq pid body, ppos = length pre\<rparr> = Ok ()"
  by (simp add: checkHeader_def)

lemma checkResponseHeader_msg:
  "checkResponseHeader port q \<lparr>pdata = pre @ nlmsg_bytes t fl seq pid body, ppos = length pre\<rparr> =
     (if pid \<noteq> port then Err (PortIdMismatch pid port)
      else if seq \<noteq> q then Ok False
      else res_bind (checkHeader \<lparr>pdata = pre @ nlmsg_bytes t fl seq pid body, ppos = length pre\<rparr>)
             (\<lambda>_. Ok True))"
  by (simp add: checkResponseHeader_def)

section \<open>Single requests\<close>

text \<open>The state after a message was handed to the kernel, and after a datagram was taken.\<close>

definition sent_state :: "nat \<Rightarrow> u16 \<Rightarrow> u16 \<Rightarrow> bytes \<Rightarrow> sys \<Rightarrow> sys" where
  "sent_state s t fl body w =
     log (SysSendto (sock_fd (sockets w s)) (nlmsg_bytes t fl (nextSeqNo w + 1) 0 body))
       (w\<lparr>nextSeqNo := nextSeqNo w + 1, sends := tl (sends w)\<rparr>)"

definition recvd_state :: "nat \<Rightarrow> sys \<Rightarrow> sys" where
  "recvd_state s w = (let fd = sock_fd (sockets w s); w = log (SysRecvfrom fd) w
     in w\<lparr>inbox := (inbox w)(fd := tl (inbox w fd))\<rparr>)"

definition inbox_of :: "nat \<Rightarrow> sys \<Rightarrow> recv_answer list" where
  "inbox_of s w = inbox w (sock_fd (sockets w s))"

lemma send_spec:
  assumes "builder_ok m" "mbytes m = draft_bytes t fl body"
  shows "send s m w = (map_res (\<lambda>_. nextSeqNo w + 1) (answer (sends w)), sent_state s t fl body w)"
proof -
  obtain m' where "Finish m (nextSeqNo w) =
      Ok (nlmsg_bytes t fl (nextSeqNo w + 1) 0 body, nextSeqNo w + 1, nextSeqNo w + 1, m')"
    by (rule Finish_spec [OF assms])
  then show ?thesis by (simp add: send_def sent_state_def)
qed

lemma sent_state_sel [simp]:
  "sockets (sent_state s t fl body w) = sockets w" "inbox (sent_state s t fl body w) = inbox w"
  "fuel (sent_state s t fl body w) = fuel w" "PortId i (sent_state s t fl body w) = PortId i w"
  "nextSeqNo (sent_state s t fl body w) = nextSeqNo w + 1"
  "inbox_of i (sent_state s t fl body w) = inbox_of i w"
  "open_fds (sent_state s t fl body w) = open_fds w"
  "heaps (sent_state s t fl body w) = heaps w" "triedLoad (sent_state s t fl body w) = triedLoad w"
  "sends (sent_state s t fl body w) = tl (sends w)"
  by (simp_all add: sent_state_def PortId_def inbox_of_def)

lemma recvd_state_sel [simp]:
  "sockets (recvd_state s w) = sockets w" "fuel (recvd_state s w) = fuel w"
  "nextSeqNo (recvd_state s w) = nextSeqNo w" "PortId i (recvd_state s w) = PortId i w"
  "inbox_of s (recvd_state s w) = tl (inbox_of s w)" "heaps (recvd_state s w) = heaps w"
  "triedLoad (recvd_state s w) = triedLoad w" "sends (recvd_state s w) = sends w"
  "open_fds (recvd_state s w) = open_fds w"
  by (simp_all add: recvd_state_def PortId_def inbox_of_def Let_def)

lemma recv_datagram:
  assumes "inbox_of s w = Datagram d (NetlinkAddr 0) # as" "length d \<le> RECV_BUF"
  shows "recv s 0 w = (Ok \<lparr>pdata = d, ppos = 0\<rparr>, recvd_state s w)"
  using assms by (simp add: recv_def inbox_of_def recvd_state_def Let_def)

lemma Request_first:
  assumes m: "builder_ok m" "mbytes m = draft_bytes t fl body" and ok: "answer (sends w) = Ok ()"
    and d: "inbox_of s w = Datagram d (NetlinkAddr 0) # as" "length d \<le> RECV_BUF"
    and msg: "nextNlMsg \<lparr>pdata = d, ppos = 0\<rparr> = Ok (Some msg, resp)" and fuel: "fuel w > 0"
  shows "Request s m w =
    (map_res (\<lambda>relevant. if relevant then Some msg else None)
       (checkResponseHeader (PortId s w) (nextSeqNo w + 1) msg),
     recvd_state s (sent_state s t fl body w))"
proof -
  let ?w = "sent_state s t fl body w"
  let ?c = "request_consumer (PortId s w) (nextSeqNo w + 1)"
  obtain n where n: "fuel w = Suc n" using fuel by (cases "fuel w") auto
  have recv: "recv s 0 ?w = (Ok \<lparr>pdata = d, ppos = 0\<rparr>, recvd_state s ?w)"
    using d by (intro recv_datagram) simp_all
  have "msgs_loop (Suc n) ?c resp msg (None, recvd_state s ?w) =
      (let r = checkResponseHeader (PortId s w) (nextSeqNo w + 1) msg
       in (map_res (\<lambda>_. True) r, (if r = Ok True then Some msg else None, recvd_state s ?w)))"
    by (cases "checkResponseHeader (PortId s w) (nextSeqNo w + 1) msg")
      (simp_all add: request_consumer_def)
  then have "Receive s ?c (None, ?w) =
      (let r = checkResponseHeader (PortId s w) (nextSeqNo w + 1) msg
       in (map_res (\<lambda>_. ()) r, (if r = Ok True then Some msg else None, recvd_state s ?w)))"
    using n recv msg
    by (cases "checkResponseHeader (PortId s w) (nextSeqNo w + 1) msg") (simp_all add: Receive_def)
  then show ?thesis
    using send_spec [OF m, of s w] ok
    by (cases "checkResponseHeader (PortId s w) (nextSeqNo w + 1) msg") (simp_all add: Request_def)
qed

text \<open>
  The datagram starts with a message that answers the request: it carries the socket's port
  and the sequence number of the request.
\<close>

definition answers ::
    "nat \<Rightarrow> sys \<Rightarrow> u16 \<Rightarrow> u16 \<Rightarrow> u32 \<Rightarrow> bytes \<Rightarrow> bool" where
  "answers s w t fl seq body \<longleftrightarrow>
     (\<exists>post as. inbox_of s w = Datagram (nlmsg_bytes t fl seq (PortId s w) body @ post) (NetlinkAddr 0) # as \<and>
        16 + length body + length post \<le> RECV_BUF)"

lemma answers_first:
  assumes "answers s w t fl seq body"
  obtains d as resp where "inbox_of s w = Datagram d (NetlinkAddr 0) # as" "length d \<le> RECV_BUF"
    "nextNlMsg \<lparr>pdata = d, ppos = 0\<rparr> =
       Ok (Some \<lparr>pdata = nlmsg_bytes t fl seq (PortId s w) body, ppos = 0\<rparr>, resp)"
proof -
  obtain post as where
    d: "inbox_of s w = Datagram (nlmsg_bytes t fl seq (PortId s w) body @ post) (NetlinkAddr 0) # as"
    and len: "16 + length body + length post \<le> RECV_BUF"
    using assms by (auto simp: answers_def)
  let ?d = "nlmsg_bytes t fl seq (PortId s w) body @ post"
  have "16 + length body < 2 ^ 32" using len by (simp add: RECV_BUF_def)
  then show thesis
    using d len nextNlMsg_msg [of ?d "[]" t fl seq "PortId s w" body post] by (intro that [of ?d as]) simp_all
qed

lemma checkHeader_error:
  "checkHeader \<lparr>pdata = pre @ nlmsg_bytes NLMSG_ERROR fl seq pid (enc_word 4 (e :: i32) @ rest), ppos = length pre\<rparr> =
     (if e \<noteq> 0 then Err (netlink_error e) else Ok ())"
proof -
  let ?d = "pre @ nlmsg_bytes NLMSG_ERROR fl seq pid (enc_word 4 e @ rest)"
  have "read_at ?d (length pre + 16 + 0) 4 = enc_word 4 e"
    by (simp add: read_at_def nlmsg_bytes_def)
  then have "nlMsgerrAt ?d (length pre + 16) = Ok e"
    by (simp add: nlMsgerrAt_def peek_Ok)
  then show ?thesis by (simp add: checkHeader_def)
qed

lemma Request_reply:
  assumes "builder_ok m" "mbytes m = draft_bytes t fl body" "answer (sends w) = Ok ()"
    "answers s w u fu (nextSeqNo w + 1) rbody" "u \<noteq> NLMSG_ERROR" "fuel w > 0"
  shows "Request s m w =
    (Ok (Some \<lparr>pdata = nlmsg_bytes u fu (nextSeqNo w + 1) (PortId s w) rbody, ppos = 0\<rparr>),
     recvd_state s (sent_state s t fl body w))"
proof (rule answers_first [OF assms(4)])
  fix d as resp
  let ?msg = "\<lparr>pdata = nlmsg_bytes u fu (nextSeqNo w + 1) (PortId s w) rbody, ppos = 0\<rparr>"
  assume "inbox_of s w = Datagram d (NetlinkAddr 0) # as" "length d \<le> RECV_BUF"
    "nextNlMsg \<lparr>pdata = d, ppos = 0\<rparr> = Ok (Some ?msg, resp)"
  from Request_first [OF assms(1,2,3) this assms(6)] show ?thesis
    using checkResponseHeader_msg [of "PortId s w" "nextSeqNo w + 1" "[]" u] checkHeader_msg [of u "[]"] assms(5)
    by simp
qed

lemma Request_error:
  assumes "builder_ok m" "mbytes m = draft_bytes t fl body" "answer (sends w) = Ok ()"
    "answers s w NLMSG_ERROR fu (nextSeqNo w + 1) (enc_word 4 (e :: i32) @ rest)" "e \<noteq> 0" "fuel w > 0"
  shows "Request s m w = (Err (netlink_error e), recvd_state s (sent_state s t fl body w))"
proof (rule answers_first [OF assms(4)])
  fix d as resp
  let ?msg = "\<lparr>pdata = nlmsg_bytes NLMSG_ERROR fu (nextSeqNo w + 1) (PortId s w) (enc_word 4 e @ rest), ppos = 0\<rparr>"
  assume "inbox_of s w = Datagram d (NetlinkAddr 0) # as" "length d \<le> RECV_BUF"
    "nextNlMsg \<lparr>pdata = d, ppos = 0\<rparr> = Ok (Some ?msg, resp)"
  from Request_first [OF assms(1,2,3) this assms(6)] show ?thesis
    using checkResponseHeader_msg [of "PortId s w" "nextSeqNo w + 1" "[]" NLMSG_ERROR]
      checkHeader_error [of "[]" fu "nextSeqNo w + 1" "PortId s w" e rest] assms(5)
    by simp
qed

lemma Request_stale:
  assumes "builder_ok m" "mbytes m = draft_bytes t fl body" "answer (sends w) = Ok ()"
    "answers s w u fu q rbody" "q \<noteq> nextSeqNo w + 1" "fuel w > 0"
  shows "Request s m w = (Ok None, recvd_state s (sent_state s t fl body w))"
proof (rule answers_first [OF assms(4)])
  fix d as resp
  let ?msg = "\<lparr>pdata = nlmsg_bytes u fu q (PortId s w) rbody, ppos = 0\<rparr>"
  assume "inbox_of s w = Datagram d (NetlinkAddr 0) # as" "length d \<le> RECV_BUF"
    "nextNlMsg \<lparr>pdata = d, ppos = 0\<rparr> = Ok (Some ?msg, resp)"
  from Request_first [OF assms(1,2,3) this assms(6)] show ?thesis
    using checkResponseHeader_msg [of "PortId s w" "nextSeqNo w + 1" "[]" u] assms(5) by simp
qed

lemma Request_send_fails:
  assumes "builder_ok m" "mbytes m = draft_bytes t fl body" "answer (sends w) = Err e"
  shows "Request s m w = (Err e, sent_state s t fl body w)"
  using send_spec [OF assms(1,2), of s w] assms(3) by (simp add: Request_def)

section \<open>Multi-part requests\<close>

text \<open>
  A dump as the kernel sends it: datagrams of padded messages, all with the port and the
  sequence number of the request, up to a message of type \<open>NLMSG_DONE\<close> with code zero.
\<close>

type_synonym wmsg = "u16 \<times> u16 \<times> bytes"

fun wire :: "u32 \<Rightarrow> u32 \<Rightarrow> wmsg \<Rightarrow> bytes" where
  "wire seq pid (t, fl, body) = nlmsg_bytes t fl seq pid body"

definition dgram :: "u32 \<Rightarrow> u32 \<Rightarrow> wmsg list \<Rightarrow> bytes" where
  "dgram seq pid ms = concat (map (\<lambda>m. pad4 (wire seq pid m)) ms)"

definition is_done :: "wmsg \<Rightarrow> bool" where
  "is_done m \<longleftrightarrow> fst m = NLMSG_DONE"

fun done_ok :: "wmsg \<Rightarrow> bool" where
  "done_ok (t, fl, body) \<longleftrightarrow> t = NLMSG_DONE \<and> (\<exists>rest. body = enc_word 4 (0 :: i32) @ rest)"

lemma dgram_Cons [simp]: "dgram seq pid (m # ms) = pad4 (wire seq pid m) @ dgram seq pid ms"
  by (simp add: dgram_def)

lemma dgram_Nil [simp]: "dgram seq pid [] = []"
  by (simp add: dgram_def)

lemma wire_msg: "wire seq pid m = nlmsg_bytes (fst m) (fst (snd m)) seq pid (snd (snd m))"
  by (cases m) simp

lemma pad4_length_wire: "length (pad4 (wire seq pid m)) = align (16 + length (snd (snd m))) 4"
  by (simp add: wire_msg)

lemma nextNlMsg_dgram:
  assumes "4 dvd length pre" "length (pre @ dgram seq pid (m # ms)) < 2 ^ 32"
  shows "nextNlMsg \<lparr>pdata = pre @ dgram seq pid (m # ms), ppos = length pre\<rparr> =
    Ok (Some \<lparr>pdata = pre @ wire seq pid m, ppos = length pre\<rparr>,
        \<lparr>pdata = (pre @ pad4 (wire seq pid m)) @ dgram seq pid ms,
         ppos = length (pre @ pad4 (wire seq pid m))\<rparr>)"
proof -
  obtain z where z: "pad4 (wire seq pid m) = wire seq pid m @ z" by (simp add: pad4_def)
  have "length (wire seq pid m) \<le> length (pre @ dgram seq pid (m # ms))" by (simp add: z)
  then have "16 + length (snd (snd m)) < 2 ^ 32" using assms(2) unfolding wire_msg by simp
  then have "nextNlMsg \<lparr>pdata = pre @ dgram seq pid (m # ms), ppos = length pre\<rparr> =
    Ok (Some \<lparr>pdata = pre @ wire seq pid m, ppos = length pre\<rparr>,
        \<lparr>pdata = pre @ dgram seq pid (m # ms), ppos = align (length pre + 16 + length (snd (snd m))) 4\<rparr>)"
    unfolding wire_msg
    by (intro nextNlMsg_msg [where post = "z @ dgram seq pid ms"]) (simp_all add: z [unfolded wire_msg] wire_msg)
  moreover have "align (length pre + 16 + length (snd (snd m))) 4 = length (pre @ pad4 (wire seq pid m))"
    unfolding length_append pad4_length_wire add.assoc using assms(1) by (rule align4_add)
  ultimately show ?thesis by simp
qed

lemma processNlMsgDone_ok:
  assumes "done_ok m"
  shows "processNlMsgDone \<lparr>pdata = pre @ wire seq pid m, ppos = length pre\<rparr> = Ok ()"
proof -
  obtain fl rest where m: "m = (NLMSG_DONE, fl, enc_word 4 (0 :: i32) @ rest)"
    using assms by (cases m) auto
  let ?d = "pre @ wire seq pid m"
  have "read_at ?d (length pre + 16 + 0) 4 = enc_word 4 (0 :: i32)"
    by (simp add: m read_at_def nlmsg_bytes_def)
  then have "int32At ?d (length pre + 16) = Ok 0"
    by (simp add: int32At_def peek_Ok m)
  then show ?thesis
    by (simp add: processNlMsgDone_def Advance_def CheckAvailable_def checkData_def m)
qed

text \<open>A list of datagrams that ends the dump: only the last one holds the final message.\<close>

definition dump_of :: "(wmsg \<Rightarrow> bool) \<Rightarrow> u32 \<Rightarrow> u32 \<Rightarrow> wmsg list list \<Rightarrow> bool" where
  "dump_of good seq pid ds \<longleftrightarrow> ds \<noteq> [] \<and> list_ex is_done (last ds) \<and>
     (\<forall>d \<in> set ds. d \<noteq> [] \<and> length (dgram seq pid d) \<le> RECV_BUF \<and>
        (\<forall>m \<in> set d. good m \<or> done_ok m)) \<and>
     (\<forall>d \<in> set (butlast ds). \<not> list_ex is_done d)"

definition dump_items :: "wmsg list list \<Rightarrow> wmsg list" where
  "dump_items ds = takeWhile (\<lambda>m. \<not> is_done m) (concat ds)"

lemma dump_items_Cons:
  "\<not> list_ex is_done d \<Longrightarrow> dump_items (d # ds) = d @ dump_items ds"
  by (induction d) (simp_all add: dump_items_def)

text \<open>The contract of a handler that consumes the messages of a dump.\<close>

locale dump_handler =
  fixes h :: "'s handler" and f :: "wmsg \<Rightarrow> 's \<Rightarrow> 's" and good :: "wmsg \<Rightarrow> bool"
    and seq :: u32 and pid :: u32
  assumes handles: "good m \<Longrightarrow> 4 dvd length pre \<Longrightarrow>
      h \<lparr>pdata = pre @ wire seq pid m, ppos = length pre\<rparr> (s, w) = (Ok (), (f m s, w))"
    and good_type: "good m \<Longrightarrow> fst m \<noteq> NLMSG_ERROR \<and> fst m \<noteq> NLMSG_DONE"
begin

lemma consumer_good:
  assumes "good m" "4 dvd length pre"
  shows "multi_consumer pid seq h \<lparr>pdata = pre @ wire seq pid m, ppos = length pre\<rparr> (s, w) =
    (Ok False, (f m s, w))"
  using assms good_type [OF assms(1)] handles [OF assms]
  by (simp add: multi_consumer_def wire_msg checkResponseHeader_msg checkHeader_msg)

lemma consumer_done:
  assumes "done_ok m"
  shows "multi_consumer pid seq h \<lparr>pdata = pre @ wire seq pid m, ppos = length pre\<rparr> st = (Ok True, st)"
proof -
  have "fst m = NLMSG_DONE" using assms by (cases m) simp
  then show ?thesis using processNlMsgDone_ok [OF assms, of pre seq pid]
    by (simp add: multi_consumer_def wire_msg checkResponseHeader_msg checkHeader_msg
        NLMSG_DONE_def NLMSG_ERROR_def)
qed

lemma msgs_loop_dump:
  assumes "\<forall>m' \<in> set (m # ms). good m' \<or> done_ok m'" "4 dvd length pre"
    "length (pre @ dgram seq pid (m # ms)) < 2 ^ 32" "length ms < n"
  shows "msgs_loop n (multi_consumer pid seq h)
      \<lparr>pdata = (pre @ pad4 (wire seq pid m)) @ dgram seq pid ms,
       ppos = length (pre @ pad4 (wire seq pid m))\<rparr>
      \<lparr>pdata = pre @ wire seq pid m, ppos = length pre\<rparr> (s, w) =
    (Ok (list_ex is_done (m # ms)), (fold f (takeWhile (\<lambda>m. \<not> is_done m) (m # ms)) s, w))"
  using assms
proof (induction ms arbitrary: m pre n s)
  case Nil
  obtain n' where n: "n = Suc n'" using Nil.prems(4) by (cases n) auto
  show ?case
  proof (cases "done_ok m")
    case True
    then have "is_done m" by (cases m) (simp add: is_done_def)
    with True show ?thesis by (simp add: n consumer_done)
  next
    case False
    with Nil.prems have "good m" by simp
    moreover have "\<not> is_done m" using good_type [OF \<open>good m\<close>] by (simp add: is_done_def)
    ultimately show ?thesis using Nil.prems(2) by (simp add: n consumer_good nextNlMsg_end)
  qed
next
  case (Cons m' ms)
  obtain n' where n: "n = Suc n'" using Cons.prems(4) by (cases n) auto
  show ?case
  proof (cases "done_ok m")
    case True
    then have "is_done m" by (cases m) (simp add: is_done_def)
    with True show ?thesis by (simp add: n consumer_done)
  next
    case False
    with Cons.prems have good: "good m" by simp
    have nd: "\<not> is_done m" using good_type [OF good] by (simp add: is_done_def)
    let ?pre = "pre @ pad4 (wire seq pid m)"
    have pre: "4 dvd length ?pre" using Cons.prems(2) by simp
    have len: "length (?pre @ dgram seq pid (m' # ms)) < 2 ^ 32" using Cons.prems(3) by simp
    have "msgs_loop n (multi_consumer pid seq h)
        \<lparr>pdata = ?pre @ dgram seq pid (m' # ms), ppos = length ?pre\<rparr>
        \<lparr>pdata = pre @ wire seq pid m, ppos = length pre\<rparr> (s, w) =
      msgs_loop n' (multi_consumer pid seq h)
        \<lparr>pdata = (?pre @ pad4 (wire seq pid m')) @ dgram seq pid ms,
         ppos = length (?pre @ pad4 (wire seq pid m'))\<rparr>
        \<lparr>pdata = ?pre @ wire seq pid m', ppos = length ?pre\<rparr> (f m s, w)"
      unfolding n msgs_loop.simps consumer_good [OF good Cons.prems(2)] and_then_simps
        nextNlMsg_dgram [OF pre len] by simp
    also have "\<dots> = (Ok (list_ex is_done (m' # ms)),
        (fold f (takeWhile (\<lambda>m. \<not> is_done m) (m' # ms)) (f m s), w))"
      using Cons.prems n by (intro Cons.IH pre len) simp_all
    finally show ?thesis using nd by simp
  qed
qed

lemma receive_step:
  assumes "inbox_of s w = Datagram (dgram seq pid d) (NetlinkAddr 0) # as"
    "d \<noteq> []" "length (dgram seq pid d) \<le> RECV_BUF" "\<forall>m \<in> set d. good m \<or> done_ok m" "length d \<le> k"
  shows "receive_loop s k (Suc n) (multi_consumer pid seq h) (u, w) =
    (let st = (fold f (takeWhile (\<lambda>m. \<not> is_done m) d) u, recvd_state s w)
     in if list_ex is_done d then (Ok (), st)
        else receive_loop s k n (multi_consumer pid seq h) st)"
proof -
  obtain m ms where d: "d = m # ms" using assms(2) by (cases d) auto
  have "length ([] @ dgram seq pid (m # ms)) < 2 ^ 32"
    using assms(3) by (simp add: d RECV_BUF_def)
  then have nx: "nextNlMsg \<lparr>pdata = dgram seq pid d, ppos = 0\<rparr> =
      Ok (Some \<lparr>pdata = wire seq pid m, ppos = 0\<rparr>,
        \<lparr>pdata = pad4 (wire seq pid m) @ dgram seq pid ms, ppos = length (pad4 (wire seq pid m))\<rparr>)"
    and loop: "msgs_loop k (multi_consumer pid seq h)
        \<lparr>pdata = pad4 (wire seq pid m) @ dgram seq pid ms, ppos = length (pad4 (wire seq pid m))\<rparr>
        \<lparr>pdata = wire seq pid m, ppos = 0\<rparr> (u, recvd_state s w) =
      (Ok (list_ex is_done d), (fold f (takeWhile (\<lambda>m. \<not> is_done m) d) u, recvd_state s w))"
    using nextNlMsg_dgram [of "[]" seq pid m ms] msgs_loop_dump [of m ms "[]" k u "recvd_state s w"]
      assms(4,5) d by simp_all
  show ?thesis
    unfolding receive_loop.simps using recv_datagram [OF assms(1,3)] nx loop
    by (simp add: Let_def)
qed

lemma receive_dump:
  assumes "dump_of good seq pid ds" "inbox_of s w = map (\<lambda>d. Datagram (dgram seq pid d) (NetlinkAddr 0)) ds @ as"
    "\<forall>d \<in> set ds. length d \<le> k" "length ds \<le> n"
  shows "receive_loop s k n (multi_consumer pid seq h) (u, w) =
    (Ok (), (fold f (dump_items ds) u, (recvd_state s ^^ length ds) w))"
  using assms
proof (induction ds arbitrary: u w n)
  case Nil
  then show ?case by (simp add: dump_of_def)
next
  case (Cons d ds)
  obtain n' where n: "n = Suc n'" using Cons.prems(4) by (cases n) auto
  have d: "inbox_of s w = Datagram (dgram seq pid d) (NetlinkAddr 0) #
      (map (\<lambda>d. Datagram (dgram seq pid d) (NetlinkAddr 0)) ds @ as)"
    "d \<noteq> []" "length (dgram seq pid d) \<le> RECV_BUF" "\<forall>m \<in> set d. good m \<or> done_ok m" "length d \<le> k"
    using Cons.prems by (simp_all add: dump_of_def)
  note step = receive_step [OF d, of n' u]
  show ?case
  proof (cases "ds = []")
    case True
    then have "list_ex is_done d" using Cons.prems(1) by (simp add: dump_of_def)
    then show ?thesis using step n True by (simp add: Let_def dump_items_def)
  next
    case False
    then have nd: "\<not> list_ex is_done d" and ds: "dump_of good seq pid ds"
      using Cons.prems(1) by (auto simp: dump_of_def)
    have all: "takeWhile (\<lambda>m. \<not> is_done m) d = d"
      using nd by (simp add: takeWhile_eq_all_conv list_ex_iff)
    have "receive_loop s k n (multi_consumer pid seq h) (u, w) =
        receive_loop s k n' (multi_consumer pid seq h) (fold f d u, recvd_state s w)"
      using step nd n unfolding all by (simp add: Let_def)
    also have "\<dots> = (Ok (), (fold f (dump_items ds) (fold f d u),
        (recvd_state s ^^ length ds) (recvd_state s w)))"
      using Cons.prems(2-4) n by (intro Cons.IH ds) simp_all
    finally show ?thesis using nd by (simp add: dump_items_Cons funpow_swap1)
  qed
qed

lemma RequestMulti_dump:
  assumes "builder_ok m" "mbytes m = draft_bytes t fl body" "answer (sends w) = Ok ()"
    "seq = nextSeqNo w + 1" "pid = PortId s w" "dump_of good seq pid ds"
    "inbox_of s w = map (\<lambda>d. Datagram (dgram seq pid d) (NetlinkAddr 0)) ds @ as"
    "\<forall>d \<in> set ds. length d \<le> fuel w" "length ds \<le> fuel w"
  shows "RequestMulti s m h (u, w) =
    (Ok (), (fold f (dump_items ds) u, (recvd_state s ^^ length ds) (sent_state s t fl body w)))"
  using receive_dump [OF assms(6), of s "sent_state s t fl body w" as "fuel w" "fuel w" u]
    send_spec [OF assms(1,2), of s w] assms(3-5,7-)
  by (simp add: RequestMulti_def Receive_def)

end

section \<open>The loops end\<close>

text \<open>
  A consumer that reads the header of the message first, as all of them do, and leaves the
  inbox of the socket alone.  A message of length zero is then an index out of range, and any
  other message moves the cursor on.
\<close>

lemma and_then_unit: "and_then (r, st) (\<lambda>_ st. (Ok x, st)) = (map_res (\<lambda>_. x) r, st)"
  by (cases r) simp_all

locale header_reader =
  fixes c :: "'s consumer" and s :: nat
  assumes reads_header: "length (pdata msg) \<le> ppos msg \<Longrightarrow> c msg st = (Crash IndexOutOfRange, st)"
    and in_time: "fst (c msg st) \<noteq> Blocked OutOfFuel"
    and keeps: "c msg st = (r, st') \<Longrightarrow> inbox_of s (snd st') = inbox_of s (snd st)"
begin

lemma nextNlMsg_cases:
  assumes "nextNlMsg resp = Ok (Some msg, resp')"
  shows "pdata resp' = pdata resp" "ppos resp < length (pdata resp)"
    "ppos resp < ppos resp' \<or> length (pdata msg) \<le> ppos msg"
proof -
  obtain h where hd: "get_NlMsghdr resp = Ok h"
    using assms by (auto simp: nextNlMsg_def Let_def outcome_simps split: if_splits)
  then have r: "resp' = resp\<lparr>ppos := align (ppos resp + unat (Len h)) 4\<rparr>"
    "msg = \<lparr>pdata = take (ppos resp + unat (Len h)) (pdata resp), ppos = ppos resp\<rparr>"
    using assms by (auto simp: nextNlMsg_def Let_def split: if_splits)
  have "ppos resp < length (pdata resp)"
    using assms by (auto simp: nextNlMsg_def Let_def split: if_splits)
  with r have h: "pdata resp' = pdata resp" "ppos resp < length (pdata resp)"
    "ppos resp' = align (ppos resp + unat (Len h)) 4"
    "pdata msg = take (ppos resp + unat (Len h)) (pdata resp)" "ppos msg = ppos resp" by simp_all
  then show "pdata resp' = pdata resp" "ppos resp < length (pdata resp)" by simp_all
  have "ppos resp + unat (Len h) \<le> ppos resp'" unfolding h(3) by (rule align4_ge)
  then show "ppos resp < ppos resp' \<or> length (pdata msg) \<le> ppos msg"
    using h(4,5) by (cases "unat (Len h) = 0") simp_all
qed

lemma msgs_loop_in_time:
  "length (pdata resp) - ppos resp + 2 \<le> n \<or> (length (pdata msg) \<le> ppos msg \<and> 0 < n) \<Longrightarrow>
   fst (msgs_loop n c resp msg st) \<noteq> Blocked OutOfFuel"
proof (induction n arbitrary: resp msg st)
  case (Suc n)
  show ?case
  proof (cases "length (pdata msg) \<le> ppos msg")
    case True
    then show ?thesis by (simp add: reads_header)
  next
    case False
    with Suc.prems have n: "length (pdata resp) - ppos resp + 2 \<le> Suc n" by simp
    obtain r st' where c: "c msg st = (r, st')" by (rule prod.exhaust)
    then have r: "r \<noteq> Blocked OutOfFuel" using in_time [of msg st] by simp
    show ?thesis
    proof (cases "r = Ok False")
      case False
      then show ?thesis using c r by (cases r) simp_all
    next
      case True
      show ?thesis
      proof (cases "nextNlMsg resp")
        case (Ok p)
        then obtain nx resp' where p: "nextNlMsg resp = Ok (nx, resp')" by (cases p) simp
        show ?thesis
        proof (cases nx)
          case (Some msg')
          note nxt = nextNlMsg_cases [OF p [unfolded Some]]
          have "fst (msgs_loop n c resp' msg' st') \<noteq> Blocked OutOfFuel"
            using nxt n by (intro Suc.IH) (auto simp: nxt(1))
          then show ?thesis using c True p Some by simp
        qed (use c True p in simp)
      next
        case (Blocked b)
        have "nextNlMsg resp \<noteq> Blocked b"
          by (auto simp: nextNlMsg_def Let_def get_NlMsghdr_def nlMsghdrAt_def peek_def)
        with Blocked show ?thesis by simp
      qed (use c True in simp_all)
    qed
  qed
qed simp

lemma msgs_loop_keeps:
  "msgs_loop n c resp msg st = (r, st') \<Longrightarrow> inbox_of s (snd st') = inbox_of s (snd st)"
proof (induction n arbitrary: resp msg st)
  case (Suc n)
  obtain q st1 where c: "c msg st = (q, st1)" by (rule prod.exhaust)
  have k: "inbox_of s (snd st1) = inbox_of s (snd st)" by (rule keeps [OF c])
  show ?case
  proof (cases "q = Ok False")
    case False
    then show ?thesis using Suc.prems c k by (cases q) auto
  next
    case True
    then show ?thesis using Suc.prems Suc.IH [of _ _ st1] c k
      by (cases "nextNlMsg resp") (auto split: option.splits)
  qed
qed simp

lemma recv_cases:
  "recv s 0 w = (r, w') \<Longrightarrow> r \<noteq> Blocked OutOfFuel \<and>
     (\<forall>p. r = Ok p \<longrightarrow> length (pdata p) \<le> RECV_BUF \<and> ppos p = 0 \<and>
        length (inbox_of s w) = Suc (length (inbox_of s w')))"
  by (auto simp: recv_def Let_def inbox_of_def split: list.splits recv_answer.splits sockaddr.splits if_splits)

lemma receive_in_time:
  assumes "RECV_BUF + 2 \<le> k"
  shows "length (inbox_of s (snd st)) < n \<Longrightarrow> fst (receive_loop s k n c st) \<noteq> Blocked OutOfFuel"
proof (induction n arbitrary: st)
  case (Suc n)
  obtain r w where rw: "recv s 0 (snd st) = (r, w)" by (rule prod.exhaust)
  note rc = recv_cases [OF rw]
  show ?case
  proof (cases r)
    case (Ok resp)
    with rc have resp: "length (pdata resp) \<le> RECV_BUF" "ppos resp = 0"
      "length (inbox_of s (snd st)) = Suc (length (inbox_of s w))" by simp_all
    show ?thesis
    proof (cases "nextNlMsg resp")
      case (Ok p)
      obtain nx resp' where p: "nextNlMsg resp = Ok (nx, resp')" using Ok by (cases p) simp
      show ?thesis
      proof (cases nx)
        case (Some msg)
        obtain q st' where q: "msgs_loop k c resp' msg (fst st, w) = (q, st')" by (rule prod.exhaust)
        have "length (pdata resp') - ppos resp' + 2 \<le> k"
          using nextNlMsg_cases(1) [OF p [unfolded Some]] resp(1) assms by simp
        then have "q \<noteq> Blocked OutOfFuel" using msgs_loop_in_time [of resp' k msg] q by (metis fst_conv)
        moreover have "inbox_of s (snd st') = inbox_of s w" using msgs_loop_keeps [OF q] by simp
        moreover have "length (inbox_of s w) < n" using Suc.prems resp(3) by simp
        ultimately show ?thesis
          using Suc.IH [of st'] rw \<open>r = Ok resp\<close> p Some q by (cases q) simp_all
      qed (use rw \<open>r = Ok resp\<close> p in simp)
    next
      case (Blocked b)
      have "nextNlMsg resp \<noteq> Blocked b"
        by (auto simp: nextNlMsg_def Let_def get_NlMsghdr_def nlMsghdrAt_def peek_def)
      with Blocked show ?thesis by simp
    qed (use rw \<open>r = Ok resp\<close> in simp_all)
  qed (use rw rc in simp_all)
qed simp

end

lemma header_crash: "length (pdata msg) \<le> ppos msg \<Longrightarrow> get_NlMsghdr msg = Crash IndexOutOfRange"
  by (simp add: get_NlMsghdr_def nlMsghdrAt_def peek_def)

lemma checkResponseHeader_pending [simp]: "checkResponseHeader port seq msg \<noteq> Blocked b"
  by (auto simp: checkResponseHeader_def checkHeader_def get_NlMsghdr_def nlMsghdrAt_def nlMsgerrAt_def
      peek_def)

interpretation request_reader: header_reader "request_consumer port seq" s for port seq s
proof
  fix msg st r st'
  show "length (pdata msg) \<le> ppos msg \<Longrightarrow> request_consumer port seq msg st = (Crash IndexOutOfRange, st)"
    by (simp add: request_consumer_def checkResponseHeader_def header_crash)
  show "fst (request_consumer port seq msg st) \<noteq> Blocked OutOfFuel"
    by (cases "checkResponseHeader port seq msg") (auto simp: request_consumer_def)
  show "request_consumer port seq msg st = (r, st') \<Longrightarrow> inbox_of s (snd st') = inbox_of s (snd st)"
    by (cases "checkResponseHeader port seq msg") (auto simp: request_consumer_def)
qed

text \<open>A handler that does not use up fuel and does not touch the inbox of the socket.\<close>

locale quiet_handler =
  fixes h :: "'s handler" and s :: nat
  assumes handler_in_time: "fst (h msg st) \<noteq> Blocked OutOfFuel"
    and handler_keeps: "h msg st = (r, st') \<Longrightarrow> inbox_of s (snd st') = inbox_of s (snd st)"

lemma processNlMsgDone_pending [simp]: "processNlMsgDone msg \<noteq> Blocked b"
  by (auto simp: processNlMsgDone_def Advance_def CheckAvailable_def checkData_def int32At_def peek_def)

lemma get_NlMsghdr_pending [simp]: "get_NlMsghdr msg \<noteq> Blocked b"
  by (auto simp: get_NlMsghdr_def nlMsghdrAt_def peek_def)

lemma checkHeader_pending [simp]: "checkHeader msg \<noteq> Blocked b"
  by (auto simp: checkHeader_def get_NlMsghdr_def nlMsghdrAt_def nlMsgerrAt_def peek_def)

sublocale quiet_handler \<subseteq> multi: header_reader "multi_consumer port seq h" s for port seq
proof
  fix msg st r st'
  show "length (pdata msg) \<le> ppos msg \<Longrightarrow> multi_consumer port seq h msg st = (Crash IndexOutOfRange, st)"
    by (simp add: multi_consumer_def checkResponseHeader_def header_crash)
  obtain q st1 where h: "h msg st = (q, st1)" by (rule prod.exhaust)
  then have q: "q \<noteq> Blocked OutOfFuel" "inbox_of s (snd st1) = inbox_of s (snd st)"
    using handler_in_time [of msg st] handler_keeps by simp_all
  have "fst (multi_consumer port seq h msg st) \<noteq> Blocked OutOfFuel \<and>
      inbox_of s (snd (snd (multi_consumer port seq h msg st))) = inbox_of s (snd st)"
    using h q
    by (cases "checkResponseHeader port seq msg"; cases "get_NlMsghdr msg"; cases "processNlMsgDone msg"; cases q)
      (auto simp: multi_consumer_def)
  then show "fst (multi_consumer port seq h msg st) \<noteq> Blocked OutOfFuel"
    "multi_consumer port seq h msg st = (r, st') \<Longrightarrow> inbox_of s (snd st') = inbox_of s (snd st)"
    by auto
qed

sublocale quiet_handler \<subseteq> endless: header_reader "consume_consumer on_error h" s for on_error
proof
  fix msg st r st'
  show "length (pdata msg) \<le> ppos msg \<Longrightarrow> consume_consumer on_error h msg st = (Crash IndexOutOfRange, st)"
    by (simp add: consume_consumer_def checkHeader_def header_crash)
  obtain q st1 where h: "h msg st = (q, st1)" by (rule prod.exhaust)
  then have q: "q \<noteq> Blocked OutOfFuel" "inbox_of s (snd st1) = inbox_of s (snd st)"
    using handler_in_time [of msg st] handler_keeps by simp_all
  have "fst (consume_consumer on_error h msg st) \<noteq> Blocked OutOfFuel \<and>
      inbox_of s (snd (snd (consume_consumer on_error h msg st))) = inbox_of s (snd st)"
    using h q
    by (cases "checkHeader msg"; cases q) (auto simp: consume_consumer_def split: prod.splits)
  then show "fst (consume_consumer on_error h msg st) \<noteq> Blocked OutOfFuel"
    "consume_consumer on_error h msg st = (r, st') \<Longrightarrow> inbox_of s (snd st') = inbox_of s (snd st)"
    by auto
qed

context quiet_handler
begin

lemma multi_reader: "header_reader (multi_consumer port seq h) s"
  by (rule multi.header_reader_axioms)

lemma consume_reader: "header_reader (consume_consumer on_error h) s"
  by (rule endless.header_reader_axioms)

end

lemma Receive_in_time:
  assumes "header_reader c s" "RECV_BUF + 2 \<le> fuel (snd st)" "length (inbox_of s (snd st)) < fuel (snd st)"
  shows "fst (Receive s c st) \<noteq> Blocked OutOfFuel"
  unfolding Receive_def using header_reader.receive_in_time [OF assms] .

text \<open>A consumer that never asks to stop makes \<^verbatim>\<open>Receive\<close> end with an error or not at all.\<close>

lemma consume_consumer_goes_on: "fst (consume_consumer on_error h msg st) \<noteq> Ok True"
  by (auto simp: consume_consumer_def split: prod.splits res.splits)

lemma msgs_loop_goes_on:
  assumes "\<And>msg st. fst (c msg st) \<noteq> Ok True"
  shows "fst (msgs_loop n c resp msg st) \<noteq> Ok True"
proof (induction n arbitrary: resp msg st)
  case (Suc n)
  obtain q st1 where c: "c msg st = (q, st1)" by (rule prod.exhaust)
  with assms [of msg st] have q: "q \<noteq> Ok True" by simp
  with c Suc.IH [of _ _ st1] show ?case
    by (cases q; cases "nextNlMsg resp") (simp_all split: option.splits prod.splits)
qed simp

lemma receive_loop_goes_on:
  assumes "\<And>msg st. fst (c msg st) \<noteq> Ok True"
  shows "fst (receive_loop s k n c st) \<noteq> Ok ()"
proof (induction n arbitrary: st)
  case (Suc n)
  obtain r w where rw: "recv s 0 (snd st) = (r, w)" by (rule prod.exhaust)
  show ?case
  proof (cases r)
    case (Ok resp)
    show ?thesis
    proof (cases "nextNlMsg resp")
      case p: (Ok p)
      obtain nx resp' where nx: "p = (nx, resp')" by (cases p)
      show ?thesis
      proof (cases nx)
        case (Some msg)
        obtain q st' where q: "msgs_loop k c resp' msg (fst st, w) = (q, st')" by (rule prod.exhaust)
        then have "q \<noteq> Ok True" using msgs_loop_goes_on [of c k resp' msg "(fst st, w)", OF assms] by simp
        with q Suc.IH show ?thesis using rw Ok p nx Some by (cases q) simp_all
      qed (use rw Ok p nx in simp)
    qed (use rw Ok in simp_all)
  qed (use rw in simp_all)
qed simp

lemma consume_ends:
  assumes "quiet_handler h s" "RECV_BUF + 2 \<le> fuel (snd st)" "length (inbox_of s (snd st)) < fuel (snd st)"
  shows "case Receive s (consume_consumer on_error h) st of
      (Err e, (u, w)) \<Rightarrow> consume s on_error h st = (Ok (), (on_error e True u, w))
    | (r, st') \<Rightarrow> consume s on_error h st = (r, st') \<and> r \<noteq> Ok () \<and> r \<noteq> Blocked OutOfFuel"
proof -
  let ?c = "consume_consumer on_error h"
  obtain n where n: "fuel (snd st) = Suc n" using assms(2) by (cases "fuel (snd st)") simp_all
  obtain r st' where r: "Receive s ?c st = (r, st')" by (rule prod.exhaust)
  have "r \<noteq> Blocked OutOfFuel"
    using Receive_in_time [OF quiet_handler.consume_reader [OF assms(1)] assms(2,3), of on_error] r by simp
  moreover have "r \<noteq> Ok ()"
    using receive_loop_goes_on [of ?c, OF consume_consumer_goes_on] r by (metis Receive_def fst_conv)
  ultimately show ?thesis
    using r n by (cases r; cases st') (simp_all add: consume_def)
qed

section \<open>What the endless consumer does with each message\<close>

text \<open>
  A handler that deals with the messages \<open>good\<close> as \<open>out\<close> says: it succeeds or returns an error, and changes
  the captured variables only.
\<close>

definition handles_as ::
    "'s handler \<Rightarrow> (wmsg \<Rightarrow> 's \<Rightarrow> unit res \<times> 's) \<Rightarrow> u32 \<Rightarrow> u32 \<Rightarrow> wmsg \<Rightarrow> bool" where
  "handles_as h out seq pid m \<longleftrightarrow> (\<forall>pre v x. 4 dvd length (pre :: bytes) \<longrightarrow>
     h \<lparr>pdata = pre @ wire seq pid m, ppos = length pre\<rparr> (v, x) = (fst (out m v), (snd (out m v), x)) \<and>
     (fst (out m v) = Ok () \<or> (\<exists>e. fst (out m v) = Err e)))"

text \<open>The error code of a message of type \<^verbatim>\<open>NLMSG_ERROR\<close>.\<close>

definition error_code :: "wmsg \<Rightarrow> i32" where
  "error_code m = dec_word (take 4 (snd (snd m)))"

text \<open>
  The contract of \<^verbatim>\<open>consume\<close> for one message: an error message of the kernel is reported without being
  handled, a message whose handler fails is reported with the error of the handler, and neither
  is the last report.
\<close>

definition reaction ::
    "(error \<Rightarrow> bool \<Rightarrow> 's \<Rightarrow> 's) \<Rightarrow> (wmsg \<Rightarrow> 's \<Rightarrow> unit res \<times> 's) \<Rightarrow> wmsg \<Rightarrow> 's \<Rightarrow> 's" where
  "reaction on_error out m v =
     (if fst m = NLMSG_ERROR \<and> error_code m \<noteq> 0 then on_error (netlink_error (error_code m)) False v
      else case fst (out m v) of Err e \<Rightarrow> on_error e False (snd (out m v)) | _ \<Rightarrow> snd (out m v))"

lemma checkHeader_error_msg:
  assumes "fst m = NLMSG_ERROR" "4 \<le> length (snd (snd m))"
  shows "checkHeader \<lparr>pdata = pre @ wire seq pid m, ppos = length pre\<rparr> =
    (if error_code m \<noteq> 0 then Err (netlink_error (error_code m)) else Ok ())"
proof -
  have "snd (snd m) = enc_word 4 (error_code m) @ drop 4 (snd (snd m))"
    using assms(2) enc_dec_word [of "take 4 (snd (snd m))", where 'a = 32] by (simp add: error_code_def)
  then show ?thesis
    using checkHeader_error [of pre "fst (snd m)" seq pid "error_code m" "drop 4 (snd (snd m))"] assms(1)
    by (simp add: wire_msg)
qed

lemma consumer_reacts:
  assumes "handles_as h out seq pid m" "fst m = NLMSG_ERROR \<Longrightarrow> 4 \<le> length (snd (snd m))" "4 dvd length pre"
  shows "consume_consumer on_error h \<lparr>pdata = pre @ wire seq pid m, ppos = length pre\<rparr> (v, x) =
    (Ok False, (reaction on_error out m v, x))"
proof -
  let ?msg = "\<lparr>pdata = pre @ wire seq pid m, ppos = length pre\<rparr>"
  have h: "h ?msg (v, x) = (fst (out m v), (snd (out m v), x))"
    "fst (out m v) = Ok () \<or> (\<exists>e. fst (out m v) = Err e)"
    using assms(1,3) by (simp_all add: handles_as_def)
  have "checkHeader ?msg = (if fst m = NLMSG_ERROR \<and> error_code m \<noteq> 0 then Err (netlink_error (error_code m)) else Ok ())"
    using checkHeader_error_msg [OF _ assms(2), of pre seq pid] checkHeader_msg [of "fst m" pre "fst (snd m)" seq pid]
    by (cases "fst m = NLMSG_ERROR") (simp_all add: wire_msg)
  then show ?thesis using h by (auto simp: consume_consumer_def reaction_def)
qed

lemma msgs_loop_reacts:
  assumes "\<forall>m' \<in> set (m # ms). handles_as h out seq pid m' \<and> (fst m' = NLMSG_ERROR \<longrightarrow> 4 \<le> length (snd (snd m')))"
    "4 dvd length pre" "length (pre @ dgram seq pid (m # ms)) < 2 ^ 32" "length ms < n"
  shows "msgs_loop n (consume_consumer on_error h)
      \<lparr>pdata = (pre @ pad4 (wire seq pid m)) @ dgram seq pid ms, ppos = length (pre @ pad4 (wire seq pid m))\<rparr>
      \<lparr>pdata = pre @ wire seq pid m, ppos = length pre\<rparr> (v, x) =
    (Ok False, (fold (reaction on_error out) (m # ms) v, x))"
  using assms
proof (induction ms arbitrary: m pre n v)
  case Nil
  obtain n' where n: "n = Suc n'" using Nil.prems(4) by (cases n) auto
  show ?case using Nil.prems(1,2) consumer_reacts [of h out seq pid m pre on_error v x]
    by (simp add: n nextNlMsg_end)
next
  case (Cons m' ms)
  obtain n' where n: "n = Suc n'" using Cons.prems(4) by (cases n) auto
  let ?pre = "pre @ pad4 (wire seq pid m)"
  have pre: "4 dvd length ?pre" using Cons.prems(2) by simp
  have len: "length (?pre @ dgram seq pid (m' # ms)) < 2 ^ 32" using Cons.prems(3) by simp
  have here: "consume_consumer on_error h \<lparr>pdata = pre @ wire seq pid m, ppos = length pre\<rparr> (v, x) =
      (Ok False, (reaction on_error out m v, x))"
    using Cons.prems(1,2) by (intro consumer_reacts) simp_all
  have "msgs_loop n' (consume_consumer on_error h)
      \<lparr>pdata = (?pre @ pad4 (wire seq pid m')) @ dgram seq pid ms, ppos = length (?pre @ pad4 (wire seq pid m'))\<rparr>
      \<lparr>pdata = ?pre @ wire seq pid m', ppos = length ?pre\<rparr> (reaction on_error out m v, x) =
    (Ok False, (fold (reaction on_error out) (m' # ms) (reaction on_error out m v), x))"
    using Cons.prems n by (intro Cons.IH pre len) simp_all
  then show ?case
    unfolding n msgs_loop.simps here and_then_simps nextNlMsg_dgram [OF pre len] by simp
qed

definition heard :: "'s handler \<Rightarrow> (wmsg \<Rightarrow> 's \<Rightarrow> unit res \<times> 's) \<Rightarrow> u32 \<Rightarrow> u32 \<Rightarrow> wmsg list \<Rightarrow> bool" where
  "heard h out seq pid d \<longleftrightarrow> d \<noteq> [] \<and> length (dgram seq pid d) \<le> RECV_BUF \<and>
     (\<forall>m \<in> set d. handles_as h out seq pid m \<and> (fst m = NLMSG_ERROR \<longrightarrow> 4 \<le> length (snd (snd m))))"

lemma length_dgram_ge: "length d \<le> length (dgram seq pid d)"
proof (induction d)
  case (Cons m d)
  have "1 \<le> align (16 + length (snd (snd m))) 4" unfolding align4 by linarith
  with Cons show ?case by (simp add: pad4_length_wire del: length_pad4)
qed simp

lemma receive_reacts:
  assumes "\<forall>d \<in> set ds. heard h out seq pid d"
    "inbox_of s w = map (\<lambda>d. Datagram (dgram seq pid d) (NetlinkAddr 0)) ds @ RecvErr e # as"
    "RECV_BUF \<le> k" "length ds < n"
  shows "receive_loop s k n (consume_consumer on_error h) (u, w) =
    (Err (Errno e), (fold (reaction on_error out) (concat ds) u, (recvd_state s ^^ Suc (length ds)) w))"
  using assms
proof (induction ds arbitrary: u w n)
  case Nil
  then obtain n' where n: "n = Suc n'" by (cases n) auto
  have "recv s 0 w = (Err (Errno e), recvd_state s w)"
    using Nil.prems(2) by (simp add: recv_def inbox_of_def recvd_state_def Let_def)
  then show ?case by (simp add: n)
next
  case (Cons d ds)
  obtain n' where n: "n = Suc n'" using Cons.prems(4) by (cases n) auto
  obtain m ms where d: "d = m # ms" using Cons.prems(1) by (cases d) (auto simp: heard_def)
  have len: "length (dgram seq pid (m # ms)) \<le> RECV_BUF" and
    ok: "\<forall>m' \<in> set (m # ms). handles_as h out seq pid m' \<and> (fst m' = NLMSG_ERROR \<longrightarrow> 4 \<le> length (snd (snd m')))"
    using Cons.prems(1) d by (auto simp: heard_def)
  have short: "length ([] @ dgram seq pid (m # ms)) < 2 ^ 32" using len by (simp add: RECV_BUF_def)
  have k: "length ms < k" using length_dgram_ge [of "m # ms" seq pid] len Cons.prems(3) by simp
  have inbox: "inbox_of s w = Datagram (dgram seq pid d) (NetlinkAddr 0) #
      (map (\<lambda>d. Datagram (dgram seq pid d) (NetlinkAddr 0)) ds @ RecvErr e # as)"
    using Cons.prems(2) by simp
  have "receive_loop s k n (consume_consumer on_error h) (u, w) =
      receive_loop s k n' (consume_consumer on_error h) (fold (reaction on_error out) d u, recvd_state s w)"
    unfolding n receive_loop.simps
    using recv_datagram [OF inbox] len nextNlMsg_dgram [OF _ short]
      msgs_loop_reacts [OF ok _ short k, of on_error u "recvd_state s w"]
    by (simp add: d del: dgram_Cons)
  also have "\<dots> = (Err (Errno e), (fold (reaction on_error out) (concat ds) (fold (reaction on_error out) d u),
      (recvd_state s ^^ Suc (length ds)) (recvd_state s w)))"
    using Cons.prems inbox n by (intro Cons.IH) simp_all
  finally show ?case by (simp add: funpow_swap1)
qed

section \<open>What a request leaves alone\<close>

lemma and_then_inv:
  assumes "Q (snd r)" "\<And>x st. r = (Ok x, st) \<Longrightarrow> Q st \<Longrightarrow> Q (snd (f x st))"
  shows "Q (snd (and_then r f))"
  using assms by (cases r; cases "fst r") simp_all

lemma msgs_loop_inv:
  assumes c: "\<And>msg st. Q st \<Longrightarrow> Q (snd (c msg st))"
  shows "Q st \<Longrightarrow> Q (snd (msgs_loop n c resp msg st))"
proof (induction n arbitrary: resp msg st)
  case (Suc n)
  show ?case unfolding msgs_loop.simps
  proof (rule and_then_inv)
    show "Q (snd (c msg st))" using c Suc.prems .
    fix fin st' assume "Q st'"
    then show "Q (snd (if fin then (Ok True, st') else and_then (nextNlMsg resp, st') (\<lambda>(next, resp) st.
        case next of None \<Rightarrow> (Ok False, st) | Some msg \<Rightarrow> msgs_loop n c resp msg st)))"
      using Suc.IH [of st'] by (cases "nextNlMsg resp") (simp_all split: option.split prod.split)
  qed
qed simp

lemma receive_loop_inv:
  assumes c: "\<And>msg st. Q st \<Longrightarrow> Q (snd (c msg st))"
    and recv: "\<And>u w. Q (u, w) \<Longrightarrow> Q (u, snd (recv s 0 w))"
  shows "Q st \<Longrightarrow> Q (snd (receive_loop s k n c st))"
proof (induction n arbitrary: st)
  case (Suc n)
  show ?case unfolding receive_loop.simps
  proof (rule and_then_inv)
    show "Q (snd (case recv s 0 (snd st) of (r, w) \<Rightarrow> (r, (fst st, w))))"
      using recv [of "fst st" "snd st"] Suc.prems by (cases "recv s 0 (snd st)") simp
    fix resp st1 assume st1: "Q st1"
    have "Q (snd (and_then (msgs_loop k c resp' msg st1)
        (\<lambda>done st. if done then (Ok (), st) else receive_loop s k n c st)))" for resp' msg
      by (rule and_then_inv) (simp_all add: msgs_loop_inv [of Q, OF c st1] Suc.IH)
    then show "Q (snd (and_then (nextNlMsg resp, st1) (\<lambda>(next, resp) st.
        case next of None \<Rightarrow> (Err ResponseMissing, st) | Some msg \<Rightarrow>
          and_then (msgs_loop k c resp msg st)
            (\<lambda>done st. if done then (Ok (), st) else receive_loop s k n c st))))"
      using st1 by (cases "nextNlMsg resp") (simp_all split: option.split prod.split)
  qed
qed simp

text \<open>The parts of the system no exchange of messages changes.\<close>

definition same_sockets :: "sys \<Rightarrow> sys \<Rightarrow> bool" where
  "same_sockets v w \<longleftrightarrow> sockets v = sockets w \<and> nsockets v = nsockets w \<and> fuel v = fuel w \<and>
     opens v = opens w \<and> closes v = closes w \<and> open_fds v = open_fds w \<and> triedLoad v = triedLoad w"

lemma same_sockets_refl [simp]: "same_sockets w w"
  by (simp add: same_sockets_def)

lemma same_sockets_trans: "same_sockets u v \<Longrightarrow> same_sockets v w \<Longrightarrow> same_sockets u w"
  by (simp add: same_sockets_def)

lemma recv_same: "same_sockets (snd (recv s peer w)) w"
  by (auto simp: recv_def Let_def same_sockets_def split: list.split recv_answer.split sockaddr.split)

lemma send_same: "same_sockets (snd (send s m w)) w"
  by (cases "Finish m (nextSeqNo w)") (auto simp: send_def same_sockets_def split: prod.split)

lemma Request_same: "same_sockets (snd (Request s m w)) w"
proof -
  let ?Q = "\<lambda>st :: NlMsgParser option \<times> sys. same_sockets (snd st) w"
  have "?Q (snd (Receive s (request_consumer port seq) (None, v)))" if "same_sockets v w" for port seq v
    unfolding Receive_def
  proof (rule receive_loop_inv)
    fix msg st assume "?Q st"
    then show "?Q (snd (request_consumer port seq msg st))"
      unfolding request_consumer_def by (cases "checkResponseHeader port seq msg") simp_all
  next
    fix u :: "NlMsgParser option" and v assume "?Q (u, v)"
    then show "?Q (u, snd (recv s 0 v))" using recv_same same_sockets_trans by simp blast
  qed (use that in simp)
  note receive = this
  obtain r v where send: "send s m w = (r, v)" by (rule prod.exhaust)
  then have "same_sockets v w" using send_same [of s m w] by simp
  then show ?thesis unfolding Request_def send
    using receive [of v "PortId s v"] by (cases r) (simp_all split: prod.split, metis snd_conv)
qed

section \<open>Properties\<close>

text \<open>A system with open sockets, given pending datagrams and no failing calls.\<close>

definition idle_sys :: "recv_answer list \<Rightarrow> sys" where
  "idle_sys as = \<lparr>nextSeqNo = 41, triedLoad = False,
     sockets = (\<lambda>_. \<lparr>sock_fd = 3, sock_pid = 7\<rparr>), nsockets = 1, heaps = (\<lambda>_ _. 0x1003),
     fuel = 70000, opens = [], dgrams = [], sends = [], closes = [], joins = [],
     inbox = (\<lambda>_. as), trace = []\<rparr>"

lemma idle_sys_sel [simp]:
  "nextSeqNo (idle_sys as) = 41" "PortId s (idle_sys as) = 7" "inbox_of s (idle_sys as) = as"
  "fuel (idle_sys as) = 70000" "sends (idle_sys as) = []" "opens (idle_sys as) = []"
  "heaps (idle_sys as) = (\<lambda>_ _. 0x1003)" "joins (idle_sys as) = []" "open_fds (idle_sys as) = []"
  by (simp_all add: idle_sys_def PortId_def inbox_of_def open_fds_def)

text \<open>A builder whose message has no body yet.\<close>

definition plain_builder :: NlMsgBuilder where
  "plain_builder = (case NewNlMsgBuilder (\<lambda>_. 0x1003) 1 20 of Ok m \<Rightarrow> m | _ \<Rightarrow> undefined)"

lemma plain_builder_spec: "builder_ok plain_builder" "mbytes plain_builder = draft_bytes 20 1 []"
proof -
  obtain m where "NewNlMsgBuilder (\<lambda>_. 0x1003) 1 20 = Ok m" "builder_ok m" "mbytes m = draft_bytes 20 1 []"
    by (rule NewNlMsgBuilder_spec [of "\<lambda>_. 0x1003" 1 20])
  then show "builder_ok plain_builder" "mbytes plain_builder = draft_bytes 20 1 []"
    by (simp_all add: plain_builder_def)
qed

text \<open>
  Property C10: what \<^verbatim>\<open>Request\<close> makes of the first message it receives.  A reply with the port and
  the sequence number of the request is returned; an error message with a non-zero code
  becomes the negated error; and a message with another sequence number, which the comment
  says should be discarded, ends the request with a nil response and a nil error.
\<close>

theorem request_outcomes:
  assumes "builder_ok m" "mbytes m = draft_bytes t fl body" "answer (sends w) = Ok ()" "fuel w > 0"
    "answers s w u fu q rbody"
  shows "(q = nextSeqNo w + 1 \<and> u \<noteq> NLMSG_ERROR \<longrightarrow> Request s m w =
      (Ok (Some \<lparr>pdata = nlmsg_bytes u fu q (PortId s w) rbody, ppos = 0\<rparr>), recvd_state s (sent_state s t fl body w))) \<and>
    (\<forall>e rest. q = nextSeqNo w + 1 \<and> u = NLMSG_ERROR \<and> rbody = enc_word 4 (e :: i32) @ rest \<and> e \<noteq> 0 \<longrightarrow>
      Request s m w = (Err (netlink_error e), recvd_state s (sent_state s t fl body w))) \<and>
    (q \<noteq> nextSeqNo w + 1 \<longrightarrow> Request s m w = (Ok None, recvd_state s (sent_state s t fl body w)))"
  using Request_reply [OF assms(1-3), of s u fu rbody] Request_error [OF assms(1-3), of s fu _ _]
    Request_stale [OF assms(1-3,5)] assms(4,5) by blast

theorem request_outcomes_witness:
  "Request 0 plain_builder (idle_sys [Datagram (nlmsg_bytes 20 0 42 7 [1, 2, 3, 4]) (NetlinkAddr 0)]) =
     (Ok (Some \<lparr>pdata = nlmsg_bytes 20 0 42 7 [1, 2, 3, 4], ppos = 0\<rparr>),
      recvd_state 0 (sent_state 0 20 1 []
        (idle_sys [Datagram (nlmsg_bytes 20 0 42 7 [1, 2, 3, 4]) (NetlinkAddr 0)])))"
proof -
  let ?w = "idle_sys [Datagram (nlmsg_bytes 20 0 42 7 [1, 2, 3, 4]) (NetlinkAddr 0)]"
  have "answers 0 ?w 20 0 42 [1, 2, 3, 4]"
    unfolding answers_def by (intro exI [of _ "[]"]) (simp add: RECV_BUF_def)
  from request_outcomes [OF plain_builder_spec _ _ this] show ?thesis by (simp add: NLMSG_ERROR_def)
qed

lemma requests_in_time:
  assumes "RECV_BUF + 2 \<le> fuel w" "length (inbox_of s w) < fuel w" "quiet_handler h s"
  shows "fst (Request s m w) \<noteq> Blocked OutOfFuel \<and> fst (RequestMulti s m h (u, w)) \<noteq> Blocked OutOfFuel"
proof -
  have fin: "Finish m n \<noteq> Blocked b" for n b
    by (auto simp: Finish_def Let_def poke_buf_def poke_def split: if_splits)
  have ans: "answer as \<noteq> Blocked b" for as b by (cases as rule: answer.cases) simp_all
  obtain r v where send: "send s m w = (r, v)" by (rule prod.exhaust)
  have r: "r \<noteq> Blocked b" for b
    using send fin ans [of "sends w"] by (cases "Finish m (nextSeqNo w)"; cases "answer (sends w)")
      (auto simp: send_def)
  have "same_sockets v w" using send_same [of s m w] send by simp
  moreover have "inbox v = inbox w"
    using send by (cases "Finish m (nextSeqNo w)") (auto simp: send_def)
  ultimately have v: "RECV_BUF + 2 \<le> fuel v" "length (inbox_of s v) < fuel v"
    using assms(1,2) by (simp_all add: same_sockets_def inbox_of_def)
  have "fst (Receive s (request_consumer (PortId s v) q) (None, v)) \<noteq> Blocked OutOfFuel" for q
    by (rule Receive_in_time [OF request_reader.header_reader_axioms]) (use v in simp_all)
  moreover have "fst (Receive s (multi_consumer (PortId s v) q h) (u, v)) \<noteq> Blocked OutOfFuel" for q
    by (rule Receive_in_time [OF quiet_handler.multi_reader [OF assms(3)]]) (use v in simp_all)
  moreover have "map_res f x = Blocked b \<longleftrightarrow> x = Blocked b" for f :: "unit \<Rightarrow> NlMsgParser option" and x b
    by (cases x) simp_all
  ultimately show ?thesis using send r
    by (cases r) (auto simp: Request_def RequestMulti_def split: prod.split, metis fst_conv)
qed

text \<open>
  Property C24: a request ends or waits for the kernel; it never spins.  With fuel for the size of
  the receive buffer and the number of pending datagrams, neither \<^verbatim>\<open>Request\<close> nor \<^verbatim>\<open>RequestMulti\<close>
  runs out of it: a message of length zero, which does not advance the cursor, makes the
  consumer panic instead of being handed out again and again.
\<close>

theorem requests_do_not_spin:
  assumes "RECV_BUF + 2 \<le> fuel w" "length (inbox_of s w) < fuel w" "quiet_handler h s"
  shows "fst (Request s m w) \<noteq> Blocked OutOfFuel \<and> fst (RequestMulti s m h (u, w)) \<noteq> Blocked OutOfFuel"
  by (rule requests_in_time [OF assms])

theorem requests_do_not_spin_witness:
  "fst (Request 0 plain_builder (idle_sys [Datagram (replicate 16 0) (NetlinkAddr 0)])) \<noteq> Blocked OutOfFuel \<and>
   fst (RequestMulti 0 plain_builder (\<lambda>msg st. (Ok (), st))
     ((), idle_sys [Datagram (replicate 16 0) (NetlinkAddr 0)])) \<noteq> Blocked OutOfFuel"
proof (rule requests_do_not_spin)
  show "quiet_handler (\<lambda>msg st. (Ok (), st)) 0" by unfold_locales auto
qed (simp_all add: RECV_BUF_def)

text \<open>
  Property C25: \<^verbatim>\<open>consume\<close> survives bad messages.  With enough fuel it returns only when receiving
  itself fails, after reporting that error as the one that stopped it.  Whatever messages arrive
  before, all of them are dealt with, in order: each error message of the kernel and each failure of the
  handler is reported as an error that does not stop, and the loop goes on to the next message.
\<close>

theorem consume_stops_on_receive_error:
  assumes "quiet_handler h s" "RECV_BUF + 2 \<le> fuel w" "length (inbox_of s w) < fuel w"
  shows "fst (consume s on_error h (u, w)) \<noteq> Blocked OutOfFuel \<and>
    (\<forall>u' w'. consume s on_error h (u, w) = (Ok (), (u', w')) \<longrightarrow>
      (\<exists>e v. Receive s (consume_consumer on_error h) (u, w) = (Err e, (v, w')) \<and> u' = on_error e True v)) \<and>
    (\<forall>out seq pid ds e as. (\<forall>d \<in> set ds. heard h out seq pid d) \<longrightarrow>
      inbox_of s w = map (\<lambda>d. Datagram (dgram seq pid d) (NetlinkAddr 0)) ds @ RecvErr e # as \<longrightarrow>
      (\<exists>w'. consume s on_error h (u, w) =
        (Ok (), (on_error (Errno e) True (fold (reaction on_error out) (concat ds) u), w')) \<and> inbox_of s w' = as))"
proof (intro conjI)
  obtain r v w1 where r: "Receive s (consume_consumer on_error h) (u, w) = (r, (v, w1))" by (metis prod.exhaust)
  show "fst (consume s on_error h (u, w)) \<noteq> Blocked OutOfFuel"
    "\<forall>u' w'. consume s on_error h (u, w) = (Ok (), (u', w')) \<longrightarrow>
      (\<exists>e v. Receive s (consume_consumer on_error h) (u, w) = (Err e, (v, w')) \<and> u' = on_error e True v)"
    using consume_ends [of h s "(u, w)" on_error] assms r by (cases r; auto)+
  show "\<forall>out seq pid ds e as. (\<forall>d \<in> set ds. heard h out seq pid d) \<longrightarrow>
      inbox_of s w = map (\<lambda>d. Datagram (dgram seq pid d) (NetlinkAddr 0)) ds @ RecvErr e # as \<longrightarrow>
      (\<exists>w'. consume s on_error h (u, w) =
        (Ok (), (on_error (Errno e) True (fold (reaction on_error out) (concat ds) u), w')) \<and> inbox_of s w' = as)"
  proof (intro allI impI)
    fix out seq pid ds e as
    assume "\<forall>d \<in> set ds. heard h out seq pid d"
      and inbox: "inbox_of s w = map (\<lambda>d. Datagram (dgram seq pid d) (NetlinkAddr 0)) ds @ RecvErr e # as"
    from receive_reacts [OF this, of "fuel w" "fuel w" on_error u] assms(2,3)
    have rcv: "Receive s (consume_consumer on_error h) (u, w) =
        (Err (Errno e), (fold (reaction on_error out) (concat ds) u, (recvd_state s ^^ Suc (length ds)) w))"
      by (simp add: Receive_def inbox)
    have "inbox_of s ((recvd_state s ^^ n) w) = drop n (inbox_of s w)" for n
      by (induction n) (simp_all add: drop_Suc tl_drop)
    from this [of "Suc (length ds)"] have "inbox_of s ((recvd_state s ^^ Suc (length ds)) w) = as"
      unfolding inbox by simp
    then show "\<exists>w'. consume s on_error h (u, w) =
        (Ok (), (on_error (Errno e) True (fold (reaction on_error out) (concat ds) u), w')) \<and> inbox_of s w' = as"
      using consume_ends [of h s "(u, w)" on_error] assms rcv by auto
  qed
qed

text \<open>A handler that refuses empty messages, a datagram with one of those and an error of the kernel.\<close>

definition picky_handler :: "(error \<times> bool) list handler" where
  "picky_handler msg st =
     (if length (pdata msg) \<le> ppos msg + 16 then Err ResponseMissing else Ok (), st)"

definition demo_notices :: "wmsg list list" where
  "demo_notices = [[(NLMSG_ERROR, 0, enc_word 4 (- 2 :: i32)), (23, 0, [])], [(23, 0, [1, 2, 3, 4])]]"

theorem consume_stops_on_receive_error_witness:
  "\<exists>w'. consume 0 (\<lambda>e stopped u. u @ [(e, stopped)]) picky_handler
      ([], idle_sys (map (\<lambda>d. Datagram (dgram 0 0 d) (NetlinkAddr 0)) demo_notices @ [RecvErr 9])) =
    (Ok (), ([(netlink_error (- 2), False), (ResponseMissing, False), (Errno 9, True)], w'))"
proof -
  let ?out = "\<lambda>m u. (if snd (snd m) = [] then Err ResponseMissing else Ok (), u)"
  let ?on = "\<lambda>e stopped u. u @ [(e, stopped)]"
  let ?w = "idle_sys (map (\<lambda>d. Datagram (dgram 0 0 d) (NetlinkAddr 0)) demo_notices @ [RecvErr 9])"
  have "quiet_handler picky_handler 0" by unfold_locales (auto simp: picky_handler_def)
  moreover have "handles_as picky_handler ?out 0 0 m" for m
    by (auto simp: handles_as_def picky_handler_def wire_msg)
  then have "\<forall>d \<in> set demo_notices. heard picky_handler ?out 0 0 d"
    by (simp add: heard_def demo_notices_def RECV_BUF_def align4 NLMSG_ERROR_def)
  moreover have "fold (reaction ?on ?out) (concat demo_notices) [] = [(netlink_error (- 2), False), (ResponseMissing, False)]"
    by (simp add: demo_notices_def reaction_def error_code_def NLMSG_ERROR_def)
  moreover have "RECV_BUF + 2 \<le> fuel ?w" "length (inbox_of 0 ?w) < fuel ?w"
    by (simp_all add: RECV_BUF_def demo_notices_def)
  ultimately show ?thesis
    using consume_stops_on_receive_error [THEN conjunct2, THEN conjunct2, rule_format, of picky_handler 0 ?w demo_notices ?out 0 0 9 "[]" ?on "[]"]
    by simp blast
qed

end
