(* ===== verification/Tunnel_Attrs.thy ===== *)
theory Tunnel_Attrs
  imports Netlink_Parser Ovs_Constants
begin

text \<open>
  Model of the tunnel attributes of \<^verbatim>\<open>odp/flow.go\<close>: the records \<^verbatim>\<open>TunnelAttrs\<close> and
  \<^verbatim>\<open>TunnelAttrsPresence\<close>, the conversions between a mask and presence flags, the encoder
  \<^verbatim>\<open>toNlAttrs\<close> and the parser \<^verbatim>\<open>parseTunnelAttrs\<close>.

  The lemmas show that parsing inverts encoding up to the fields that were not marked
  present, and that a mask survives the round trip unchanged.
\<close>

definition AllBytes :: "bytes \<Rightarrow> byte \<Rightarrow> bool" where
  "AllBytes dat x = list_all (\<lambda>y. \<not> x \<noteq> y) dat"

lemma AllBytes_iff: "AllBytes dat x \<longleftrightarrow> dat = replicate (length dat) x"
  by (induction dat) (auto simp: AllBytes_def)

lemma AllBytes_simps [simp]:
  "AllBytes [] x" "AllBytes (y # ys) x \<longleftrightarrow> y = x \<and> AllBytes ys x" "AllBytes (replicate n y) x \<longleftrightarrow> n = 0 \<or> y = x"
  by (auto simp: AllBytes_def list_all_iff)

section \<open>The records\<close>

text \<open>Fixed-size arrays are byte lists; \<open>ta_wf\<close> states their lengths.\<close>

record TunnelAttrs =
  TunnelId :: bytes
  Ipv4Src :: bytes
  Ipv4Dst :: bytes
  Tos :: u8
  Ttl :: u8
  Df :: bool
  Csum :: bool
  TpSrc :: u16
  TpDst :: u16

record TunnelAttrsPresence =
  pTunnelId :: bool
  pIpv4Src :: bool
  pIpv4Dst :: bool
  pTos :: bool
  pTtl :: bool
  pDf :: bool
  pCsum :: bool
  pTpSrc :: bool
  pTpDst :: bool

definition ta_wf :: "TunnelAttrs \<Rightarrow> bool" where
  "ta_wf ta \<longleftrightarrow> length (TunnelId ta) = 8 \<and> length (Ipv4Src ta) = 4 \<and> length (Ipv4Dst ta) = 4"

definition zero_ta :: TunnelAttrs where
  "zero_ta = \<lparr>TunnelId = replicate 8 0, Ipv4Src = replicate 4 0, Ipv4Dst = replicate 4 0,
              Tos = 0, Ttl = 0, Df = False, Csum = False, TpSrc = 0, TpDst = 0\<rparr>"

definition zero_presence :: TunnelAttrsPresence where
  "zero_presence = \<lparr>pTunnelId = False, pIpv4Src = False, pIpv4Dst = False, pTos = False,
     pTtl = False, pDf = False, pCsum = False, pTpSrc = False, pTpDst = False\<rparr>"

definition present :: "TunnelAttrs \<Rightarrow> TunnelAttrsPresence" where
  "present ta =
     \<lparr>pTunnelId = \<not> AllBytes (TunnelId ta) 0,
      pIpv4Src = \<not> AllBytes (Ipv4Src ta) 0,
      pIpv4Dst = True,
      pTos = (Tos ta \<noteq> 0),
      pTtl = True,
      pDf = Df ta,
      pCsum = Csum ta,
      pTpSrc = (TpSrc ta \<noteq> 0),
      pTpDst = (TpDst ta \<noteq> 0)\<rparr>"

definition tap_mask :: "TunnelAttrsPresence \<Rightarrow> TunnelAttrs" where
  "tap_mask tap =
     \<lparr>TunnelId = (if pTunnelId tap then replicate 8 0xff else replicate 8 0),
      Ipv4Src = (if pIpv4Src tap then replicate 4 0xff else replicate 4 0),
      Ipv4Dst = (if pIpv4Dst tap then replicate 4 0xff else replicate 4 0),
      Tos = (if pTos tap then 0xff else 0),
      Ttl = (if pTtl tap then 0xff else 0),
      Df = pDf tap,
      Csum = pCsum tap,
      TpSrc = (if pTpSrc tap then 0xffff else 0),
      TpDst = (if pTpDst tap then 0xffff else 0)\<rparr>"

section \<open>Encoding\<close>

definition ta_toNlAttrs :: "TunnelAttrs \<Rightarrow> TunnelAttrsPresence \<Rightarrow> generator" where
  "ta_toNlAttrs ta pr = seq_gens
     [if pTunnelId pr then PutSliceAttr OVS_TUNNEL_KEY_ATTR_ID (TunnelId ta) else skip_gen,
      if pIpv4Src pr then PutSliceAttr OVS_TUNNEL_KEY_ATTR_IPV4_SRC (Ipv4Src ta) else skip_gen,
      if pIpv4Dst pr then PutSliceAttr OVS_TUNNEL_KEY_ATTR_IPV4_DST (Ipv4Dst ta) else skip_gen,
      if pTos pr then PutUint8Attr OVS_TUNNEL_KEY_ATTR_TOS (Tos ta) else skip_gen,
      if pTtl pr then PutUint8Attr OVS_TUNNEL_KEY_ATTR_TTL (Ttl ta) else skip_gen,
      if pDf pr \<and> Df ta then PutEmptyAttr OVS_TUNNEL_KEY_ATTR_DONT_FRAGMENT else skip_gen,
      if pCsum pr \<and> Csum ta then PutEmptyAttr OVS_TUNNEL_KEY_ATTR_CSUM else skip_gen,
      if pTpSrc pr then PutUint16Attr OVS_TUNNEL_KEY_ATTR_TP_SRC (uint16ToBE (TpSrc ta))
        else skip_gen,
      if pTpDst pr then PutUint16Attr OVS_TUNNEL_KEY_ATTR_TP_DST (uint16ToBE (TpDst ta))
        else skip_gen]"

section \<open>Parsing\<close>

text \<open>
  The error of the \<open>IPV4_DST\<close> lookup is overwritten by the next statement before it is
  looked at, so that lookup never makes the parser fail.
\<close>

definition parseTunnelAttrs :: "Attrs \<Rightarrow> (TunnelAttrs \<times> TunnelAttrsPresence) res" where
  "parseTunnelAttrs attrs =
     res_bind (GetOptionalBytes attrs OVS_TUNNEL_KEY_ATTR_ID (replicate 8 0)) (\<lambda>(hid, tid).
     res_bind (GetOptionalBytes attrs OVS_TUNNEL_KEY_ATTR_IPV4_SRC (replicate 4 0)) (\<lambda>(hsrc, src).
     let (hdst, dst) =
       (case GetOptionalBytes attrs OVS_TUNNEL_KEY_ATTR_IPV4_DST (replicate 4 0) of
          Ok r \<Rightarrow> r | _ \<Rightarrow> (False, replicate 4 0)) in
     res_bind (GetOptionalUint8 attrs OVS_TUNNEL_KEY_ATTR_TOS) (\<lambda>(tos, htos).
     res_bind (GetOptionalUint8 attrs OVS_TUNNEL_KEY_ATTR_TTL) (\<lambda>(ttl, httl).
     res_bind (GetEmpty attrs OVS_TUNNEL_KEY_ATTR_DONT_FRAGMENT) (\<lambda>df.
     res_bind (GetEmpty attrs OVS_TUNNEL_KEY_ATTR_CSUM) (\<lambda>csum.
     res_bind (GetOptionalUint16 attrs OVS_TUNNEL_KEY_ATTR_TP_SRC) (\<lambda>(tpsrc, htpsrc).
     res_bind (GetOptionalUint16 attrs OVS_TUNNEL_KEY_ATTR_TP_DST) (\<lambda>(tpdst, htpdst).
     Ok (\<lparr>TunnelId = tid, Ipv4Src = src, Ipv4Dst = dst, Tos = tos, Ttl = ttl, Df = df,
          Csum = csum, TpSrc = uint16FromBE tpsrc, TpDst = uint16FromBE tpdst\<rparr>,
         \<lparr>pTunnelId = hid, pIpv4Src = hsrc, pIpv4Dst = hdst, pTos = htos, pTtl = httl,
          pDf = df, pCsum = csum, pTpSrc = htpsrc, pTpDst = htpdst\<rparr>)))))))))"

definition parseTunnelAttrsData :: "bytes \<Rightarrow> (TunnelAttrs \<times> TunnelAttrsPresence) res" where
  "parseTunnelAttrsData dat = res_bind (ParseNestedAttrs dat) parseTunnelAttrs"

section \<open>The encoding as attribute trees\<close>

definition ta_nlas :: "TunnelAttrs \<Rightarrow> TunnelAttrsPresence \<Rightarrow> nla list" where
  "ta_nlas ta pr = concat
     [if pTunnelId pr then [Raw OVS_TUNNEL_KEY_ATTR_ID (TunnelId ta)] else [],
      if pIpv4Src pr then [Raw OVS_TUNNEL_KEY_ATTR_IPV4_SRC (Ipv4Src ta)] else [],
      if pIpv4Dst pr then [Raw OVS_TUNNEL_KEY_ATTR_IPV4_DST (Ipv4Dst ta)] else [],
      if pTos pr then [Raw OVS_TUNNEL_KEY_ATTR_TOS [Tos ta]] else [],
      if pTtl pr then [Raw OVS_TUNNEL_KEY_ATTR_TTL [Ttl ta]] else [],
      if pDf pr \<and> Df ta then [Raw OVS_TUNNEL_KEY_ATTR_DONT_FRAGMENT []] else [],
      if pCsum pr \<and> Csum ta then [Raw OVS_TUNNEL_KEY_ATTR_CSUM []] else [],
      if pTpSrc pr then [Raw OVS_TUNNEL_KEY_ATTR_TP_SRC (enc_word 2 (uint16ToBE (TpSrc ta)))] else [],
      if pTpDst pr then [Raw OVS_TUNNEL_KEY_ATTR_TP_DST (enc_word 2 (uint16ToBE (TpDst ta)))] else []]"

lemma if_emits:
  "attr_emitter g ts \<Longrightarrow> attr_emitter (if b then g else skip_gen) (if b then ts else [])"
  by (simp add: skip_gen_emits)

interpretation tunnel_attrs: attr_emitter "ta_toNlAttrs ta pr" "ta_nlas ta pr" for ta pr
  unfolding ta_toNlAttrs_def ta_nlas_def
  by (rule seq_gens_emits) (intro list_all2_Cons [THEN iffD2] conjI if_emits put_emits list_all2_Nil [THEN iffD2] refl)

text \<open>What survives an encoding with the given presence flags.\<close>

definition ta_restrict :: "TunnelAttrs \<Rightarrow> TunnelAttrsPresence \<Rightarrow> TunnelAttrs" where
  "ta_restrict ta pr =
     \<lparr>TunnelId = (if pTunnelId pr then TunnelId ta else replicate 8 0),
      Ipv4Src = (if pIpv4Src pr then Ipv4Src ta else replicate 4 0),
      Ipv4Dst = (if pIpv4Dst pr then Ipv4Dst ta else replicate 4 0),
      Tos = (if pTos pr then Tos ta else 0),
      Ttl = (if pTtl pr then Ttl ta else 0),
      Df = (pDf pr \<and> Df ta), Csum = (pCsum pr \<and> Csum ta),
      TpSrc = (if pTpSrc pr then TpSrc ta else 0),
      TpDst = (if pTpDst pr then TpDst ta else 0)\<rparr>"

definition tap_flags :: "TunnelAttrs \<Rightarrow> TunnelAttrsPresence \<Rightarrow> TunnelAttrsPresence" where
  "tap_flags ta pr = pr\<lparr>pDf := pDf pr \<and> Df ta, pCsum := pCsum pr \<and> Csum ta\<rparr>"

lemma attrs_of_if:
  "attrs_of ((if b then [a] else []) @ ts) =
     (if b then [nla_type a \<mapsto> nla_payload a] else Map.empty) ++ attrs_of ts"
  by (simp add: attrs_of_Cons)

lemma ta_nlas_lookup:
  "attrs_of (ta_nlas ta pr) OVS_TUNNEL_KEY_ATTR_ID = (if pTunnelId pr then Some (TunnelId ta) else None)"
  "attrs_of (ta_nlas ta pr) OVS_TUNNEL_KEY_ATTR_IPV4_SRC = (if pIpv4Src pr then Some (Ipv4Src ta) else None)"
  "attrs_of (ta_nlas ta pr) OVS_TUNNEL_KEY_ATTR_IPV4_DST = (if pIpv4Dst pr then Some (Ipv4Dst ta) else None)"
  "attrs_of (ta_nlas ta pr) OVS_TUNNEL_KEY_ATTR_TOS = (if pTos pr then Some [Tos ta] else None)"
  "attrs_of (ta_nlas ta pr) OVS_TUNNEL_KEY_ATTR_TTL = (if pTtl pr then Some [Ttl ta] else None)"
  "attrs_of (ta_nlas ta pr) OVS_TUNNEL_KEY_ATTR_DONT_FRAGMENT = (if pDf pr \<and> Df ta then Some [] else None)"
  "attrs_of (ta_nlas ta pr) OVS_TUNNEL_KEY_ATTR_CSUM = (if pCsum pr \<and> Csum ta then Some [] else None)"
  "attrs_of (ta_nlas ta pr) OVS_TUNNEL_KEY_ATTR_TP_SRC =
     (if pTpSrc pr then Some (enc_word 2 (uint16ToBE (TpSrc ta))) else None)"
  "attrs_of (ta_nlas ta pr) OVS_TUNNEL_KEY_ATTR_TP_DST =
     (if pTpDst pr then Some (enc_word 2 (uint16ToBE (TpDst ta))) else None)"
  by (simp_all add: ta_nlas_def attrs_of_if attrs_of_append attrs_of_Cons map_add_def)

lemma ta_nlas_fits: "ta_wf ta \<Longrightarrow> list_all fits (ta_nlas ta pr)"
  by (simp add: ta_nlas_def ta_wf_def fits_def)

lemma uint16At_enc [simp]: "uint16At (enc_word 2 w) 0 = Ok w"
proof -
  have "read_at (enc_word 2 w) 0 2 = enc_word 2 w" by (simp add: read_at_def)
  then show ?thesis by (simp add: uint16At_def peek_def)
qed

lemma uint16FromBE_0 [simp]: "uint16FromBE 0 = 0"
  by (simp add: uint16FromBE_def enc_word_0)

lemma write_at_full: "length ys = length xs \<Longrightarrow> write_at xs 0 ys = ys"
  by (simp add: write_at_def)

lemma parseTunnelAttrs_enc:
  assumes "ta_wf ta"
  shows "parseTunnelAttrs (attrs_of (ta_nlas ta pr)) = Ok (ta_restrict ta pr, tap_flags ta pr)"
  using assms
  by (simp add: parseTunnelAttrs_def getter_defs ta_nlas_lookup ta_wf_def write_at_full
      uint16ToBE_def ta_restrict_def tap_flags_def Let_def del: ovs_consts)

lemma parseTunnelAttrsData_enc:
  assumes "ta_wf ta"
  shows "parseTunnelAttrsData (pad4 (enc_nlas (ta_nlas ta pr))) = Ok (ta_restrict ta pr, tap_flags ta pr)"
  using ParseNestedAttrs_enc [OF ta_nlas_fits [OF assms], of "pad4 (enc_nlas (ta_nlas ta pr))" pr]
  by (simp add: parseTunnelAttrsData_def parseTunnelAttrs_enc assms)

lemma ta_restrict_present_self:
  assumes "ta_wf m"
  shows "ta_restrict m (present m) = m"
  using assms by (simp add: ta_restrict_def present_def ta_wf_def AllBytes_iff)

lemma ta_restrict_wf: "ta_wf ta \<Longrightarrow> ta_wf (ta_restrict ta pr)"
  by (simp add: ta_restrict_def ta_wf_def)

lemma tap_mask_present_all:
  "pIpv4Dst pr \<Longrightarrow> pTtl pr \<Longrightarrow> present (tap_mask pr) = pr"
  by (intro TunnelAttrsPresence.equality) (simp_all add: present_def tap_mask_def)

lemma GetOptionalBytes_length:
  "GetOptionalBytes attrs t dest = Ok (b, v) \<Longrightarrow> length v = length dest"
  by (auto simp: getter_defs outcome_simps write_at_full split: option.splits if_splits)

lemma parseTunnelAttrs_wf:
  assumes "parseTunnelAttrs attrs = Ok (ta, pr)"
  shows "ta_wf ta"
proof -
  have "length (snd (case GetOptionalBytes attrs t (replicate 4 0) of Ok r \<Rightarrow> r
      | _ \<Rightarrow> (False, replicate 4 0))) = 4" for t
    using GetOptionalBytes_length [of attrs t "replicate 4 0"] by (auto split: res.split)
  with assms show ?thesis
    by (auto simp: parseTunnelAttrs_def outcome_simps ta_wf_def Let_def split_def
        dest: GetOptionalBytes_length simp del: ovs_consts)
qed

section \<open>Properties\<close>

text \<open>
  Property C22: tunnel attributes survive the wire.  From any aligned point of a message,
  \<^verbatim>\<open>toNlAttrs\<close> appends bytes from which \<^verbatim>\<open>parseTunnelAttrs\<close> recovers exactly the fields marked
  present (ports in network order included) and zero for the others; a mask encoded with its
  own \<^verbatim>\<open>present\<close> flags comes back unchanged.
\<close>

theorem tunnel_attrs_roundtrip:
  assumes "ta_wf ta" "builder_ok m" "4 dvd length (mbytes m)"
  shows "(\<exists>m' enc. ta_toNlAttrs ta pr m = Ok m' \<and> mbytes m' = mbytes m @ enc \<and>
      parseTunnelAttrsData enc = Ok (ta_restrict ta pr, tap_flags ta pr)) \<and>
    ta_restrict ta (present ta) = ta"
proof -
  obtain m' where "ta_toNlAttrs ta pr m = Ok m'" "mbytes m' = mbytes m @ enc_nlas (ta_nlas ta pr)"
    using tunnel_attrs.emits [OF assms(2), of ta pr] assms(3) by (auto simp: attach_aligned)
  moreover have "parseTunnelAttrsData (enc_nlas (ta_nlas ta pr)) = Ok (ta_restrict ta pr, tap_flags ta pr)"
    using ParseNestedAttrs_enc [OF ta_nlas_fits [OF assms(1)], of "enc_nlas (ta_nlas ta pr)" pr]
    by (simp add: parseTunnelAttrsData_def parseTunnelAttrs_enc assms(1))
  ultimately show ?thesis using ta_restrict_present_self [OF assms(1)] by blast
qed

theorem tunnel_attrs_roundtrip_witness:
  "\<exists>m' enc. ta_toNlAttrs (zero_ta\<lparr>TpDst := 4789\<rparr>) (zero_presence\<lparr>pTpDst := True\<rparr>)
      \<lparr>buf = nil_slice, allocs = (\<lambda>_. 0)\<rparr> = Ok m' \<and>
    mbytes m' = mbytes \<lparr>buf = nil_slice, allocs = (\<lambda>_. 0)\<rparr> @ enc \<and>
    parseTunnelAttrsData enc =
      Ok (ta_restrict (zero_ta\<lparr>TpDst := 4789\<rparr>) (zero_presence\<lparr>pTpDst := True\<rparr>),
          tap_flags (zero_ta\<lparr>TpDst := 4789\<rparr>) (zero_presence\<lparr>pTpDst := True\<rparr>))"
proof (rule tunnel_attrs_roundtrip [THEN conjunct1])
  show "ta_wf (zero_ta\<lparr>TpDst := 4789\<rparr>)" by (simp add: ta_wf_def zero_ta_def)
  show "builder_ok \<lparr>buf = nil_slice, allocs = (\<lambda>_. 0)\<rparr>"
    by (simp add: builder_ok_def) (simp add: nil_slice_def)
  show "4 dvd length (mbytes \<lparr>buf = nil_slice, allocs = (\<lambda>_. 0)\<rparr>)" by (simp add: mbytes_def)
qed

end
