(* ===== verification/Flow_Keys.thy ===== *)
theory Flow_Keys
  imports Tunnel_Attrs
begin

text \<open>
  Model of the single flow keys of \<^verbatim>\<open>odp/flow.go\<close>: the interface \<^verbatim>\<open>FlowKey\<close> as a datatype with one
  constructor per implementing struct, and per method one function.  The parsers of each
  kind and the table \<^verbatim>\<open>flowKeyParsers\<close> follow.

  Slices held by a key are modelled by their contents.  A nil slice is \<open>None\<close> where the code
  distinguishes it from an empty one (masks and the key handed to a parser), and empty
  elsewhere.
\<close>

definition nil_bytes :: "bytes option \<Rightarrow> bytes" where
  "nil_bytes b = (case b of None \<Rightarrow> [] | Some v \<Rightarrow> v)"

lemma nil_bytes_simps [simp]: "nil_bytes None = []" "nil_bytes (Some v) = v"
  by (simp_all add: nil_bytes_def)

section \<open>The structs\<close>

record UnknownFlowKey =
  uf_typ :: u16
  uf_key :: bytes
  uf_mask :: "bytes option"
  uf_exact :: bool

record BlobFlowKey =
  bf_typ :: u16
  keyMask :: bytes

record TunnelFlowKey =
  tf_key :: TunnelAttrs
  tf_mask :: TunnelAttrs

datatype FlowKey =
    FK_Unknown UnknownFlowKey
  | FK_Blob BlobFlowKey
  | FK_InPort BlobFlowKey
  | FK_Ethernet BlobFlowKey
  | FK_Tunnel TunnelFlowKey

section \<open>Blob keys\<close>

definition NewBlobFlowKey :: "u16 \<Rightarrow> nat \<Rightarrow> BlobFlowKey" where
  "NewBlobFlowKey t sz =
     (let km = replicate (sz * 2) 0
      in \<lparr>bf_typ = t, keyMask = take sz km @ map (\<lambda>_. 0xff) (drop sz km)\<rparr>)"

definition blob_key :: "BlobFlowKey \<Rightarrow> bytes" where
  "blob_key k = take (length (keyMask k) div 2) (keyMask k)"

definition blob_mask :: "BlobFlowKey \<Rightarrow> bytes" where
  "blob_mask k = drop (length (keyMask k) div 2) (keyMask k)"

definition blob_Ignored :: "BlobFlowKey \<Rightarrow> bool" where
  "blob_Ignored k = AllBytes (blob_mask k) 0"

text \<open>The comparison of \<^verbatim>\<open>BlobFlowKey.Equals\<close> once both sides are known to be blob keys.\<close>

definition blob_Equals :: "BlobFlowKey \<Rightarrow> BlobFlowKey \<Rightarrow> bool" where
  "blob_Equals a b =
     (if bf_typ a \<noteq> bf_typ b then False
      else if length (keyMask b) \<noteq> length (keyMask a) then False
      else (let sz = length (keyMask a) div 2;
                amask = drop sz (keyMask a); bmask = drop sz (keyMask b)
            in list_all (\<lambda>i. \<not> (amask ! i \<noteq> bmask ! i \<or>
                 ((keyMask a ! i XOR keyMask b ! i) AND amask ! i) \<noteq> 0)) [0..<length amask]))"

definition parseBlobFlowKey ::
    "u16 \<Rightarrow> bytes option \<Rightarrow> bytes option \<Rightarrow> nat \<Rightarrow> BlobFlowKey res" where
  "parseBlobFlowKey t key msk sz =
     (let m = nil_bytes msk in
      if length m \<noteq> sz then Err (MaskWrongLength t sz (length m))
      else (let km = write_at (replicate (sz * 2) 0) sz m in
        case key of
          Some k \<Rightarrow> if length k \<noteq> sz then Err (KeyWrongLength t sz (length k))
                    else Ok \<lparr>bf_typ = t, keyMask = write_at km 0 k\<rparr>
        | None \<Rightarrow> if \<not> AllBytes m 0 then Err (MaskWithoutValue t m)
                  else Ok \<lparr>bf_typ = t, keyMask = km\<rparr>))"

section \<open>The methods of the interface\<close>

fun typeId :: "FlowKey \<Rightarrow> u16" where
  "typeId (FK_Unknown k) = uf_typ k"
| "typeId (FK_Blob k) = bf_typ k"
| "typeId (FK_InPort k) = bf_typ k"
| "typeId (FK_Ethernet k) = bf_typ k"
| "typeId (FK_Tunnel k) = OVS_KEY_ATTR_TUNNEL"

fun putKeyNlAttr :: "FlowKey \<Rightarrow> generator" where
  "putKeyNlAttr (FK_Unknown k) = PutSliceAttr (uf_typ k) (uf_key k)"
| "putKeyNlAttr (FK_Blob k) = PutSliceAttr (bf_typ k) (blob_key k)"
| "putKeyNlAttr (FK_InPort k) = PutSliceAttr (bf_typ k) (blob_key k)"
| "putKeyNlAttr (FK_Ethernet k) = PutSliceAttr (bf_typ k) (blob_key k)"
| "putKeyNlAttr (FK_Tunnel k) =
     PutNestedAttrs OVS_KEY_ATTR_TUNNEL (ta_toNlAttrs (tf_key k) (present (tf_mask k)))"

text \<open>What is written and the error returned, which do not depend on each other.\<close>

fun putMaskNlAttr :: "FlowKey \<Rightarrow> generator \<times> error option" where
  "putMaskNlAttr (FK_Unknown k) =
     (if uf_exact k then (skip_gen, Some (CannotSerializeExactMask (uf_typ k)))
      else (case uf_mask k of None \<Rightarrow> skip_gen | Some m \<Rightarrow> PutSliceAttr (uf_typ k) m, None))"
| "putMaskNlAttr (FK_Blob k) = (PutSliceAttr (bf_typ k) (blob_mask k), None)"
| "putMaskNlAttr (FK_InPort k) = (PutSliceAttr (bf_typ k) (blob_mask k), None)"
| "putMaskNlAttr (FK_Ethernet k) = (PutSliceAttr (bf_typ k) (blob_mask k), None)"
| "putMaskNlAttr (FK_Tunnel k) =
     (PutNestedAttrs OVS_KEY_ATTR_TUNNEL (ta_toNlAttrs (tf_mask k) (present (tf_mask k))), None)"

definition unknown_Ignored :: "UnknownFlowKey \<Rightarrow> bool" where
  "unknown_Ignored k = (uf_mask k = None \<and> \<not> uf_exact k)"

definition tunnel_Ignored :: "TunnelFlowKey \<Rightarrow> bool" where
  "tunnel_Ignored k =
     (let m = tf_mask k in
      AllBytes (TunnelId m) 0 \<and> AllBytes (Ipv4Src m) 0 \<and> AllBytes (Ipv4Dst m) 0 \<and>
      Tos m = 0 \<and> Ttl m = 0 \<and> \<not> Csum m \<and> TpSrc m = 0 \<and> TpDst m = 0)"

fun Ignored :: "FlowKey \<Rightarrow> bool" where
  "Ignored (FK_Unknown k) = unknown_Ignored k"
| "Ignored (FK_Blob k) = blob_Ignored k"
| "Ignored (FK_InPort k) = blob_Ignored k"
| "Ignored (FK_Ethernet k) = False"
| "Ignored (FK_Tunnel k) = tunnel_Ignored k"

text \<open>The interface \<^verbatim>\<open>BlobFlowKeyish\<close>: a blob key, or a struct that embeds one.\<close>

fun toBlobFlowKey :: "FlowKey \<Rightarrow> BlobFlowKey option" where
  "toBlobFlowKey (FK_Blob k) = Some k"
| "toBlobFlowKey (FK_InPort k) = Some k"
| "toBlobFlowKey (FK_Ethernet k) = Some k"
| "toBlobFlowKey _ = None"

definition blob_Equals_key :: "BlobFlowKey \<Rightarrow> FlowKey \<Rightarrow> bool" where
  "blob_Equals_key a gb = (case toBlobFlowKey gb of None \<Rightarrow> False | Some b \<Rightarrow> blob_Equals a b)"

fun unknown_Equals :: "UnknownFlowKey \<Rightarrow> FlowKey \<Rightarrow> bool" where
  "unknown_Equals a (FK_Unknown b) =
     (if uf_typ a \<noteq> uf_typ b \<or> uf_key a \<noteq> uf_key b then False
      else if uf_exact a then uf_exact b
      else if uf_mask a = None then uf_mask b = None
      else nil_bytes (uf_mask a) = nil_bytes (uf_mask b))"
| "unknown_Equals a _ = False"

fun tunnel_Equals :: "TunnelFlowKey \<Rightarrow> FlowKey \<Rightarrow> bool" where
  "tunnel_Equals a (FK_Tunnel b) = (tf_key a = tf_key b \<and> tf_mask a = tf_mask b)"
| "tunnel_Equals a _ = False"

fun Equals :: "FlowKey \<Rightarrow> FlowKey \<Rightarrow> bool" where
  "Equals (FK_Unknown a) gb = unknown_Equals a gb"
| "Equals (FK_Blob a) gb = blob_Equals_key a gb"
| "Equals (FK_InPort a) gb = blob_Equals_key a gb"
| "Equals (FK_Ethernet a) gb = blob_Equals_key a gb"
| "Equals (FK_Tunnel a) gb = tunnel_Equals a gb"

section \<open>Building keys\<close>

definition NewInPortFlowKey :: "u32 \<Rightarrow> FlowKey" where
  "NewInPortFlowKey vport =
     (let fk = NewBlobFlowKey OVS_KEY_ATTR_IN_PORT 4
      in FK_InPort (fk\<lparr>keyMask := write_at (keyMask fk) 0 (enc_word 4 vport)\<rparr>))"

definition InPort_VportID :: "BlobFlowKey \<Rightarrow> u32 res" where
  "InPort_VportID k = uint32At (blob_key k) 0"

record OvsKeyEthernet =
  EthSrc :: bytes
  EthDst :: bytes

definition ovsKeyEthernetAt :: "bytes \<Rightarrow> nat \<Rightarrow> OvsKeyEthernet res" where
  "ovsKeyEthernetAt dat pos =
     map_res (\<lambda>h. \<lparr>EthSrc = read_at h 0 6, EthDst = read_at h 6 6\<rparr>) (peek dat pos 0 12)"

definition NewEthernetFlowKey :: BlobFlowKey where
  "NewEthernetFlowKey = NewBlobFlowKey OVS_KEY_ATTR_ETHERNET SizeofOvsKeyEthernet"

definition eth_Key :: "BlobFlowKey \<Rightarrow> OvsKeyEthernet res" where
  "eth_Key fk = ovsKeyEthernetAt (blob_key fk) 0"

definition eth_Mask :: "BlobFlowKey \<Rightarrow> OvsKeyEthernet res" where
  "eth_Mask fk = ovsKeyEthernetAt (blob_mask fk) 0"

text \<open>
  The setters store through the pointers returned by \<^verbatim>\<open>key()\<close> and \<^verbatim>\<open>mask()\<close>: six bytes at an
  offset of either half of the shared slice.
\<close>

definition eth_store :: "nat \<Rightarrow> bytes \<Rightarrow> bytes \<Rightarrow> BlobFlowKey \<Rightarrow> BlobFlowKey res" where
  "eth_store off addr msk fk =
     (let half = length (keyMask fk) div 2 in
      if half = 0 then Crash IndexOutOfRange
      else if half < off + ETH_ALEN then Crash UnsafeAccess
      else (let km = write_at (keyMask fk) off addr
            in Ok (fk\<lparr>keyMask := write_at km (half + off) msk\<rparr>)))"

definition SetMaskedEthSrc :: "bytes \<Rightarrow> bytes \<Rightarrow> BlobFlowKey \<Rightarrow> BlobFlowKey res" where
  "SetMaskedEthSrc addr msk fk = eth_store 0 addr msk fk"

definition SetEthSrc :: "bytes \<Rightarrow> BlobFlowKey \<Rightarrow> BlobFlowKey res" where
  "SetEthSrc addr fk = SetMaskedEthSrc addr [0xff, 0xff, 0xff, 0xff, 0xff, 0xff] fk"

definition SetMaskedEthDst :: "bytes \<Rightarrow> bytes \<Rightarrow> BlobFlowKey \<Rightarrow> BlobFlowKey res" where
  "SetMaskedEthDst addr msk fk = eth_store ETH_ALEN addr msk fk"

definition SetEthDst :: "bytes \<Rightarrow> BlobFlowKey \<Rightarrow> BlobFlowKey res" where
  "SetEthDst addr fk = SetMaskedEthDst addr [0xff, 0xff, 0xff, 0xff, 0xff, 0xff] fk"

definition zero_tunnel_key :: TunnelFlowKey where
  "zero_tunnel_key = \<lparr>tf_key = zero_ta, tf_mask = zero_ta\<rparr>"

definition SetTunnelId :: "bytes \<Rightarrow> TunnelFlowKey \<Rightarrow> TunnelFlowKey" where
  "SetTunnelId v fk = \<lparr>tf_key = (tf_key fk)\<lparr>TunnelId := v\<rparr>,
     tf_mask = (tf_mask fk)\<lparr>TunnelId := replicate 8 0xff\<rparr>\<rparr>"

definition SetIpv4Src :: "bytes \<Rightarrow> TunnelFlowKey \<Rightarrow> TunnelFlowKey" where
  "SetIpv4Src v fk = \<lparr>tf_key = (tf_key fk)\<lparr>Ipv4Src := v\<rparr>,
     tf_mask = (tf_mask fk)\<lparr>Ipv4Src := replicate 4 0xff\<rparr>\<rparr>"

definition SetIpv4Dst :: "bytes \<Rightarrow> TunnelFlowKey \<Rightarrow> TunnelFlowKey" where
  "SetIpv4Dst v fk = \<lparr>tf_key = (tf_key fk)\<lparr>Ipv4Dst := v\<rparr>,
     tf_mask = (tf_mask fk)\<lparr>Ipv4Dst := replicate 4 0xff\<rparr>\<rparr>"

definition SetTos :: "u8 \<Rightarrow> TunnelFlowKey \<Rightarrow> TunnelFlowKey" where
  "SetTos v fk = \<lparr>tf_key = (tf_key fk)\<lparr>Tos := v\<rparr>, tf_mask = (tf_mask fk)\<lparr>Tos := 0xff\<rparr>\<rparr>"

definition SetTtl :: "u8 \<Rightarrow> TunnelFlowKey \<Rightarrow> TunnelFlowKey" where
  "SetTtl v fk = \<lparr>tf_key = (tf_key fk)\<lparr>Ttl := v\<rparr>, tf_mask = (tf_mask fk)\<lparr>Ttl := 0xff\<rparr>\<rparr>"

definition SetDf :: "bool \<Rightarrow> TunnelFlowKey \<Rightarrow> TunnelFlowKey" where
  "SetDf v fk = \<lparr>tf_key = (tf_key fk)\<lparr>Df := v\<rparr>, tf_mask = (tf_mask fk)\<lparr>Df := True\<rparr>\<rparr>"

definition SetCsum :: "bool \<Rightarrow> TunnelFlowKey \<Rightarrow> TunnelFlowKey" where
  "SetCsum v fk = \<lparr>tf_key = (tf_key fk)\<lparr>Csum := v\<rparr>, tf_mask = (tf_mask fk)\<lparr>Csum := True\<rparr>\<rparr>"

definition SetTpSrc :: "u16 \<Rightarrow> TunnelFlowKey \<Rightarrow> TunnelFlowKey" where
  "SetTpSrc v fk = \<lparr>tf_key = (tf_key fk)\<lparr>TpSrc := v\<rparr>, tf_mask = (tf_mask fk)\<lparr>TpSrc := 0xffff\<rparr>\<rparr>"

definition SetTpDst :: "u16 \<Rightarrow> TunnelFlowKey \<Rightarrow> TunnelFlowKey" where
  "SetTpDst v fk = \<lparr>tf_key = (tf_key fk)\<lparr>TpDst := v\<rparr>, tf_mask = (tf_mask fk)\<lparr>TpDst := 0xffff\<rparr>\<rparr>"

lemmas tunnel_setters =
  SetTunnelId_def SetIpv4Src_def SetIpv4Dst_def SetTos_def SetTtl_def SetDf_def SetCsum_def
  SetTpSrc_def SetTpDst_def

section \<open>Parsing keys\<close>

record FlowKeyParser =
  parse :: "u16 \<Rightarrow> bytes option \<Rightarrow> bytes option \<Rightarrow> bool \<Rightarrow> FlowKey res"
  exactMask :: "bytes option"
  ignoreMask :: "bytes option"

definition parseUnknownFlowKey ::
    "u16 \<Rightarrow> bytes option \<Rightarrow> bytes option \<Rightarrow> bool \<Rightarrow> FlowKey res" where
  "parseUnknownFlowKey t key msk exact =
     Ok (FK_Unknown \<lparr>uf_typ = t, uf_key = nil_bytes key, uf_mask = msk, uf_exact = exact\<rparr>)"

definition blobFlowKeyParser :: "nat \<Rightarrow> (BlobFlowKey \<Rightarrow> FlowKey) \<Rightarrow> FlowKeyParser" where
  "blobFlowKeyParser sz wrap =
     \<lparr>parse = (\<lambda>t key msk exact. res_bind (parseBlobFlowKey t key msk sz) (\<lambda>bfk. Ok (wrap bfk))),
      exactMask = Some (replicate sz 0xff), ignoreMask = Some (replicate sz 0)\<rparr>"

definition parseInPortFlowKey ::
    "u16 \<Rightarrow> bytes option \<Rightarrow> bytes option \<Rightarrow> bool \<Rightarrow> FlowKey res" where
  "parseInPortFlowKey t key msk exact =
     (let msk2 = (if \<not> AllBytes (nil_bytes msk) 0xff
                   then map_option (map (\<lambda>_. 0)) msk else msk)
      in res_bind (parseBlobFlowKey t key msk2 4) (\<lambda>fk. Ok (FK_InPort fk)))"

definition parseTunnelFlowKey ::
    "u16 \<Rightarrow> bytes option \<Rightarrow> bytes option \<Rightarrow> bool \<Rightarrow> FlowKey res" where
  "parseTunnelFlowKey t key msk exact =
     res_bind (case key of None \<Rightarrow> Ok (zero_ta, zero_presence) | Some k \<Rightarrow> parseTunnelAttrsData k)
       (\<lambda>(k, kp).
     res_bind (case msk of None \<Rightarrow> Ok (tap_mask kp) | Some m \<Rightarrow> map_res fst (parseTunnelAttrsData m))
       (\<lambda>m. Ok (FK_Tunnel \<lparr>tf_key = k, tf_mask = m\<rparr>)))"

definition ethernetFlowKeyParser :: FlowKeyParser where
  "ethernetFlowKeyParser = blobFlowKeyParser SizeofOvsKeyEthernet FK_Ethernet"

definition flowKeyParsers :: "u16 \<rightharpoonup> FlowKeyParser" where
  "flowKeyParsers = map_of
     [(OVS_KEY_ATTR_PRIORITY, blobFlowKeyParser 4 FK_Blob),
      (OVS_KEY_ATTR_IN_PORT,
        \<lparr>parse = parseInPortFlowKey, exactMask = Some [0xff, 0xff, 0xff, 0xff],
         ignoreMask = Some [0, 0, 0, 0]\<rparr>),
      (OVS_KEY_ATTR_ETHERNET, ethernetFlowKeyParser),
      (OVS_KEY_ATTR_ETHERTYPE, blobFlowKeyParser 2 FK_Blob),
      (OVS_KEY_ATTR_IPV4, blobFlowKeyParser 12 FK_Blob),
      (OVS_KEY_ATTR_IPV6, blobFlowKeyParser 40 FK_Blob),
      (OVS_KEY_ATTR_TCP, blobFlowKeyParser 4 FK_Blob),
      (OVS_KEY_ATTR_UDP, blobFlowKeyParser 4 FK_Blob),
      (OVS_KEY_ATTR_ICMP, blobFlowKeyParser 2 FK_Blob),
      (OVS_KEY_ATTR_ICMPV6, blobFlowKeyParser 2 FK_Blob),
      (OVS_KEY_ATTR_ARP, blobFlowKeyParser 24 FK_Blob),
      (OVS_KEY_ATTR_ND, blobFlowKeyParser 28 FK_Blob),
      (OVS_KEY_ATTR_SKB_MARK, blobFlowKeyParser 4 FK_Blob),
      (OVS_KEY_ATTR_DP_HASH, blobFlowKeyParser 4 FK_Blob),
      (OVS_KEY_ATTR_TCP_FLAGS, blobFlowKeyParser 2 FK_Blob),
      (OVS_KEY_ATTR_RECIRC_ID, blobFlowKeyParser 4 FK_Blob),
      (OVS_KEY_ATTR_TUNNEL,
        \<lparr>parse = parseTunnelFlowKey, exactMask = None, ignoreMask = Some []\<rparr>)]"

section \<open>Encoding as attribute trees\<close>

fun key_nla :: "FlowKey \<Rightarrow> nla" where
  "key_nla (FK_Unknown k) = Raw (uf_typ k) (uf_key k)"
| "key_nla (FK_Blob k) = Raw (bf_typ k) (blob_key k)"
| "key_nla (FK_InPort k) = Raw (bf_typ k) (blob_key k)"
| "key_nla (FK_Ethernet k) = Raw (bf_typ k) (blob_key k)"
| "key_nla (FK_Tunnel k) = Nested OVS_KEY_ATTR_TUNNEL (ta_nlas (tf_key k) (present (tf_mask k)))"

fun mask_nlas :: "FlowKey \<Rightarrow> nla list" where
  "mask_nlas (FK_Unknown k) =
     (if uf_exact k then [] else case uf_mask k of None \<Rightarrow> [] | Some m \<Rightarrow> [Raw (uf_typ k) m])"
| "mask_nlas (FK_Blob k) = [Raw (bf_typ k) (blob_mask k)]"
| "mask_nlas (FK_InPort k) = [Raw (bf_typ k) (blob_mask k)]"
| "mask_nlas (FK_Ethernet k) = [Raw (bf_typ k) (blob_mask k)]"
| "mask_nlas (FK_Tunnel k) =
     [Nested OVS_KEY_ATTR_TUNNEL (ta_nlas (tf_mask k) (present (tf_mask k)))]"

interpretation put_key: attr_emitter "putKeyNlAttr k" "[key_nla k]" for k
  by (cases k) (simp_all add: put_emits PutNestedAttrs_emits tunnel_attrs.attr_emitter_axioms)

interpretation put_mask: attr_emitter "fst (putMaskNlAttr k)" "mask_nlas k" for k
  by (cases k) (simp_all add: put_emits PutNestedAttrs_emits skip_gen_emits
      tunnel_attrs.attr_emitter_axioms split: option.split)

lemma key_nla_type [simp]: "nla_type (key_nla k) = typeId k"
  by (cases k) simp_all

section \<open>What a blob key matches\<close>

text \<open>
  The kernel compares a packet field with the key under the mask.  Two blob keys of the same
  type and size are equal for \<^verbatim>\<open>Equals\<close> exactly when they match the same field values.
\<close>

definition blob_wf :: "nat \<Rightarrow> BlobFlowKey \<Rightarrow> bool" where
  "blob_wf sz k \<longleftrightarrow> length (keyMask k) = 2 * sz"

definition blob_matches :: "BlobFlowKey \<Rightarrow> bytes \<Rightarrow> bool" where
  "blob_matches k field \<longleftrightarrow> length field = length (blob_key k) \<and>
     (\<forall>i < length field. field ! i AND blob_mask k ! i = blob_key k ! i AND blob_mask k ! i)"

lemma blob_lengths: "blob_wf sz k \<Longrightarrow> length (blob_key k) = sz \<and> length (blob_mask k) = sz"
  by (simp add: blob_wf_def blob_key_def blob_mask_def)

lemma keyMask_split: "keyMask k = blob_key k @ blob_mask k"
  by (simp add: blob_key_def blob_mask_def)

lemma masked_xor_zero: "(x XOR y) AND m = 0 \<longleftrightarrow> x AND m = y AND (m :: byte)"
  by (auto simp: bit_eq_iff bit_simps)

lemma blob_Equals_iff:
  assumes "blob_wf sz a" "blob_wf sz b"
  shows "blob_Equals a b \<longleftrightarrow> bf_typ a = bf_typ b \<and>
    (\<forall>i < sz. blob_mask a ! i = blob_mask b ! i \<and>
      blob_key a ! i AND blob_mask a ! i = blob_key b ! i AND blob_mask a ! i)"
proof -
  have len: "length (keyMask a) = 2 * sz" "length (keyMask b) = 2 * sz"
    using assms by (simp_all add: blob_wf_def)
  have "keyMask a ! i = blob_key a ! i" "keyMask b ! i = blob_key b ! i" if "i < sz" for i
    using that len by (simp_all add: blob_key_def)
  with len show ?thesis
    by (auto simp: blob_Equals_def Let_def list_all_iff masked_xor_zero blob_mask_def)
qed

lemma same_matches_byte:
  fixes k k' m m' :: byte
  assumes "\<And>p. p AND m = k AND m \<longleftrightarrow> p AND m' = k' AND m'"
  shows "m = m' \<and> k AND m = k' AND m"
proof -
  have sub: "\<not> bit m n \<or> bit m' n" if eq: "\<And>p. p AND m = k AND m \<longleftrightarrow> p AND m' = k' AND m'"
    for n and k k' m m' :: byte
  proof (rule ccontr)
    assume no: "\<not> (\<not> bit m n \<or> bit m' n)"
    let ?p = "k XOR push_bit n 1"
    have n: "n < 8" using no bit_imp_le_length [of m n] by auto
    have "k AND m' = k' AND m'" using eq [of k] by simp
    moreover have "?p AND m' = k AND m'"
      by (rule bit_eqI) (use no in \<open>auto simp: bit_simps bit_1_iff\<close>)
    ultimately have "?p AND m = k AND m" using eq [of ?p] by simp
    then have "bit (?p AND m) n = bit (k AND m) n" by simp
    then show False using no n by (simp add: bit_simps bit_1_iff)
  qed
  have "m = m'"
    using sub [of m k m' k'] sub [of m' k' m k] assms by (auto simp: bit_eq_iff)
  moreover have "k AND m' = k' AND m'" using assms [of k] by simp
  ultimately show ?thesis by simp
qed

lemma blob_Equals_matches:
  assumes wf: "blob_wf sz a" "blob_wf sz b" and t: "bf_typ a = bf_typ b"
  shows "blob_Equals a b \<longleftrightarrow> (\<forall>field. blob_matches a field = blob_matches b field)"
proof
  assume "blob_Equals a b"
  then have "blob_mask a ! i = blob_mask b ! i"
    "blob_key a ! i AND blob_mask b ! i = blob_key b ! i AND blob_mask b ! i" if "i < sz" for i
    using wf that by (auto simp: blob_Equals_iff)
  then show "\<forall>field. blob_matches a field = blob_matches b field"
    using blob_lengths [OF wf(1)] blob_lengths [OF wf(2)] by (auto simp: blob_matches_def)
next
  assume same: "\<forall>field. blob_matches a field = blob_matches b field"
  have "blob_mask a ! i = blob_mask b ! i \<and>
      blob_key a ! i AND blob_mask a ! i = blob_key b ! i AND blob_mask a ! i" if i: "i < sz" for i
  proof (rule same_matches_byte)
    fix p
    have la: "length (blob_key a) = sz" and lb: "length (blob_key b) = sz"
      using blob_lengths wf by blast+
    have "blob_matches a (blob_key a)" by (simp add: blob_matches_def)
    with same have "blob_matches b (blob_key a)" by simp
    then have ab: "\<forall>j < sz. blob_key a ! j AND blob_mask b ! j = blob_key b ! j AND blob_mask b ! j"
      using la by (simp add: blob_matches_def)
    let ?f = "(blob_key a)[i := p]"
    have "blob_matches a ?f \<longleftrightarrow> p AND blob_mask a ! i = blob_key a ! i AND blob_mask a ! i"
      using i la by (auto simp: blob_matches_def nth_list_update)
    moreover have "blob_matches b ?f \<longleftrightarrow> p AND blob_mask b ! i = blob_key b ! i AND blob_mask b ! i"
      using i la lb ab by (auto simp: blob_matches_def nth_list_update)
    ultimately show "p AND blob_mask a ! i = blob_key a ! i AND blob_mask a ! i \<longleftrightarrow>
        p AND blob_mask b ! i = blob_key b ! i AND blob_mask b ! i"
      using same by simp
  qed
  then show "blob_Equals a b" unfolding blob_Equals_iff [OF wf] using t by blast
qed

lemma blob_Equals_masked:
  assumes "blob_wf sz a" "blob_wf sz b"
  shows "blob_Equals a b \<longleftrightarrow> bf_typ a = bf_typ b \<and> blob_mask a = blob_mask b \<and>
    map2 (AND) (blob_key a) (blob_mask a) = map2 (AND) (blob_key b) (blob_mask b)"
  using blob_lengths [OF assms(1)] blob_lengths [OF assms(2)]
  unfolding blob_Equals_iff [OF assms] list_eq_iff_nth_eq by auto

section \<open>Well-formed keys\<close>

text \<open>
  The kind of key the table holds for a type, with its size; \<open>fk_wf t k\<close> says that \<open>k\<close> may
  be stored under type \<open>t\<close>.
\<close>

definition blob_size :: "u16 \<rightharpoonup> nat" where
  "blob_size = map_of
     [(OVS_KEY_ATTR_PRIORITY, 4), (OVS_KEY_ATTR_ETHERTYPE, 2), (OVS_KEY_ATTR_IPV4, 12),
      (OVS_KEY_ATTR_IPV6, 40), (OVS_KEY_ATTR_TCP, 4), (OVS_KEY_ATTR_UDP, 4),
      (OVS_KEY_ATTR_ICMP, 2), (OVS_KEY_ATTR_ICMPV6, 2), (OVS_KEY_ATTR_ARP, 24),
      (OVS_KEY_ATTR_ND, 28), (OVS_KEY_ATTR_SKB_MARK, 4), (OVS_KEY_ATTR_DP_HASH, 4),
      (OVS_KEY_ATTR_TCP_FLAGS, 2), (OVS_KEY_ATTR_RECIRC_ID, 4)]"

fun fk_wf :: "u16 \<Rightarrow> FlowKey \<Rightarrow> bool" where
  "fk_wf t (FK_Unknown k) \<longleftrightarrow> uf_typ k = t \<and> flowKeyParsers t = None"
| "fk_wf t (FK_Blob k) \<longleftrightarrow> bf_typ k = t \<and> (case blob_size t of None \<Rightarrow> False | Some n \<Rightarrow> blob_wf n k)"
| "fk_wf t (FK_InPort k) \<longleftrightarrow> bf_typ k = t \<and> t = OVS_KEY_ATTR_IN_PORT \<and> blob_wf 4 k \<and>
     (AllBytes (blob_mask k) 0xff \<or> AllBytes (blob_mask k) 0)"
| "fk_wf t (FK_Ethernet k) \<longleftrightarrow> bf_typ k = t \<and> t = OVS_KEY_ATTR_ETHERNET \<and> blob_wf 12 k"
| "fk_wf t (FK_Tunnel k) \<longleftrightarrow> t = OVS_KEY_ATTR_TUNNEL \<and> ta_wf (tf_key k) \<and> ta_wf (tf_mask k)"

lemma fk_wf_typeId: "fk_wf t k \<Longrightarrow> typeId k = t"
  by (cases k) simp_all

text \<open>Case analysis on the table.\<close>

lemma flowKeyParsers_blob: "blob_size t = Some n \<Longrightarrow> flowKeyParsers t = Some (blobFlowKeyParser n FK_Blob)"
  by (auto simp: blob_size_def flowKeyParsers_def split: if_splits)

lemma flowKeyParsers_in_port:
  "flowKeyParsers OVS_KEY_ATTR_IN_PORT = Some \<lparr>parse = parseInPortFlowKey,
     exactMask = Some [0xff, 0xff, 0xff, 0xff], ignoreMask = Some [0, 0, 0, 0]\<rparr>"
  by (simp add: flowKeyParsers_def)

lemma flowKeyParsers_ethernet:
  "flowKeyParsers OVS_KEY_ATTR_ETHERNET = Some (blobFlowKeyParser 12 FK_Ethernet)"
  by (simp add: flowKeyParsers_def ethernetFlowKeyParser_def)

lemma flowKeyParsers_tunnel:
  "flowKeyParsers OVS_KEY_ATTR_TUNNEL =
     Some \<lparr>parse = parseTunnelFlowKey, exactMask = None, ignoreMask = Some []\<rparr>"
  by (simp add: flowKeyParsers_def)

lemma flowKeyParsers_cases:
  assumes "flowKeyParsers t = Some p"
  obtains (blob) n where "blob_size t = Some n" "p = blobFlowKeyParser n FK_Blob"
  | (in_port) "t = OVS_KEY_ATTR_IN_PORT" "parse p = parseInPortFlowKey"
  | (ethernet) "t = OVS_KEY_ATTR_ETHERNET" "p = blobFlowKeyParser 12 FK_Ethernet"
  | (tunnel) "t = OVS_KEY_ATTR_TUNNEL" "parse p = parseTunnelFlowKey"
proof -
  consider n where "blob_size t = Some n" | "t = OVS_KEY_ATTR_IN_PORT"
    | "t = OVS_KEY_ATTR_ETHERNET" | "t = OVS_KEY_ATTR_TUNNEL"
  proof -
    have "t \<in> fst ` set [(OVS_KEY_ATTR_PRIORITY, 4::nat), (OVS_KEY_ATTR_ETHERTYPE, 2), (OVS_KEY_ATTR_IPV4, 12),
      (OVS_KEY_ATTR_IPV6, 40), (OVS_KEY_ATTR_TCP, 4), (OVS_KEY_ATTR_UDP, 4),
      (OVS_KEY_ATTR_ICMP, 2), (OVS_KEY_ATTR_ICMPV6, 2), (OVS_KEY_ATTR_ARP, 24),
      (OVS_KEY_ATTR_ND, 28), (OVS_KEY_ATTR_SKB_MARK, 4), (OVS_KEY_ATTR_DP_HASH, 4),
      (OVS_KEY_ATTR_TCP_FLAGS, 2), (OVS_KEY_ATTR_RECIRC_ID, 4)] \<or>
      t = OVS_KEY_ATTR_IN_PORT \<or> t = OVS_KEY_ATTR_ETHERNET \<or> t = OVS_KEY_ATTR_TUNNEL"
      using assms map_of_SomeD [of _ t p] unfolding flowKeyParsers_def by fastforce
    then show thesis using that by (auto simp: blob_size_def)
  qed
  then show thesis
  proof cases
    case 1
    then show ?thesis using assms flowKeyParsers_blob that(1) by simp
  next
    case 2
    then show ?thesis using assms flowKeyParsers_in_port that(2) by simp
  next
    case 3
    then show ?thesis using assms flowKeyParsers_ethernet that(3) by simp
  next
    case 4
    then show ?thesis using assms flowKeyParsers_tunnel that(4) by simp
  qed
qed

lemma write_at_halves:
  "length m = n \<Longrightarrow> write_at (replicate (n * 2) 0) n m = replicate n 0 @ m"
  by (simp add: write_at_def)

lemma write_at_left: "length k = n \<Longrightarrow> write_at (replicate n z @ m) 0 k = k @ m"
  by (simp add: write_at_def)

lemma parseBlobFlowKey_Some [simp]:
  "length k = n \<Longrightarrow> length m = n \<Longrightarrow>
   parseBlobFlowKey t (Some k) (Some m) n = Ok \<lparr>bf_typ = t, keyMask = k @ m\<rparr>"
  by (simp add: parseBlobFlowKey_def write_at_halves write_at_left)

lemma parseBlobFlowKey_Ok:
  assumes "parseBlobFlowKey t key m n = Ok k"
  shows "bf_typ k = t" "blob_wf n k" "blob_mask k = nil_bytes m"
proof -
  obtain x where k: "k = \<lparr>bf_typ = t, keyMask = x @ nil_bytes m\<rparr>" and
    len: "length x = n" "length (nil_bytes m) = n"
    using assms
    by (auto simp: parseBlobFlowKey_def Let_def write_at_halves write_at_left split: if_splits option.splits)
  then show "bf_typ k = t" "blob_wf n k" "blob_mask k = nil_bytes m"
    by (simp_all add: blob_wf_def blob_mask_def)
qed

lemma parse_blob_wf:
  assumes "parse (blobFlowKeyParser n wrap) t key m e = Ok k"
  obtains b where "k = wrap b" "bf_typ b = t" "blob_wf n b"
  using assms that parseBlobFlowKey_Ok by (auto simp: blobFlowKeyParser_def outcome_simps)

lemma parseInPort_wf:
  assumes "parseInPortFlowKey OVS_KEY_ATTR_IN_PORT key m e = Ok k"
  shows "fk_wf OVS_KEY_ATTR_IN_PORT k"
proof -
  let ?m = "if \<not> AllBytes (nil_bytes m) 0xff then map_option (map (\<lambda>_. 0)) m else m"
  obtain b where b: "parseBlobFlowKey OVS_KEY_ATTR_IN_PORT key ?m 4 = Ok b" "k = FK_InPort b"
    using assms by (auto simp: parseInPortFlowKey_def Let_def outcome_simps)
  have "AllBytes (nil_bytes ?m) 0xff \<or> AllBytes (nil_bytes ?m) 0"
    by (cases m) (simp_all add: AllBytes_def list_all_iff)
  with b parseBlobFlowKey_Ok [OF b(1)] show ?thesis by simp
qed

lemma zero_ta_wf [simp]: "ta_wf zero_ta" "ta_wf (tap_mask pr)"
  by (simp_all add: ta_wf_def zero_ta_def tap_mask_def)

lemma parseTunnelAttrsData_wf: "parseTunnelAttrsData dat = Ok (ta, pr) \<Longrightarrow> ta_wf ta"
  by (auto simp: parseTunnelAttrsData_def outcome_simps dest: parseTunnelAttrs_wf)

lemma parseTunnelFlowKey_wf:
  "parseTunnelFlowKey t key m e = Ok k \<Longrightarrow> fk_wf OVS_KEY_ATTR_TUNNEL k"
  by (auto simp: parseTunnelFlowKey_def outcome_simps dest!: parseTunnelAttrsData_wf
      split: option.splits)

lemma parse_table_wf:
  assumes "flowKeyParsers t = Some p" "parse p t key m e = Ok k"
  shows "fk_wf t k"
  using assms(1)
proof (cases rule: flowKeyParsers_cases)
  case (blob n)
  then show ?thesis using assms(2) by (auto elim: parse_blob_wf)
next
  case in_port
  then show ?thesis using assms(2) parseInPort_wf by simp
next
  case ethernet
  then show ?thesis using assms(2) by (auto elim: parse_blob_wf)
next
  case tunnel
  then show ?thesis using assms(2) parseTunnelFlowKey_wf by simp
qed

section \<open>Equality of keys\<close>

text \<open>
  The contract callers of an \<^verbatim>\<open>Equals\<close> method rely on, and what follows from it.
\<close>

locale equality =
  fixes eq :: "'a \<Rightarrow> 'a \<Rightarrow> bool" and dom :: "'a \<Rightarrow> bool"
  assumes eq_refl: "dom a \<Longrightarrow> eq a a"
    and eq_sym: "dom a \<Longrightarrow> dom b \<Longrightarrow> eq a b \<Longrightarrow> eq b a"
    and eq_trans: "dom a \<Longrightarrow> dom b \<Longrightarrow> dom c \<Longrightarrow> eq a b \<Longrightarrow> eq b c \<Longrightarrow> eq a c"
begin

lemma eq_commute: "dom a \<Longrightarrow> dom b \<Longrightarrow> eq a b = eq b a"
  using eq_sym by blast

lemma eq_class: "dom a \<Longrightarrow> dom b \<Longrightarrow> dom c \<Longrightarrow> eq a b \<Longrightarrow> eq a c = eq b c"
  using eq_sym eq_trans by blast

end

interpretation blob_equality: equality blob_Equals "blob_wf n" for n
proof
  fix a b c :: BlobFlowKey
  show "blob_wf n a \<Longrightarrow> blob_Equals a a" by (simp add: blob_Equals_masked)
  show "blob_wf n a \<Longrightarrow> blob_wf n b \<Longrightarrow> blob_Equals a b \<Longrightarrow> blob_Equals b a"
    unfolding blob_Equals_masked by metis
  show "blob_wf n a \<Longrightarrow> blob_wf n b \<Longrightarrow> blob_wf n c \<Longrightarrow> blob_Equals a b \<Longrightarrow> blob_Equals b c \<Longrightarrow>
      blob_Equals a c"
    unfolding blob_Equals_masked by metis
qed

text \<open>The keys of a known type; for an unknown one \<^verbatim>\<open>Equals\<close> is not symmetric.\<close>

fun known_key :: "u16 \<Rightarrow> FlowKey \<Rightarrow> bool" where
  "known_key t (FK_Unknown k) = False"
| "known_key t k = fk_wf t k"

lemma known_key_cases:
  assumes "known_key t k"
  obtains (blob) n b where "k = FK_Blob b" "blob_size t = Some n" "blob_wf n b" "bf_typ b = t"
  | (in_port) b where "k = FK_InPort b" "t = OVS_KEY_ATTR_IN_PORT" "blob_wf 4 b" "bf_typ b = t"
  | (ethernet) b where "k = FK_Ethernet b" "t = OVS_KEY_ATTR_ETHERNET" "blob_wf 12 b" "bf_typ b = t"
  | (tunnel) u where "k = FK_Tunnel u" "t = OVS_KEY_ATTR_TUNNEL"
  using assms by (cases k) (auto split: option.splits)

lemma blob_size_special [simp]:
  "blob_size OVS_KEY_ATTR_IN_PORT = None" "blob_size OVS_KEY_ATTR_ETHERNET = None"
  "blob_size OVS_KEY_ATTR_TUNNEL = None"
  by (simp_all add: blob_size_def)

lemma known_key_same_kind:
  assumes "known_key t a" "known_key t b"
  obtains (blobs) n x y where "toBlobFlowKey a = Some x" "toBlobFlowKey b = Some y"
    "blob_wf n x" "blob_wf n y" "Equals a b = blob_Equals x y" "Equals b a = blob_Equals y x"
    "Ignored a = (t \<noteq> OVS_KEY_ATTR_ETHERNET \<and> blob_Ignored x)"
    "Ignored b = (t \<noteq> OVS_KEY_ATTR_ETHERNET \<and> blob_Ignored y)"
  | (tunnels) x y where "a = FK_Tunnel x" "b = FK_Tunnel y"
  using assms(1)
proof (cases rule: known_key_cases)
  case (blob n x)
  note a = this
  show ?thesis using assms(2)
  proof (cases rule: known_key_cases)
    case (blob m y)
    have "t \<noteq> OVS_KEY_ATTR_ETHERNET" using a(2) blob_size_special(2) by force
    with blob show ?thesis
      using a that(1) [of x y n] by (auto simp: blob_Equals_key_def simp del: ovs_consts)
  qed (use a in \<open>auto simp del: ovs_consts\<close>)
next
  case (in_port x)
  note a = this
  show ?thesis using assms(2)
  proof (cases rule: known_key_cases)
    case (in_port y)
    then show ?thesis using a that(1) [of x y 4] by (simp add: blob_Equals_key_def)
  qed (use a in \<open>auto simp: blob_size_def\<close>)
next
  case (ethernet x)
  note a = this
  show ?thesis using assms(2)
  proof (cases rule: known_key_cases)
    case (ethernet y)
    then show ?thesis using a that(1) [of x y 12] by (simp add: blob_Equals_key_def)
  qed (use a in \<open>auto simp: blob_size_def\<close>)
next
  case (tunnel x)
  note a = this
  show ?thesis using assms(2)
  proof (cases rule: known_key_cases)
    case (tunnel y)
    then show ?thesis using a that(2) [of x y] by simp
  qed (use a in \<open>auto simp: blob_size_def\<close>)
qed

interpretation key_equality: equality Equals "known_key t" for t
proof
  fix a b c
  assume a: "known_key t a"
  from a a show "Equals a a"
    by (cases rule: known_key_same_kind) (auto intro: blob_equality.eq_refl)
  assume b: "known_key t b" and ab: "Equals a b"
  from a b ab show "Equals b a"
    by (cases rule: known_key_same_kind) (auto intro: blob_equality.eq_sym)
  assume c: "known_key t c" and bc: "Equals b c"
  from a b show "Equals a c"
  proof (cases rule: known_key_same_kind)
    case (blobs n x y)
    from b c show ?thesis
    proof (cases rule: known_key_same_kind)
      case (blobs m y' z)
      with \<open>toBlobFlowKey b = Some y\<close> have "y' = y" by simp
      moreover have "n = m"
        using blobs(3) \<open>blob_wf n y\<close> calculation by (simp add: blob_wf_def)
      moreover have "Equals a c = blob_Equals x z"
        using a c \<open>toBlobFlowKey a = Some x\<close> blobs(2)
        by (cases a) (auto simp: blob_Equals_key_def)
      ultimately show ?thesis
        using ab bc blobs \<open>blob_wf n x\<close> \<open>Equals a b = blob_Equals x y\<close>
        by (metis blob_equality.eq_trans)
    qed (use \<open>toBlobFlowKey b = Some y\<close> in simp)
  next
    case (tunnels x y)
    then show ?thesis using b c ab bc by (cases c) auto
  qed
qed

text \<open>Equal keys are ignored together.\<close>

lemma Equals_Ignored:
  assumes "known_key t a" "known_key t b" "Equals a b"
  shows "Ignored a = Ignored b"
  using assms(1,2)
proof (cases rule: known_key_same_kind)
  case (blobs n x y)
  then have "blob_mask x = blob_mask y" using assms(3) by (simp add: blob_Equals_masked)
  then show ?thesis using blobs by (simp add: blob_Ignored_def)
next
  case (tunnels x y)
  then show ?thesis using assms(3) by (simp add: tunnel_Ignored_def)
qed

section \<open>Round trip of a single key\<close>

definition parser_for :: "u16 \<Rightarrow> FlowKeyParser" where
  "parser_for t = (case flowKeyParsers t of Some p \<Rightarrow> p
     | None \<Rightarrow> \<lparr>parse = parseUnknownFlowKey, exactMask = None, ignoreMask = None\<rparr>)"

text \<open>What parsing recovers: for a tunnel key, only the fields the mask marks present.\<close>

fun fk_norm :: "FlowKey \<Rightarrow> FlowKey" where
  "fk_norm (FK_Tunnel k) = FK_Tunnel (k\<lparr>tf_key := ta_restrict (tf_key k) (present (tf_mask k))\<rparr>)"
| "fk_norm k = k"

lemma blob_parse_roundtrip:
  assumes "blob_wf n b" "bf_typ b = t"
  shows "parseBlobFlowKey t (Some (blob_key b)) (Some (blob_mask b)) n = Ok b"
  using assms blob_lengths [OF assms(1)] keyMask_split [of b] by simp

lemma parse_roundtrip:
  assumes wf: "fk_wf t k" and ex: "\<And>u. k = FK_Unknown u \<Longrightarrow> \<not> uf_exact u \<and> uf_mask u \<noteq> None"
  obtains a where "mask_nlas k = [a]" "nla_type a = t"
    "parse (parser_for t) t (Some (nla_payload (key_nla k))) (Some (nla_payload a)) False = Ok (fk_norm k)"
proof (cases k)
  case (FK_Unknown u)
  then obtain m where m: "uf_mask u = Some m" "\<not> uf_exact u" using ex by auto
  then show thesis using that [of "Raw (uf_typ u) m"] FK_Unknown wf
    by (simp add: parser_for_def parseUnknownFlowKey_def)
next
  case (FK_Blob b)
  then obtain n where n: "blob_size t = Some n" "blob_wf n b" "bf_typ b = t"
    using wf by (auto split: option.splits)
  then show thesis using that [of "Raw (bf_typ b) (blob_mask b)"] FK_Blob
    by (simp add: parser_for_def flowKeyParsers_blob blobFlowKeyParser_def blob_parse_roundtrip)
next
  case (FK_InPort b)
  have "(if \<not> AllBytes (blob_mask b) 0xff then map_option (map (\<lambda>_. 0)) (Some (blob_mask b))
      else Some (blob_mask b)) = Some (blob_mask b)"
    using wf FK_InPort by (auto simp: AllBytes_iff map_replicate_const)
  then show thesis using that [of "Raw (bf_typ b) (blob_mask b)"] FK_InPort wf
    by (simp add: parser_for_def flowKeyParsers_in_port parseInPortFlowKey_def Let_def
        blob_parse_roundtrip del: ovs_consts)
next
  case (FK_Ethernet b)
  then show thesis using that [of "Raw (bf_typ b) (blob_mask b)"] wf
    by (simp add: parser_for_def flowKeyParsers_ethernet blobFlowKeyParser_def blob_parse_roundtrip
        del: ovs_consts)
next
  case (FK_Tunnel u)
  then show thesis
    using that [of "Nested OVS_KEY_ATTR_TUNNEL (ta_nlas (tf_mask u) (present (tf_mask u)))"] wf
    by (simp add: parser_for_def flowKeyParsers_tunnel parseTunnelFlowKey_def
        parseTunnelAttrsData_enc ta_restrict_present_self del: ovs_consts)
qed

section \<open>Properties\<close>

text \<open>
  Property C21: \<^verbatim>\<open>BlobFlowKey.Equals\<close> decides semantic equality.  Two keys of the same type and
  size are equal exactly when the kernel's masked comparison accepts the same field values for
  both, whatever their bits outside the mask are.
\<close>

theorem blob_equals_same_matches:
  assumes "blob_wf sz a" "blob_wf sz b" "bf_typ a = bf_typ b"
  shows "Equals (FK_Blob a) (FK_Blob b) \<longleftrightarrow> (\<forall>field. blob_matches a field = blob_matches b field)"
  using blob_Equals_matches [OF assms] by (simp add: blob_Equals_key_def)

theorem blob_equals_same_matches_witness:
  "Equals (FK_Blob \<lparr>bf_typ = 5, keyMask = [0x12, 0x34, 0xff, 0x0f]\<rparr>)
          (FK_Blob \<lparr>bf_typ = 5, keyMask = [0x12, 0xf4, 0xff, 0x0f]\<rparr>) \<longleftrightarrow>
   (\<forall>field. blob_matches \<lparr>bf_typ = 5, keyMask = [0x12, 0x34, 0xff, 0x0f]\<rparr> field =
            blob_matches \<lparr>bf_typ = 5, keyMask = [0x12, 0xf4, 0xff, 0x0f]\<rparr> field)"
  by (rule blob_equals_same_matches [of 2]) (simp_all add: blob_wf_def)

text \<open>
  \<^verbatim>\<open>TunnelFlowKey.Ignored\<close> does not look at the don't-fragment mask: a key that
  matches on that bit alone counts as ignored, so it is left out of every request.
\<close>

theorem df_only_key_is_ignored:
  "Ignored (FK_Tunnel (SetDf b zero_tunnel_key)) \<and> Df (tf_mask (SetDf b zero_tunnel_key))"
  by (simp add: tunnel_Ignored_def SetDf_def zero_tunnel_key_def zero_ta_def)

text \<open>
  \<^verbatim>\<open>UnknownFlowKey.Equals\<close> is not symmetric: an ignored key is equal to an exact one
  of the same value, but not the other way round.
\<close>

theorem unknown_equals_asymmetric:
  "Equals (FK_Unknown \<lparr>uf_typ = t, uf_key = k, uf_mask = None, uf_exact = False\<rparr>)
          (FK_Unknown \<lparr>uf_typ = t, uf_key = k, uf_mask = None, uf_exact = True\<rparr>) \<and>
   \<not> Equals (FK_Unknown \<lparr>uf_typ = t, uf_key = k, uf_mask = None, uf_exact = True\<rparr>)
            (FK_Unknown \<lparr>uf_typ = t, uf_key = k, uf_mask = None, uf_exact = False\<rparr>)"
  by simp

end
