(* ===== verification/Flow_Key_Sets.thy ===== *)
theory Flow_Key_Sets
  imports Flow_Keys
begin

text \<open>
  Model of \<^verbatim>\<open>FlowKeys\<close> of \<^verbatim>\<open>odp/flow.go\<close>: a map from attribute type to flow key, with its
  comparison, its encoding into a request and the parser \<^verbatim>\<open>ParseFlowKeys\<close>.

  Go leaves the order of a \<^verbatim>\<open>range\<close> over a map open and may choose it anew for every loop.
  Each such loop takes the order as a list argument; \<open>range_order\<close> says that it enumerates
  the keys of the map.  The results are shown not to depend on it.
\<close>

type_synonym FlowKeys = "u16 \<rightharpoonup> FlowKey"

definition range_order :: "'k list \<Rightarrow> ('k \<rightharpoonup> 'v) \<Rightarrow> bool" where
  "range_order ord m \<longleftrightarrow> distinct ord \<and> set ord = dom m"

section \<open>Operations\<close>

definition MakeFlowKeys :: FlowKeys where
  "MakeFlowKeys = Map.empty"

definition FlowKeys_Add :: "FlowKey \<Rightarrow> FlowKeys \<Rightarrow> FlowKeys" where
  "FlowKeys_Add k keys = keys(typeId k \<mapsto> k)"

definition FlowKeys_Equals :: "u16 list \<Rightarrow> u16 list \<Rightarrow> FlowKeys \<Rightarrow> FlowKeys \<Rightarrow> bool" where
  "FlowKeys_Equals ordA ordB a b =
     (list_all (\<lambda>id. case a id of None \<Rightarrow> True
         | Some ak \<Rightarrow> (case b id of Some bk \<Rightarrow> Equals ak bk | None \<Rightarrow> Ignored ak)) ordA \<and>
      list_all (\<lambda>id. case b id of None \<Rightarrow> True
         | Some bk \<Rightarrow> \<not> (a id = None \<and> \<not> Ignored bk)) ordB)"

text \<open>The keys a loop over the set does not skip, in its order.\<close>

definition active :: "u16 list \<Rightarrow> FlowKeys \<Rightarrow> FlowKey list" where
  "active ord fks = filter (\<lambda>k. \<not> Ignored k) (List.map_filter fks ord)"

definition defaultEthernetFlowKey :: "FlowKeys \<Rightarrow> FlowKey option" where
  "defaultEthernetFlowKey fks =
     (if fks OVS_KEY_ATTR_ETHERNET = None then Some (FK_Ethernet NewEthernetFlowKey) else None)"

definition FlowKeys_toNlAttrs :: "u16 list \<Rightarrow> u16 list \<Rightarrow> FlowKeys \<Rightarrow> generator" where
  "FlowKeys_toNlAttrs ordK ordM fks m =
     (let dflt = defaultEthernetFlowKey fks;
          genK = seq_gen (seq_gens (map putKeyNlAttr (active ordK fks)))
                   (case dflt of None \<Rightarrow> skip_gen | Some k \<Rightarrow> putKeyNlAttr k);
          genM = seq_gen (seq_gens (map (\<lambda>k. fst (putMaskNlAttr k)) (active ordM fks)))
                   (case dflt of None \<Rightarrow> skip_gen | Some k \<Rightarrow> fst (putMaskNlAttr k));
          err = fold (\<lambda>k err. case snd (putMaskNlAttr k) of None \<Rightarrow> err | Some e \<Rightarrow> Some e)
                  (active ordM fks) None
      in res_bind (PutNestedAttrs OVS_FLOW_ATTR_KEY genK m) (\<lambda>m.
         res_bind (PutNestedAttrs OVS_FLOW_ATTR_MASK genM m) (\<lambda>m.
         case err of None \<Rightarrow> Ok m | Some e \<Rightarrow> Err e)))"

fun parse_key_loop :: "Attrs \<Rightarrow> Attrs option \<Rightarrow> u16 list \<Rightarrow> FlowKeys \<Rightarrow> FlowKeys res" where
  "parse_key_loop keys masks [] r = Ok r"
| "parse_key_loop keys masks (t # ts) r =
     (case keys t of
        None \<Rightarrow> parse_key_loop keys masks ts r
      | Some key \<Rightarrow>
          (let p = parser_for t;
               (msk, exact) = (case masks of
                   None \<Rightarrow> (exactMask p, True)
                 | Some ms \<Rightarrow> (case ms t of Some m \<Rightarrow> Some m | None \<Rightarrow> ignoreMask p, False))
           in res_bind (parse p t (Some key) msk exact) (\<lambda>k.
              parse_key_loop keys masks ts (r(t \<mapsto> k)))))"

fun parse_mask_loop :: "Attrs \<Rightarrow> Attrs \<Rightarrow> u16 list \<Rightarrow> FlowKeys \<Rightarrow> FlowKeys res" where
  "parse_mask_loop keys masks [] r = Ok r"
| "parse_mask_loop keys masks (t # ts) r =
     (case masks t of
        None \<Rightarrow> parse_mask_loop keys masks ts r
      | Some m \<Rightarrow>
          (if keys t \<noteq> None then parse_mask_loop keys masks ts r
           else res_bind (parse (parser_for t) t None (Some m) False) (\<lambda>k.
                parse_mask_loop keys masks ts (r(t \<mapsto> k)))))"

definition ParseFlowKeys ::
    "u16 list \<Rightarrow> u16 list \<Rightarrow> Attrs \<Rightarrow> Attrs option \<Rightarrow> FlowKeys res" where
  "ParseFlowKeys ordK ordM keys masks =
     res_bind (parse_key_loop keys masks ordK Map.empty) (\<lambda>r.
       case masks of None \<Rightarrow> Ok r | Some ms \<Rightarrow> parse_mask_loop keys ms ordM r)"

section \<open>Parsing does not depend on the order\<close>

text \<open>The reference: what is parsed for one attribute type, if anything is.\<close>

definition flow_key_at :: "Attrs \<Rightarrow> Attrs option \<Rightarrow> u16 \<Rightarrow> FlowKey res option" where
  "flow_key_at keys masks t =
     (let p = parser_for t in
      case keys t of
        Some key \<Rightarrow> Some (case masks of
            None \<Rightarrow> parse p t (Some key) (exactMask p) True
          | Some ms \<Rightarrow> parse p t (Some key) (case ms t of Some m \<Rightarrow> Some m | None \<Rightarrow> ignoreMask p) False)
      | None \<Rightarrow> (case masks of None \<Rightarrow> None
          | Some ms \<Rightarrow> map_option (\<lambda>m. parse p t None (Some m) False) (ms t)))"

text \<open>Both loops store, for the types they do not skip, the outcome of a parse.\<close>

fun store_loop :: "('t \<Rightarrow> 'v res option) \<Rightarrow> 't list \<Rightarrow> ('t \<rightharpoonup> 'v) \<Rightarrow> ('t \<rightharpoonup> 'v) res" where
  "store_loop f [] r = Ok r"
| "store_loop f (t # ts) r = (case f t of
       None \<Rightarrow> store_loop f ts r
     | Some x \<Rightarrow> res_bind x (\<lambda>v. store_loop f ts (r(t \<mapsto> v))))"

text \<open>The loop succeeds with \<open>r'\<close> when \<open>r'\<close> holds the parsed values and agrees with \<open>r\<close> elsewhere.\<close>

definition stored :: "('t \<Rightarrow> 'v res option) \<Rightarrow> 't set \<Rightarrow> ('t \<rightharpoonup> 'v) \<Rightarrow> ('t \<rightharpoonup> 'v) \<Rightarrow> 't \<Rightarrow> bool" where
  "stored f S r r' u = (if u \<in> S \<and> f u \<noteq> None then map_option Ok (r' u) = f u else r' u = r u)"

lemma all_split: "(\<forall>u. Q u) \<longleftrightarrow> Q t \<and> (\<forall>u. u \<noteq> t \<longrightarrow> Q u)"
  by metis

lemma store_loop_iff:
  "distinct ord \<Longrightarrow> store_loop f ord r = Ok r' \<longleftrightarrow> (\<forall>u. stored f (set ord) r r' u)"
proof (induction ord arbitrary: r)
  case Nil
  then show ?case by (auto simp: stored_def)
next
  case (Cons t ord)
  then have t: "t \<notin> set ord"
    and IH: "\<And>r. store_loop f ord r = Ok r' \<longleftrightarrow> (\<forall>u. stored f (set ord) r r' u)" by auto
  have other: "stored f (set (t # ord)) r r' u = stored f (set ord) r r' u"
    "stored f (set ord) (r(t \<mapsto> v)) r' u = stored f (set ord) r r' u" if "u \<noteq> t" for u v
    using that by (auto simp: stored_def)
  show ?case
  proof (cases "f t")
    case None
    then have "stored f (set (t # ord)) r r' t = stored f (set ord) r r' t" by (simp add: stored_def)
    with other(1) have "stored f (set (t # ord)) r r' u = stored f (set ord) r r' u" for u
      by (cases "u = t") simp_all
    then show ?thesis using None IH by simp
  next
    case (Some x)
    have here: "stored f (set ord) (r(t \<mapsto> v)) r' t \<longleftrightarrow> r' t = Some v"
      "stored f (set (t # ord)) r r' t \<longleftrightarrow> map_option Ok (r' t) = Some x" for v
      using t Some by (simp_all add: stored_def)
    have "store_loop f (t # ord) r = Ok r' \<longleftrightarrow>
        (\<exists>v. x = Ok v \<and> (\<forall>u. stored f (set ord) (r(t \<mapsto> v)) r' u))"
      using Some IH by (simp add: res_bind_eq_Ok)
    also have "\<dots> \<longleftrightarrow> (\<exists>v. x = Ok v \<and> r' t = Some v) \<and> (\<forall>u. u \<noteq> t \<longrightarrow> stored f (set ord) r r' u)"
      unfolding all_split [of "stored f (set ord) (r(t \<mapsto> v)) r'" t for v] here using other(2) by (simp, blast)
    also have "\<dots> \<longleftrightarrow> (\<forall>u. stored f (set (t # ord)) r r' u)"
      unfolding all_split [of "stored f (set (t # ord)) r r'" t] here using other(1)
      by (cases "r' t") auto
    finally show ?thesis .
  qed
qed

lemma parse_key_loop_store:
  "parse_key_loop keys masks ord r =
   store_loop (\<lambda>t. if keys t = None then None else flow_key_at keys masks t) ord r"
proof (induction ord arbitrary: r)
  case (Cons t ord)
  then show ?case
    by (cases "keys t"; cases masks) (simp_all add: flow_key_at_def Let_def fun_upd_def cong: option.case_cong)
qed simp

lemma parse_mask_loop_store:
  "parse_mask_loop keys masks ord r =
   store_loop (\<lambda>t. if keys t = None then flow_key_at keys (Some masks) t else None) ord r"
proof (induction ord arbitrary: r)
  case (Cons t ord)
  then show ?case
    by (cases "keys t"; cases "masks t") (simp_all add: flow_key_at_def Let_def fun_upd_def)
qed simp

lemma flow_key_at_None:
  "flow_key_at keys masks t = None \<longleftrightarrow>
     keys t = None \<and> (case masks of None \<Rightarrow> True | Some ms \<Rightarrow> ms t = None)"
  by (auto simp: flow_key_at_def Let_def split: option.splits)

lemma parse_key_loop_iff:
  assumes "range_order ordK keys"
  shows "parse_key_loop keys masks ordK Map.empty = Ok r \<longleftrightarrow>
    (\<forall>t. if keys t = None then r t = None else map_option Ok (r t) = flow_key_at keys masks t)"
proof -
  have ordK: "distinct ordK" "t \<in> set ordK \<longleftrightarrow> keys t \<noteq> None" for t
    using assms(1) by (auto simp: range_order_def)
  show ?thesis
    unfolding parse_key_loop_store store_loop_iff [OF ordK(1)] stored_def ordK(2)
    by (rule iff_allI) (simp add: flow_key_at_None)
qed

lemma parse_mask_loop_iff:
  assumes "range_order ordM ms"
  shows "parse_mask_loop keys ms ordM r = Ok fks \<longleftrightarrow>
    (\<forall>t. if keys t = None \<and> ms t \<noteq> None
         then map_option Ok (fks t) = flow_key_at keys (Some ms) t else fks t = r t)"
proof -
  have ordM: "distinct ordM" "t \<in> set ordM \<longleftrightarrow> ms t \<noteq> None" for t
    using assms by (auto simp: range_order_def)
  show ?thesis
    unfolding parse_mask_loop_store store_loop_iff [OF ordM(1)] stored_def ordM(2)
    by (rule iff_allI) (use flow_key_at_None [of keys "Some ms"] in auto)
qed

lemma ParseFlowKeys_iff:
  assumes "range_order ordK keys" "\<And>ms. masks = Some ms \<Longrightarrow> range_order ordM ms"
  shows "ParseFlowKeys ordK ordM keys masks = Ok fks \<longleftrightarrow>
    (\<forall>t. map_option Ok (fks t) = flow_key_at keys masks t)"
proof (cases masks)
  case None
  have "(if keys t = None then fks t = None else map_option Ok (fks t) = flow_key_at keys masks t)
      = (map_option Ok (fks t) = flow_key_at keys masks t)" for t
    using flow_key_at_None [of keys masks t] None by (cases "keys t") simp_all
  then show ?thesis
    using parse_key_loop_iff [OF assms(1), of masks fks] by (simp add: ParseFlowKeys_def None)
next
  case (Some ms)
  note ordM = assms(2) [OF Some]
  have "ParseFlowKeys ordK ordM keys masks = Ok fks \<longleftrightarrow>
      (\<exists>r. parse_key_loop keys masks ordK Map.empty = Ok r \<and> parse_mask_loop keys ms ordM r = Ok fks)"
    by (simp add: ParseFlowKeys_def Some res_bind_eq_Ok)
  also have "\<dots> \<longleftrightarrow> (\<forall>t. map_option Ok (fks t) = flow_key_at keys masks t)"
  proof
    assume "\<exists>r. parse_key_loop keys masks ordK Map.empty = Ok r \<and> parse_mask_loop keys ms ordM r = Ok fks"
    then obtain r where
      r: "\<And>t. if keys t = None then r t = None else map_option Ok (r t) = flow_key_at keys masks t"
      "\<And>t. if keys t = None \<and> ms t \<noteq> None then map_option Ok (fks t) = flow_key_at keys (Some ms) t
        else fks t = r t"
      unfolding parse_key_loop_iff [OF assms(1)] parse_mask_loop_iff [OF ordM] by blast
    show "\<forall>t. map_option Ok (fks t) = flow_key_at keys masks t"
    proof
      fix t
      show "map_option Ok (fks t) = flow_key_at keys masks t"
        using r [of t] flow_key_at_None [of keys masks t] Some
        by (cases "keys t"; cases "ms t") simp_all
    qed
  next
    assume all: "\<forall>t. map_option Ok (fks t) = flow_key_at keys masks t"
    let ?r = "\<lambda>t. if keys t = None then None else fks t"
    have "fks t = None" if "keys t = None" "ms t = None" for t
    proof -
      have "flow_key_at keys masks t = None" using flow_key_at_None [of keys masks t] that Some by simp
      with spec [OF all, of t] show ?thesis by simp
    qed
    then have "parse_mask_loop keys ms ordM ?r = Ok fks"
      unfolding parse_mask_loop_iff [OF ordM] using all Some by simp
    moreover have "parse_key_loop keys masks ordK Map.empty = Ok ?r"
      unfolding parse_key_loop_iff [OF assms(1)] using all by simp
    ultimately show "\<exists>r. parse_key_loop keys masks ordK Map.empty = Ok r \<and>
        parse_mask_loop keys ms ordM r = Ok fks" by blast
  qed
  finally show ?thesis .
qed

section \<open>Comparing key sets\<close>

text \<open>What two keys stored under one type have to satisfy.\<close>

fun entry_eq :: "FlowKey option \<Rightarrow> FlowKey option \<Rightarrow> bool" where
  "entry_eq (Some a) (Some b) = Equals a b"
| "entry_eq (Some a) None = Ignored a"
| "entry_eq None (Some b) = Ignored b"
| "entry_eq None None = True"

lemma FlowKeys_Equals_iff:
  assumes "range_order ordA a" "range_order ordB b"
  shows "FlowKeys_Equals ordA ordB a b \<longleftrightarrow> (\<forall>t. entry_eq (a t) (b t))"
proof -
  have "(list_all P ordA \<and> list_all Q ordB) \<longleftrightarrow> (\<forall>t. (a t \<noteq> None \<longrightarrow> P t) \<and> (b t \<noteq> None \<longrightarrow> Q t))"
    for P Q using assms by (auto simp: range_order_def list_all_iff dom_def)
  moreover have "((a t \<noteq> None \<longrightarrow> (case a t of None \<Rightarrow> True
        | Some ak \<Rightarrow> (case b t of Some bk \<Rightarrow> Equals ak bk | None \<Rightarrow> Ignored ak))) \<and>
      (b t \<noteq> None \<longrightarrow> (case b t of None \<Rightarrow> True | Some bk \<Rightarrow> \<not> (a t = None \<and> \<not> Ignored bk))))
      \<longleftrightarrow> entry_eq (a t) (b t)" for t
    by (cases "a t"; cases "b t") simp_all
  ultimately show ?thesis unfolding FlowKeys_Equals_def by simp
qed

text \<open>
  The key sets on which the comparison is an equivalence: known types only, and no ignored
  tunnel key (two of those differ in fields that nothing matches on).
\<close>

definition comparable_keys :: "FlowKeys \<Rightarrow> bool" where
  "comparable_keys fks \<longleftrightarrow> (\<forall>t k. fks t = Some k \<longrightarrow>
     known_key t k \<and> (t = OVS_KEY_ATTR_TUNNEL \<longrightarrow> \<not> Ignored k))"

lemma comparableD:
  "comparable_keys fks \<Longrightarrow> fks t = Some k \<Longrightarrow> known_key t k"
  "comparable_keys fks \<Longrightarrow> fks OVS_KEY_ATTR_TUNNEL = Some k \<Longrightarrow> \<not> Ignored k"
  by (auto simp: comparable_keys_def)

lemma blob_typ_of_known: "known_key t k \<Longrightarrow> toBlobFlowKey k = Some b \<Longrightarrow> bf_typ b = t"
  by (cases k) simp_all

lemma blob_Ignored_iff: "blob_Ignored k \<longleftrightarrow> blob_mask k = replicate (length (blob_mask k)) 0"
  by (simp add: blob_Ignored_def AllBytes_iff)

lemma ignored_masks_out: "map2 (AND) k (replicate n 0) = replicate (min (length k) n) (0 :: byte)"
  by (induction k arbitrary: n) (auto simp: zip_Cons1 split: nat.splits, case_tac n, auto)

lemma ignored_Equals:
  assumes "known_key t a" "known_key t b" "t \<noteq> OVS_KEY_ATTR_TUNNEL" "Ignored a" "Ignored b"
  shows "Equals a b"
  using assms(1,2)
proof (cases rule: known_key_same_kind)
  case (blobs n x y)
  then have "blob_mask x = replicate n 0" "blob_mask y = replicate n 0"
    using assms(4,5) blob_lengths blob_Ignored_iff by metis+
  moreover have "bf_typ x = bf_typ y" using assms(1,2) blobs(1,2) blob_typ_of_known by metis
  ultimately show ?thesis
    using blobs blob_lengths [OF blobs(3)] blob_lengths [OF blobs(4)]
    by (simp add: blob_Equals_masked ignored_masks_out)
next
  case (tunnels x y)
  then show ?thesis using assms(1,3) by simp
qed

lemma entry_eq_trans:
  assumes "comparable_keys a" "comparable_keys b" "comparable_keys c"
    "entry_eq (a t) (b t)" "entry_eq (b t) (c t)"
  shows "entry_eq (a t) (c t)"
proof -
  note known = comparableD(1) [OF assms(1)] comparableD(1) [OF assms(2)] comparableD(1) [OF assms(3)]
  show ?thesis
  proof (cases "b t")
    case None
    show ?thesis
    proof (cases "a t"; cases "c t")
      fix x z assume xz: "a t = Some x" "c t = Some z"
      with None assms have "Ignored x" "Ignored z" by simp_all
      moreover have "t \<noteq> OVS_KEY_ATTR_TUNNEL"
        using comparableD(2) [OF assms(1)] xz(1) calculation(1) by blast
      ultimately have "Equals x z"
        using ignored_Equals [OF known(1) [OF xz(1)] known(3) [OF xz(2)]] by blast
      then show ?thesis using xz by simp
    qed (use None assms in simp_all)
  next
    case (Some y)
    note y = known(2) [OF Some]
    show ?thesis
    proof (cases "a t")
      case None
      then have "Ignored y" using assms(4) Some by simp
      with assms(5) Some None show ?thesis
        using Equals_Ignored [OF y known(3)] by (cases "c t") simp_all
    next
      case (Some x)
      note x = known(1) [OF Some]
      have xy: "Equals x y" using assms(4) Some \<open>b t = Some y\<close> by simp
      show ?thesis
      proof (cases "c t")
        case None
        then show ?thesis
          using Some \<open>b t = Some y\<close> assms(5) Equals_Ignored [OF x y xy] by simp
      next
        case (Some z)
        then show ?thesis
          using \<open>a t = Some x\<close> \<open>b t = Some y\<close> assms(5) key_equality.eq_trans [OF x y known(3) [OF Some] xy]
          by simp
      qed
    qed
  qed
qed

text \<open>A comparison with some enumeration of both sets, as the contract of an equality.\<close>

definition keys_eq :: "FlowKeys \<Rightarrow> FlowKeys \<Rightarrow> bool" where
  "keys_eq a b \<longleftrightarrow> (\<forall>t. entry_eq (a t) (b t))"

interpretation flow_keys_equality: equality keys_eq comparable_keys
proof (rule equality.intro)
  fix a b c :: FlowKeys
  assume a: "comparable_keys a"
  show "keys_eq a a" unfolding keys_eq_def
  proof
    fix t
    show "entry_eq (a t) (a t)"
      using key_equality.eq_refl [OF comparableD(1) [OF a, of t]] by (cases "a t") simp_all
  qed
  assume b: "comparable_keys b" and ab: "keys_eq a b"
  show "keys_eq b a" unfolding keys_eq_def
  proof
    fix t
    have "entry_eq (a t) (b t)" using ab unfolding keys_eq_def by blast
    then show "entry_eq (b t) (a t)"
      by (cases "a t"; cases "b t")
        (auto intro: key_equality.eq_sym comparableD(1) [OF a] comparableD(1) [OF b])
  qed
  assume c: "comparable_keys c" and bc: "keys_eq b c"
  show "keys_eq a c" unfolding keys_eq_def
  proof
    fix t
    show "entry_eq (a t) (c t)" using ab bc unfolding keys_eq_def
      by (intro entry_eq_trans [OF a b c]) (erule spec)+
  qed
qed

section \<open>Encoding key sets\<close>

definition keys_wf :: "FlowKeys \<Rightarrow> bool" where
  "keys_wf fks \<longleftrightarrow> (\<forall>t k. fks t = Some k \<longrightarrow> fk_wf t k)"

text \<open>The keys a request carries: those not ignored, and the Ethernet key in any case.\<close>

definition sent_key :: "FlowKeys \<Rightarrow> FlowKeys" where
  "sent_key fks t = (case fks t of
       Some k \<Rightarrow> if Ignored k then None else Some k
     | None \<Rightarrow> if t = OVS_KEY_ATTR_ETHERNET then Some (FK_Ethernet NewEthernetFlowKey) else None)"

definition sent_list :: "u16 list \<Rightarrow> FlowKeys \<Rightarrow> FlowKey list" where
  "sent_list ord fks = active ord fks @
     (case defaultEthernetFlowKey fks of None \<Rightarrow> [] | Some k \<Rightarrow> [k])"

fun exact_unknown :: "FlowKey \<Rightarrow> bool" where
  "exact_unknown (FK_Unknown k) = uf_exact k"
| "exact_unknown _ = False"

definition serializable :: "FlowKeys \<Rightarrow> bool" where
  "serializable fks \<longleftrightarrow> (\<forall>t k. fks t = Some k \<longrightarrow> \<not> exact_unknown k)"

definition key_trees :: "u16 list \<Rightarrow> FlowKeys \<Rightarrow> nla list" where
  "key_trees ord fks = map key_nla (sent_list ord fks)"

definition mask_trees :: "u16 list \<Rightarrow> FlowKeys \<Rightarrow> nla list" where
  "mask_trees ord fks = concat (map mask_nlas (sent_list ord fks))"

lemma new_ethernet_wf: "fk_wf OVS_KEY_ATTR_ETHERNET (FK_Ethernet NewEthernetFlowKey)"
  by (simp add: NewEthernetFlowKey_def NewBlobFlowKey_def blob_wf_def Let_def)

lemma keys_wfD: "keys_wf fks \<Longrightarrow> fks t = Some k \<Longrightarrow> fk_wf t k"
  by (simp add: keys_wf_def)

lemma sent_key_wf: "keys_wf fks \<Longrightarrow> sent_key fks t = Some k \<Longrightarrow> fk_wf t k"
  using new_ethernet_wf
  by (auto simp: sent_key_def dest: keys_wfD split: option.splits if_splits simp del: ovs_consts fk_wf.simps)

lemma sent_key_serializable: "serializable fks \<Longrightarrow> sent_key fks t = Some k \<Longrightarrow> \<not> exact_unknown k"
  by (auto simp: sent_key_def serializable_def split: option.splits if_splits)

lemma set_active: "k \<in> set (active ord fks) \<longleftrightarrow> (\<exists>t \<in> set ord. fks t = Some k) \<and> \<not> Ignored k"
  by (force simp: active_def List.map_filter_def)

lemma map_filter_types:
  assumes "\<And>t k. fks t = Some k \<Longrightarrow> typeId k = t"
  shows "map typeId (List.map_filter fks ord) = filter (\<lambda>t. fks t \<noteq> None) ord"
  using assms by (induction ord) (auto simp: List.map_filter_def)

lemma distinct_active:
  assumes "keys_wf fks" "distinct ord"
  shows "distinct (map typeId (active ord fks))"
proof -
  have "typeId k = t" if "fks t = Some k" for t k
    using keys_wfD [OF assms(1) that] by (rule fk_wf_typeId)
  then have "distinct (map typeId (List.map_filter fks ord))"
    using assms(2) map_filter_types [of fks ord] by simp
  then show ?thesis unfolding active_def by (rule distinct_map_filter)
qed

lemma typ_new_ethernet [simp]: "bf_typ NewEthernetFlowKey = OVS_KEY_ATTR_ETHERNET"
  by (simp add: NewEthernetFlowKey_def NewBlobFlowKey_def Let_def)

lemma sent_list_iff:
  assumes wf: "keys_wf fks" and ord: "range_order ord fks"
  shows "k \<in> set (sent_list ord fks) \<longleftrightarrow> sent_key fks (typeId k) = Some k"
proof -
  have tid: "fks t = Some k \<Longrightarrow> typeId k = t" for t k
    using keys_wfD [OF wf] fk_wf_typeId by blast
  have "(\<exists>t \<in> set ord. fks t = Some k) \<longleftrightarrow> fks (typeId k) = Some k"
    using ord tid by (auto simp: range_order_def dom_def)
  moreover have "k \<in> set (case defaultEthernetFlowKey fks of None \<Rightarrow> [] | Some k \<Rightarrow> [k]) \<longleftrightarrow>
      fks (typeId k) = None \<and> k = FK_Ethernet NewEthernetFlowKey"
    by (auto simp: defaultEthernetFlowKey_def simp del: ovs_consts)
  ultimately show ?thesis
    by (auto simp: sent_list_def set_active sent_key_def split: option.split simp del: ovs_consts)
qed

lemma distinct_sent_list:
  assumes wf: "keys_wf fks" and ord: "range_order ord fks"
  shows "distinct (map typeId (sent_list ord fks))"
proof -
  have "fks (typeId k) \<noteq> None" if "k \<in> set (active ord fks)" for k
    using that keys_wfD [OF wf] fk_wf_typeId by (fastforce simp: set_active)
  moreover have "distinct (map typeId (active ord fks))"
    using distinct_active [OF wf] ord by (simp add: range_order_def)
  ultimately show ?thesis
    by (force simp: sent_list_def defaultEthernetFlowKey_def simp del: ovs_consts)
qed

lemma putMask_error_iff: "snd (putMaskNlAttr k) = None \<longleftrightarrow> \<not> exact_unknown k"
  by (cases k) simp_all

lemma last_error_iff:
  "fold (\<lambda>k err. case f k of None \<Rightarrow> err | Some e \<Rightarrow> Some e) ks err = None \<longleftrightarrow>
   err = None \<and> (\<forall>k \<in> set ks. f k = None)"
  by (induction ks arbitrary: err) (auto split: option.splits)

lemma last_error_from:
  "fold (\<lambda>k err. case f k of None \<Rightarrow> err | Some e \<Rightarrow> Some e) ks err = Some e \<Longrightarrow>
   err = Some e \<or> (\<exists>k \<in> set ks. f k = Some e)"
  by (induction ks arbitrary: err) (auto split: option.splits)

lemma keys_generator_emits:
  "attr_emitter (seq_gen (seq_gens (map putKeyNlAttr (active ord fks)))
     (case defaultEthernetFlowKey fks of None \<Rightarrow> skip_gen | Some k \<Rightarrow> putKeyNlAttr k))
   (key_trees ord fks)"
proof -
  have "list_all2 attr_emitter (map putKeyNlAttr ks) (map (\<lambda>k. [key_nla k]) ks)" for ks
    by (simp add: list_all2_map1 list_all2_map2 list.rel_refl put_key.attr_emitter_axioms)
  from seq_gens_emits [OF this] have "attr_emitter (seq_gens (map putKeyNlAttr ks)) (map key_nla ks)" for ks
    by (simp add: concat_map_singleton)
  moreover have "attr_emitter (case d of None \<Rightarrow> skip_gen | Some k \<Rightarrow> putKeyNlAttr k)
      (map key_nla (case d of None \<Rightarrow> [] | Some k \<Rightarrow> [k]))" for d
    by (cases d) (simp_all add: skip_gen_emits put_key.attr_emitter_axioms)
  ultimately show ?thesis unfolding key_trees_def sent_list_def map_append by (intro seq_gen_emits)
qed

lemma masks_generator_emits:
  "attr_emitter (seq_gen (seq_gens (map (\<lambda>k. fst (putMaskNlAttr k)) (active ord fks)))
     (case defaultEthernetFlowKey fks of None \<Rightarrow> skip_gen | Some k \<Rightarrow> fst (putMaskNlAttr k)))
   (mask_trees ord fks)"
proof -
  have "list_all2 attr_emitter (map (\<lambda>k. fst (putMaskNlAttr k)) ks) (map mask_nlas ks)" for ks
    by (simp add: list_all2_map1 list_all2_map2 list.rel_refl put_mask.attr_emitter_axioms)
  note seq_gens_emits [OF this]
  moreover have "attr_emitter (case d of None \<Rightarrow> skip_gen | Some k \<Rightarrow> fst (putMaskNlAttr k))
      (concat (map mask_nlas (case d of None \<Rightarrow> [] | Some k \<Rightarrow> [k])))" for d
    by (cases d) (simp_all add: skip_gen_emits put_mask.attr_emitter_axioms)
  ultimately show ?thesis unfolding mask_trees_def sent_list_def map_append concat_append
    by (intro seq_gen_emits)
qed

definition key_set_trees :: "u16 list \<Rightarrow> u16 list \<Rightarrow> FlowKeys \<Rightarrow> nla list" where
  "key_set_trees ordK ordM fks =
     [Nested OVS_FLOW_ATTR_KEY (key_trees ordK fks), Nested OVS_FLOW_ATTR_MASK (mask_trees ordM fks)]"

lemma FlowKeys_toNlAttrs_eq:
  "FlowKeys_toNlAttrs ordK ordM fks m =
     res_bind (seq_gen
       (PutNestedAttrs OVS_FLOW_ATTR_KEY (seq_gen (seq_gens (map putKeyNlAttr (active ordK fks)))
          (case defaultEthernetFlowKey fks of None \<Rightarrow> skip_gen | Some k \<Rightarrow> putKeyNlAttr k)))
       (PutNestedAttrs OVS_FLOW_ATTR_MASK
          (seq_gen (seq_gens (map (\<lambda>k. fst (putMaskNlAttr k)) (active ordM fks)))
            (case defaultEthernetFlowKey fks of None \<Rightarrow> skip_gen | Some k \<Rightarrow> fst (putMaskNlAttr k)))) m)
     (\<lambda>m. case fold (\<lambda>k err. case snd (putMaskNlAttr k) of None \<Rightarrow> err | Some e \<Rightarrow> Some e)
            (active ordM fks) None of None \<Rightarrow> Ok m | Some e \<Rightarrow> Err e)"
  by (simp add: FlowKeys_toNlAttrs_def Let_def seq_gen_def res_bind_assoc)

lemma key_set_generator_emits:
  "attr_emitter (seq_gen
       (PutNestedAttrs OVS_FLOW_ATTR_KEY (seq_gen (seq_gens (map putKeyNlAttr (active ordK fks)))
          (case defaultEthernetFlowKey fks of None \<Rightarrow> skip_gen | Some k \<Rightarrow> putKeyNlAttr k)))
       (PutNestedAttrs OVS_FLOW_ATTR_MASK
          (seq_gen (seq_gens (map (\<lambda>k. fst (putMaskNlAttr k)) (active ordM fks)))
            (case defaultEthernetFlowKey fks of None \<Rightarrow> skip_gen | Some k \<Rightarrow> fst (putMaskNlAttr k)))))
     (key_set_trees ordK ordM fks)"
  using seq_gen_emits [OF PutNestedAttrs_emits [OF keys_generator_emits]
      PutNestedAttrs_emits [OF masks_generator_emits]]
  by (simp add: key_set_trees_def)

lemma active_serializable:
  assumes "range_order ord fks" "serializable fks"
  shows "fold (\<lambda>k err. case snd (putMaskNlAttr k) of None \<Rightarrow> err | Some e \<Rightarrow> Some e)
    (active ord fks) None = None"
  using assms unfolding last_error_iff putMask_error_iff by (auto simp: set_active serializable_def)

lemma FlowKeys_toNlAttrs_emits:
  assumes "range_order ordM fks" "serializable fks"
  shows "attr_emitter (FlowKeys_toNlAttrs ordK ordM fks) (key_set_trees ordK ordM fks)"
proof (rule attr_emitterI)
  fix m assume "builder_ok m"
  from attr_emitter.emits [OF key_set_generator_emits this, of ordK fks ordM]
  show "\<exists>m'. FlowKeys_toNlAttrs ordK ordM fks m = Ok m' \<and> builder_ok m' \<and>
      mbytes m' = attach (mbytes m) (key_set_trees ordK ordM fks)"
    unfolding FlowKeys_toNlAttrs_eq active_serializable [OF assms] by auto
qed

lemma FlowKeys_toNlAttrs_fails:
  assumes "builder_ok m" "range_order ordM fks" "fks t = Some k" "exact_unknown k"
  shows "\<exists>u. FlowKeys_toNlAttrs ordK ordM fks m = Err (CannotSerializeExactMask u)"
proof -
  let ?err = "fold (\<lambda>k err. case snd (putMaskNlAttr k) of None \<Rightarrow> err | Some e \<Rightarrow> Some e)
    (active ordM fks) None"
  have "\<not> Ignored k" using assms(4) by (cases k) (simp_all add: unknown_Ignored_def)
  then have "k \<in> set (active ordM fks)"
    using assms(2,3) by (auto simp: set_active range_order_def)
  then obtain e where e: "?err = Some e"
    using assms(4) last_error_iff [of "\<lambda>k. snd (putMaskNlAttr k)" "active ordM fks" None]
      putMask_error_iff by (cases ?err) auto
  then obtain k' where k': "snd (putMaskNlAttr k') = Some e"
    using last_error_from [OF e] by auto
  then have "\<exists>u. e = CannotSerializeExactMask u" by (cases k') (auto split: if_splits)
  then show ?thesis
    unfolding FlowKeys_toNlAttrs_eq e using attr_emitter.emits [OF key_set_generator_emits assms(1), of ordK fks ordM]
    by auto
qed

section \<open>Round trip of a key set\<close>

lemma sent_key_mask:
  assumes "keys_wf fks" "serializable fks" "sent_key fks t = Some k"
  obtains a where "mask_nlas k = [a]" "nla_type a = t"
    "parse (parser_for t) t (Some (nla_payload (key_nla k))) (Some (nla_payload a)) False = Ok (fk_norm k)"
proof (rule parse_roundtrip [OF sent_key_wf [OF assms(1,3)]])
  fix u assume u: "k = FK_Unknown u"
  have "\<not> Ignored k" using assms(3)
    by (auto simp: sent_key_def split: option.splits if_splits)
  with u sent_key_serializable [OF assms(2,3)]
  show "\<not> uf_exact u \<and> uf_mask u \<noteq> None" by (auto simp: unknown_Ignored_def)
qed

lemma key_trees_attrs:
  assumes wf: "keys_wf fks" and ord: "range_order ord fks"
  shows "attrs_of (key_trees ord fks) t = map_option (\<lambda>k. nla_payload (key_nla k)) (sent_key fks t)"
proof (cases "sent_key fks t")
  case None
  then have "t \<notin> typeId ` set (sent_list ord fks)" using sent_list_iff [OF wf ord] by fastforce
  then show ?thesis using None by (simp add: attrs_of_None key_trees_def image_image)
next
  case (Some k)
  then have t: "typeId k = t" using sent_key_wf [OF wf] fk_wf_typeId by blast
  then have "key_nla k \<in> set (key_trees ord fks)"
    using Some sent_list_iff [OF wf ord] by (simp add: key_trees_def)
  moreover have "distinct (map nla_type (key_trees ord fks))"
    using distinct_sent_list [OF wf ord] by (simp add: key_trees_def o_def)
  ultimately show ?thesis using attrs_of_member [of _ "key_nla k"] Some t by simp
qed

lemma mask_trees_attrs:
  assumes wf: "keys_wf fks" and ser: "serializable fks" and ord: "range_order ord fks"
  shows "attrs_of (mask_trees ord fks) t = map_option (\<lambda>k. nla_payload (hd (mask_nlas k))) (sent_key fks t)"
proof -
  have one: "mask_nlas k = [hd (mask_nlas k)] \<and> nla_type (hd (mask_nlas k)) = typeId k"
    if "k \<in> set (sent_list ord fks)" for k
  proof -
    have "sent_key fks (typeId k) = Some k" using that sent_list_iff [OF wf ord] by simp
    then obtain a where "mask_nlas k = [a]" "nla_type a = typeId k"
      by (rule sent_key_mask [OF wf ser])
    then show ?thesis by simp
  qed
  have "concat (map mask_nlas ks) = map (\<lambda>k. hd (mask_nlas k)) ks"
    if "\<And>k. k \<in> set ks \<Longrightarrow> mask_nlas k = [hd (mask_nlas k)]" for ks
  proof -
    have "map mask_nlas ks = map (\<lambda>k. [hd (mask_nlas k)]) ks" using that by (intro map_cong) simp_all
    then show ?thesis by (simp only: concat_map_singleton)
  qed
  then have trees: "mask_trees ord fks = map (\<lambda>k. hd (mask_nlas k)) (sent_list ord fks)"
    using one unfolding mask_trees_def by blast
  have types: "map nla_type (mask_trees ord fks) = map typeId (sent_list ord fks)"
    using one by (simp add: trees)
  show ?thesis
  proof (cases "sent_key fks t")
    case None
    then have "t \<notin> set (map typeId (sent_list ord fks))" using sent_list_iff [OF wf ord] by fastforce
    then show ?thesis using None attrs_of_None [of t] unfolding types [symmetric] by simp
  next
    case (Some k)
    then have t: "typeId k = t" using sent_key_wf [OF wf] fk_wf_typeId by blast
    then have k: "k \<in> set (sent_list ord fks)" using Some sent_list_iff [OF wf ord] by simp
    then have "hd (mask_nlas k) \<in> set (mask_trees ord fks)" by (simp add: trees)
    moreover have "distinct (map nla_type (mask_trees ord fks))"
      unfolding types using distinct_sent_list [OF wf ord] .
    ultimately show ?thesis using attrs_of_member [of _ "hd (mask_nlas k)"] Some t one [OF k] by simp
  qed
qed

text \<open>Whatever is parsed is well formed, so it can be compared, sent and parsed again.\<close>

lemma unknown_parser: "flowKeyParsers t = None \<Longrightarrow> parse (parser_for t) = parseUnknownFlowKey"
  by (simp add: parser_for_def)

lemma parser_for_wf: "parse (parser_for t) t key m e = Ok k \<Longrightarrow> fk_wf t k"
proof (cases "flowKeyParsers t")
  case None
  then show "parse (parser_for t) t key m e = Ok k \<Longrightarrow> fk_wf t k"
    by (auto simp: unknown_parser parseUnknownFlowKey_def)
next
  case (Some p)
  then show "parse (parser_for t) t key m e = Ok k \<Longrightarrow> fk_wf t k"
    using parse_table_wf [OF Some] by (simp add: parser_for_def)
qed

lemma flow_key_at_wf: "flow_key_at keys masks t = Some (Ok k) \<Longrightarrow> fk_wf t k"
  by (auto simp: flow_key_at_def Let_def intro: parser_for_wf split: option.splits)

lemma ParseFlowKeys_wf:
  assumes "range_order ordK keys" "\<And>ms. masks = Some ms \<Longrightarrow> range_order ordM ms"
    "ParseFlowKeys ordK ordM keys masks = Ok fks"
  shows "keys_wf fks"
proof -
  have at: "map_option Ok (fks t) = flow_key_at keys masks t" for t
    using ParseFlowKeys_iff [OF assms(1,2)] assms(3) by simp
  have "fk_wf t k" if "fks t = Some k" for t k
    using at [of t] that flow_key_at_wf [of keys masks t k] by simp
  then show ?thesis by (simp add: keys_wf_def)
qed

lemma ParseFlowKeys_masked_serializable:
  assumes "range_order ordK keys" "range_order ordM ms"
    "ParseFlowKeys ordK ordM keys (Some ms) = Ok fks"
  shows "serializable fks"
proof -
  have at: "map_option Ok (fks t) = flow_key_at keys (Some ms) t" for t
    using ParseFlowKeys_iff [OF assms(1), of "Some ms"] assms(2,3) by simp
  have "\<not> exact_unknown k" if "parse (parser_for t) t key m False = Ok k" for t key m k
    using that parser_for_wf [OF that]
    by (cases k) (auto simp: parseUnknownFlowKey_def parser_for_def)
  then have "\<not> exact_unknown k" if "flow_key_at keys (Some ms) t = Some (Ok k)" for t k
    using that by (auto simp: flow_key_at_def Let_def split: option.splits)
  then show ?thesis using at by (metis serializable_def option.simps(9))
qed

section \<open>Key sets as the kernel reports them\<close>

text \<open>
  A report of a key need not repeat the bytes that were sent: what the mask leaves out is the kernel's
  choice, and a tunnel key may be reported with or without the attributes of its zero fields.
\<close>

fun reported_as :: "FlowKey \<Rightarrow> bytes option \<Rightarrow> bytes option \<Rightarrow> bool" where
  "reported_as (FK_Tunnel u) key msk \<longleftrightarrow> (\<exists>pk pm.
     key = Some (pad4 (enc_nlas (ta_nlas (tf_key u) pk))) \<and> ta_restrict (tf_key u) pk = tf_key u \<and>
     msk = Some (pad4 (enc_nlas (ta_nlas (tf_mask u) pm))) \<and> ta_restrict (tf_mask u) pm = tf_mask u)"
| "reported_as k key msk \<longleftrightarrow> (\<exists>b v. toBlobFlowKey k = Some b \<and> key = Some v \<and> msk = Some (blob_mask b) \<and>
     length v = length (blob_key b) \<and> map2 (AND) v (blob_mask b) = map2 (AND) (blob_key b) (blob_mask b))"

text \<open>
  A field that no key of the flow is about may be left out, or be reported with a zero mask.  The mask
  of the in-port is never zero: the kernel sets its upper 16 bits in any case, as the comment before
  \<^verbatim>\<open>InPortFlowKey\<close> says, so that any mask but 0xffffffff means that the port is not matched.
\<close>

definition field_size :: "u16 \<rightharpoonup> nat" where
  "field_size t = (if t = OVS_KEY_ATTR_IN_PORT then Some 4 else blob_size t)"

definition wildcarded :: "u16 \<Rightarrow> bytes option \<Rightarrow> bytes option \<Rightarrow> bool" where
  "wildcarded t key msk \<longleftrightarrow> key = None \<and> msk = None \<or>
     (case field_size t of None \<Rightarrow> False | Some n \<Rightarrow>
        (case key of None \<Rightarrow> True | Some v \<Rightarrow> length v = n) \<and>
        (case msk of None \<Rightarrow> True | Some m \<Rightarrow> length m = n \<and>
           (AllBytes m 0 \<or> t = OVS_KEY_ATTR_IN_PORT \<and> \<not> AllBytes m 0xff)))"

definition reports_keys :: "FlowKeys \<Rightarrow> Attrs \<Rightarrow> Attrs \<Rightarrow> bool" where
  "reports_keys fks ks ms \<longleftrightarrow> (\<forall>t. case sent_key fks t of
       Some k \<Rightarrow> reported_as k (ks t) (ms t)
     | None \<Rightarrow> wildcarded t (ks t) (ms t))"

text \<open>The key sets that a report is read back as.\<close>

definition faithful_keys :: "FlowKeys \<Rightarrow> bool" where
  "faithful_keys fks \<longleftrightarrow> keys_wf fks \<and> comparable_keys fks \<and> fks OVS_KEY_ATTR_ETHERNET \<noteq> None \<and>
     (\<forall>k \<in> ran fks. fk_norm k = k)"

lemma faithful_keysD:
  "faithful_keys fks \<Longrightarrow> fks t = Some k \<Longrightarrow> known_key t k"
  "faithful_keys fks \<Longrightarrow> fks t = Some k \<Longrightarrow> fk_norm k = k"
  by (auto simp: faithful_keys_def ran_def dest: comparableD)

text \<open>The attributes sent are a report of the key.\<close>

lemma sent_reported_as:
  assumes "known_key t k" "fk_norm k = k" "mask_nlas k = [a]"
  shows "reported_as k (Some (nla_payload (key_nla k))) (Some (nla_payload a))"
  using assms(1)
proof (cases rule: known_key_cases)
  case (tunnel u)
  then have "ta_restrict (tf_mask u) (present (tf_mask u)) = tf_mask u"
    using assms(1) ta_restrict_present_self by simp
  moreover have "ta_restrict (tf_key u) (present (tf_mask u)) = tf_key u"
    using assms(2) tunnel(1) by (metis FlowKey.inject(5) TunnelFlowKey.select_convs(1)
      TunnelFlowKey.surjective TunnelFlowKey.update_convs(1) fk_norm.simps(1))
  ultimately show ?thesis using tunnel assms(3)
    by (auto intro!: exI [of _ "present (tf_mask u)"])
qed (use assms(3) in auto)

lemma blob_report_parsed:
  assumes "blob_wf n b" "bf_typ b = t" "length v = length (blob_key b)"
    "map2 (AND) v (blob_mask b) = map2 (AND) (blob_key b) (blob_mask b)"
  shows "parseBlobFlowKey t (Some v) (Some (blob_mask b)) n = Ok \<lparr>bf_typ = t, keyMask = v @ blob_mask b\<rparr>"
    "blob_Equals b \<lparr>bf_typ = t, keyMask = v @ blob_mask b\<rparr>"
proof -
  note len = blob_lengths [OF assms(1)]
  then show "parseBlobFlowKey t (Some v) (Some (blob_mask b)) n = Ok \<lparr>bf_typ = t, keyMask = v @ blob_mask b\<rparr>"
    using assms(3) by simp
  have wf: "blob_wf n \<lparr>bf_typ = t, keyMask = v @ blob_mask b\<rparr>" using len assms(3) by (simp add: blob_wf_def)
  have "blob_key \<lparr>bf_typ = t, keyMask = v @ blob_mask b\<rparr> = v"
    "blob_mask \<lparr>bf_typ = t, keyMask = v @ blob_mask b\<rparr> = blob_mask b"
    by (simp_all only: blob_key_def [of "\<lparr>bf_typ = t, keyMask = v @ blob_mask b\<rparr>"]
        blob_mask_def [of "\<lparr>bf_typ = t, keyMask = v @ blob_mask b\<rparr>"]) (use len assms(3) in simp_all)
  then show "blob_Equals b \<lparr>bf_typ = t, keyMask = v @ blob_mask b\<rparr>"
    unfolding blob_Equals_masked [OF assms(1) wf] using assms(2,4) by simp
qed

lemma reported_key_parsed:
  assumes k: "known_key t k" and rep: "reported_as k key msk"
    and sent: "t = OVS_KEY_ATTR_IN_PORT \<Longrightarrow> \<not> Ignored k"
  obtains v m k' where "key = Some v" "msk = Some m" "parse (parser_for t) t key msk False = Ok k'" "Equals k k'"
  using k
proof (cases rule: known_key_cases)
  case (blob n b)
  then obtain v where v: "key = Some v" "msk = Some (blob_mask b)" "length v = length (blob_key b)"
    "map2 (AND) v (blob_mask b) = map2 (AND) (blob_key b) (blob_mask b)" using rep by auto
  show thesis
    by (rule that [OF v(1,2), of "FK_Blob \<lparr>bf_typ = t, keyMask = v @ blob_mask b\<rparr>"])
      (use blob v blob_report_parsed [OF blob(3,4) v(3,4)] in
        \<open>simp_all add: parser_for_def flowKeyParsers_blob blobFlowKeyParser_def blob_Equals_key_def\<close>)
next
  case (in_port b)
  then obtain v where v: "key = Some v" "msk = Some (blob_mask b)" "length v = length (blob_key b)"
    "map2 (AND) v (blob_mask b) = map2 (AND) (blob_key b) (blob_mask b)" using rep by auto
  have "AllBytes (blob_mask b) 0xff" using k sent in_port by (auto simp: blob_Ignored_def)
  then show thesis
    by (intro that [OF v(1,2), of "FK_InPort \<lparr>bf_typ = t, keyMask = v @ blob_mask b\<rparr>"])
      (use in_port v blob_report_parsed [OF in_port(3,4) v(3,4)] in
        \<open>simp_all add: parser_for_def flowKeyParsers_in_port parseInPortFlowKey_def blob_Equals_key_def del: ovs_consts\<close>)
next
  case (ethernet b)
  then obtain v where v: "key = Some v" "msk = Some (blob_mask b)" "length v = length (blob_key b)"
    "map2 (AND) v (blob_mask b) = map2 (AND) (blob_key b) (blob_mask b)" using rep by auto
  show thesis
    by (rule that [OF v(1,2), of "FK_Ethernet \<lparr>bf_typ = t, keyMask = v @ blob_mask b\<rparr>"])
      (use ethernet v blob_report_parsed [OF ethernet(3,4) v(3,4)] in
        \<open>simp_all add: parser_for_def flowKeyParsers_ethernet blobFlowKeyParser_def blob_Equals_key_def del: ovs_consts\<close>)
next
  case (tunnel u)
  then obtain pk pm where p: "key = Some (pad4 (enc_nlas (ta_nlas (tf_key u) pk)))" "ta_restrict (tf_key u) pk = tf_key u"
    "msk = Some (pad4 (enc_nlas (ta_nlas (tf_mask u) pm)))" "ta_restrict (tf_mask u) pm = tf_mask u"
    using rep by auto
  show thesis
    by (rule that [OF p(1,3), of "FK_Tunnel u"])
      (use tunnel k p in \<open>simp_all add: parser_for_def flowKeyParsers_tunnel parseTunnelFlowKey_def
        parseTunnelAttrsData_enc del: ovs_consts\<close>)
qed

lemma map_zero: "map (\<lambda>_. 0) m = replicate (length m) 0"
  by (simp add: map_replicate_const)

lemma parse_wildcard:
  assumes "(case key of None \<Rightarrow> True | Some v \<Rightarrow> length v = n)" "length m = n" "AllBytes m 0"
  obtains b where "parseBlobFlowKey t key (Some m) n = Ok b" "bf_typ b = t" "blob_wf n b" "blob_Ignored b"
proof -
  obtain b where b: "parseBlobFlowKey t key (Some m) n = Ok b"
    using assms by (cases key) (auto simp: parseBlobFlowKey_def Let_def)
  have "blob_Ignored b" unfolding blob_Ignored_def parseBlobFlowKey_Ok(3) [OF b] using assms(3) by simp
  with b parseBlobFlowKey_Ok [OF b] show thesis by (intro that)
qed

lemma wildcarded_parsed:
  assumes "wildcarded t (ks t) (ms t)"
  shows "flow_key_at ks (Some ms) t = None \<or>
    (\<exists>k. flow_key_at ks (Some ms) t = Some (Ok k) \<and> known_key t k \<and> Ignored k \<and> t \<noteq> OVS_KEY_ATTR_TUNNEL)"
proof (cases "ks t = None \<and> ms t = None")
  case True
  then show ?thesis by (simp add: flow_key_at_def Let_def)
next
  case False
  then obtain n where n: "field_size t = Some n" and key: "case ks t of None \<Rightarrow> True | Some v \<Rightarrow> length v = n"
    and msk: "\<And>m. ms t = Some m \<Longrightarrow> length m = n \<and> (AllBytes m 0 \<or> t = OVS_KEY_ATTR_IN_PORT \<and> \<not> AllBytes m 0xff)"
    using assms by (auto simp: wildcarded_def split: option.splits)
  let ?m = "case ms t of Some m \<Rightarrow> Some m | None \<Rightarrow> ignoreMask (parser_for t)"
  have at: "flow_key_at ks (Some ms) t = Some (parse (parser_for t) t (ks t) ?m False)"
    using False by (auto simp: flow_key_at_def Let_def split: option.splits)
  show ?thesis
  proof (cases "t = OVS_KEY_ATTR_IN_PORT")
    case True
    then have "n = 4" using n by (simp add: field_size_def)
    then obtain m where m: "?m = Some m" "length m = 4" "AllBytes m 0 \<or> \<not> AllBytes m 0xff"
      using msk True by (cases "ms t") (auto simp: parser_for_def flowKeyParsers_in_port simp del: ovs_consts)
    obtain z where z: "(if \<not> AllBytes (nil_bytes (Some m)) 0xff then map_option (map (\<lambda>_. 0)) (Some m) else Some m) = Some z"
      "length z = 4" "AllBytes z 0"
      using m(2,3) by (cases "AllBytes m 0xff") (auto simp: map_zero)
    obtain b where b: "parseBlobFlowKey t (ks t) (Some z) 4 = Ok b" "bf_typ b = t" "blob_wf 4 b" "blob_Ignored b"
      using key z(2,3) \<open>n = 4\<close> by (auto intro: parse_wildcard [where t = t and key = "ks t" and n = 4 and m = z])
    have "parse (parser_for t) t (ks t) (Some m) False = Ok (FK_InPort b)"
      using b(1) z(1) True by (simp add: parser_for_def flowKeyParsers_in_port parseInPortFlowKey_def del: ovs_consts)
    then show ?thesis using at m(1) b(2-4) True by (auto simp: blob_Ignored_def)
  next
    case False
    then have n: "blob_size t = Some n" using n by (simp add: field_size_def)
    then obtain m where m: "?m = Some m" "length m = n" "AllBytes m 0"
      using msk False by (cases "ms t") (auto simp: parser_for_def flowKeyParsers_blob blobFlowKeyParser_def simp del: ovs_consts)
    obtain b where b: "parseBlobFlowKey t (ks t) (Some m) n = Ok b" "bf_typ b = t" "blob_wf n b" "blob_Ignored b"
      by (rule parse_wildcard [OF key m(2,3)])
    moreover have "t \<noteq> OVS_KEY_ATTR_TUNNEL" using n blob_size_special(3) by force
    ultimately show ?thesis using at m(1) n
      by (auto simp: parser_for_def flowKeyParsers_blob blobFlowKeyParser_def simp del: ovs_consts)
  qed
qed

text \<open>Whatever form the report has, the key set read from it equals the one that was sent.\<close>

lemma reported_entry:
  assumes f: "faithful_keys fks" and rep: "reports_keys fks ks ms"
  shows "\<exists>e. map_option Ok e = flow_key_at ks (Some ms) t \<and> entry_eq (fks t) e"
proof (cases "sent_key fks t")
  case None
  then have "fks t = None \<or> (\<exists>k. fks t = Some k \<and> Ignored k)"
    by (auto simp: sent_key_def split: option.splits if_splits)
  moreover have "wildcarded t (ks t) (ms t)" using rep None by (auto simp: reports_keys_def split: option.splits dest: spec [of _ t])
  moreover have "entry_eq (fks t) (Some k)" if "known_key t k" "Ignored k" "t \<noteq> OVS_KEY_ATTR_TUNNEL" for k
    using that calculation(1) ignored_Equals [OF faithful_keysD(1) [OF f] that(1)] by auto
  ultimately show ?thesis using wildcarded_parsed [of t ks ms] by (auto intro: exI [of _ None] exI [of _ "Some _"])
next
  case (Some k)
  then have k: "fks t = Some k" "\<not> Ignored k"
    using f by (auto simp: sent_key_def faithful_keys_def split: option.splits if_splits)
  have "reported_as k (ks t) (ms t)" using rep Some by (auto simp: reports_keys_def split: option.splits dest: spec [of _ t])
  then obtain v m k' where "ks t = Some v" "ms t = Some m" "parse (parser_for t) t (ks t) (ms t) False = Ok k'" "Equals k k'"
    by (rule reported_key_parsed [OF faithful_keysD(1) [OF f k(1)]]) (use k(2) in blast)
  then show ?thesis using k(1) by (intro exI [of _ "Some k'"]) (simp add: flow_key_at_def Let_def)
qed

lemma ParseFlowKeys_reported:
  assumes "faithful_keys fks" "reports_keys fks ks ms" "range_order ordK ks" "range_order ordM ms"
  obtains fks' where "ParseFlowKeys ordK ordM ks (Some ms) = Ok fks'" "keys_eq fks fks'"
proof -
  from reported_entry [OF assms(1,2)]
  obtain fks' where "\<And>t. map_option Ok (fks' t) = flow_key_at ks (Some ms) t \<and> entry_eq (fks t) (fks' t)" by metis
  with that [of fks'] ParseFlowKeys_iff [OF assms(3), of "Some ms" ordM fks'] assms(4)
  show thesis by (simp add: keys_eq_def)
qed

lemma sent_keys_reported:
  assumes f: "faithful_keys fks" and ser: "serializable fks" and ord: "range_order ordK fks" "range_order ordM fks"
  shows "reports_keys fks (attrs_of (key_trees ordK fks)) (attrs_of (mask_trees ordM fks))"
  unfolding reports_keys_def
proof
  fix t
  have wf: "keys_wf fks" using f by (simp add: faithful_keys_def)
  note attrs = key_trees_attrs [OF wf ord(1), of t] mask_trees_attrs [OF wf ser ord(2), of t]
  show "case sent_key fks t of Some k \<Rightarrow> reported_as k (attrs_of (key_trees ordK fks) t) (attrs_of (mask_trees ordM fks) t)
    | None \<Rightarrow> wildcarded t (attrs_of (key_trees ordK fks) t) (attrs_of (mask_trees ordM fks) t)"
  proof (cases "sent_key fks t")
    case None
    then show ?thesis using attrs by (simp add: wildcarded_def)
  next
    case (Some k)
    then have k: "fks t = Some k" using f by (auto simp: sent_key_def faithful_keys_def split: option.splits if_splits)
    obtain a where a: "mask_nlas k = [a]" using sent_key_mask [OF wf ser Some] by blast
    show ?thesis using attrs Some a sent_reported_as [OF faithful_keysD(1) [OF f k] faithful_keysD(2) [OF f k] a]
      by simp
  qed
qed

section \<open>Properties\<close>

text \<open>
  Property C9: \<^verbatim>\<open>ParseFlowKeys\<close> does not depend on the order in which Go ranges over the two maps.
  For all orders it succeeds with a given set exactly when, at every attribute type, the set
  holds what the parser of that type makes of the key and mask found there; what it returns is
  well formed.
\<close>

theorem ParseFlowKeys_reference:
  assumes "range_order ordK keys" "\<And>ms. masks = Some ms \<Longrightarrow> range_order ordM ms"
  shows "(ParseFlowKeys ordK ordM keys masks = Ok fks \<longleftrightarrow>
      (\<forall>t. map_option Ok (fks t) = flow_key_at keys masks t)) \<and>
    (ParseFlowKeys ordK ordM keys masks = Ok fks \<longrightarrow> keys_wf fks)"
  using ParseFlowKeys_iff [OF assms] ParseFlowKeys_wf [OF assms] by blast

theorem ParseFlowKeys_reference_witness:
  "ParseFlowKeys [6] [] [6 \<mapsto> [8, 0]] None =
     Ok [6 \<mapsto> FK_Blob \<lparr>bf_typ = 6, keyMask = [8, 0, 0xff, 0xff]\<rparr>]"
proof -
  let ?fks = "[6 \<mapsto> FK_Blob \<lparr>bf_typ = 6, keyMask = [8, 0, 0xff, 0xff]\<rparr>] :: FlowKeys"
  have p: "flowKeyParsers 6 = Some (blobFlowKeyParser 2 FK_Blob)" by (simp add: flowKeyParsers_def)
  have "map_option Ok (?fks t) = flow_key_at [6 \<mapsto> [8, 0]] None t" for t
    by (cases "t = 6") (simp_all add: flow_key_at_def parser_for_def p blobFlowKeyParser_def numeral_2_eq_2)
  then show ?thesis
    using ParseFlowKeys_reference [of "[6]" "[6 \<mapsto> [8, 0]]" None "[]" ?fks]
    by (simp add: range_order_def)
qed

text \<open>
  \<^verbatim>\<open>FlowKeys.Equals\<close> does not depend on the iteration orders and is an equivalence on
  the key sets of known types without an ignored tunnel key: reflexive, symmetric and
  transitive.
\<close>

theorem FlowKeys_Equals_equivalence:
  assumes "comparable_keys a" "comparable_keys b" "comparable_keys c"
    "range_order oa a" "range_order ob b" "range_order oc c"
    "range_order oa' a" "range_order ob' b" "range_order oc' c"
  shows "FlowKeys_Equals oa oa' a a \<and>
    FlowKeys_Equals oa ob a b = FlowKeys_Equals ob' oa' b a \<and>
    (FlowKeys_Equals oa ob a b \<longrightarrow> FlowKeys_Equals ob' oc b c \<longrightarrow> FlowKeys_Equals oa' oc' a c)"
proof -
  have eq: "FlowKeys_Equals ox oy x y = keys_eq x y" if "range_order ox x" "range_order oy y" for ox oy x y
    using FlowKeys_Equals_iff [OF that] by (simp add: keys_eq_def)
  show ?thesis
    unfolding eq [OF assms(4,7)] eq [OF assms(4,5)] eq [OF assms(8,7)] eq [OF assms(8,6)] eq [OF assms(7,9)]
    using flow_keys_equality.eq_refl [OF assms(1)] flow_keys_equality.eq_commute [OF assms(1,2)]
      flow_keys_equality.eq_trans [OF assms(1-3)] by blast
qed

theorem FlowKeys_Equals_equivalence_witness:
  "FlowKeys_Equals [3] [] [3 \<mapsto> NewInPortFlowKey 7] Map.empty =
   FlowKeys_Equals [] [3] Map.empty [3 \<mapsto> NewInPortFlowKey 7]"
proof -
  have "comparable_keys [3 \<mapsto> NewInPortFlowKey 7]"
    by (simp add: comparable_keys_def NewInPortFlowKey_def NewBlobFlowKey_def Let_def blob_wf_def
        blob_mask_def write_at_def map_replicate_const)
  then show ?thesis
    using FlowKeys_Equals_equivalence [of "[3 \<mapsto> NewInPortFlowKey 7]" Map.empty Map.empty
        "[3]" "[]" "[]" "[3]" "[]" "[]"]
    by (simp add: comparable_keys_def range_order_def)
qed

text \<open>
  A key set without an Ethernet key is sent with one that matches the all-zero
  source and destination addresses exactly, although the comment in \<^verbatim>\<open>toNlAttrs\<close> speaks of a
  wildcarded key.
\<close>

theorem default_ethernet_key_is_exact:
  assumes "fks OVS_KEY_ATTR_ETHERNET = None"
  shows "\<exists>k. defaultEthernetFlowKey fks = Some (FK_Ethernet k) \<and>
    (\<forall>field. blob_matches k field \<longleftrightarrow> field = replicate 12 0)"
proof -
  have "blob_key NewEthernetFlowKey = replicate 12 0" "blob_mask NewEthernetFlowKey = replicate 12 0xff"
    by (simp_all add: NewEthernetFlowKey_def NewBlobFlowKey_def Let_def blob_key_def blob_mask_def
        map_replicate_const)
  moreover have "b AND 0xff = b" for b :: byte
    using take_bit_word_eq_self [of 8 b] by (simp add: take_bit_eq_mask mask_eq_exp_minus_1)
  ultimately have "blob_matches NewEthernetFlowKey field \<longleftrightarrow> field = replicate 12 0" for field
    by (auto simp: blob_matches_def list_eq_iff_nth_eq)
  then show ?thesis using assms by (simp add: defaultEthernetFlowKey_def del: ovs_consts)
qed

theorem default_ethernet_key_is_exact_witness:
  "\<exists>k. defaultEthernetFlowKey MakeFlowKeys = Some (FK_Ethernet k) \<and>
    (\<forall>field. blob_matches k field \<longleftrightarrow> field = replicate 12 0)"
  by (rule default_ethernet_key_is_exact) (simp add: MakeFlowKeys_def)

end
