(* ===== verification/Flow_Actions.thy ===== *)
theory Flow_Actions
  imports Flow_Key_Sets
begin

text \<open>
  Model of the actions of \<^verbatim>\<open>odp/flow.go\<close>: the interface \<^verbatim>\<open>Action\<close> as a datatype, its methods, the
  setters of a tunnel action and the parsers of \<^verbatim>\<open>actionParsers\<close>, with the workaround for the
  encoding bug of kernel 4.3.
\<close>

datatype Action =
    OutputAction u32
  | SetTunnelAction TunnelAttrs TunnelAttrsPresence
  | SetUnknownAction u16 bytes

section \<open>Methods\<close>

fun action_typeId :: "Action \<Rightarrow> u16" where
  "action_typeId (OutputAction v) = OVS_ACTION_ATTR_OUTPUT"
| "action_typeId (SetTunnelAction ta pr) = OVS_ACTION_ATTR_SET"
| "action_typeId (SetUnknownAction t d) = t"

text \<open>The presence flags a tunnel action is encoded with.\<close>

definition sta_present :: "TunnelAttrs \<Rightarrow> TunnelAttrsPresence \<Rightarrow> TunnelAttrsPresence" where
  "sta_present ta pr = pr\<lparr>pDf := Df ta, pCsum := Csum ta\<rparr>"

fun action_toNlAttr :: "Action \<Rightarrow> generator" where
  "action_toNlAttr (OutputAction v) = PutUint32Attr OVS_ACTION_ATTR_OUTPUT v"
| "action_toNlAttr (SetTunnelAction ta pr) =
     PutNestedAttrs OVS_ACTION_ATTR_SET
       (PutNestedAttrs OVS_KEY_ATTR_TUNNEL (ta_toNlAttrs ta (sta_present ta pr)))"
| "action_toNlAttr (SetUnknownAction t d) = PutSliceAttr t d"

fun action_Equals :: "Action \<Rightarrow> Action \<Rightarrow> bool" where
  "action_Equals (OutputAction a) (OutputAction b) = (a = b)"
| "action_Equals (SetTunnelAction a pa) (SetTunnelAction b pb) = (a = b)"
| "action_Equals (SetUnknownAction t d) (SetUnknownAction u e) = (t = u \<and> d = e)"
| "action_Equals _ _ = False"

definition NewOutputAction :: "u32 \<Rightarrow> Action" where
  "NewOutputAction vport = OutputAction vport"

text \<open>The setters of \<^verbatim>\<open>SetTunnelAction\<close>, on the pair of its fields.\<close>

type_synonym SetTunnel = "TunnelAttrs \<times> TunnelAttrsPresence"

definition act_SetTunnelId :: "bytes \<Rightarrow> SetTunnel \<Rightarrow> SetTunnel" where
  "act_SetTunnelId v = (\<lambda>(ta, pr). (ta\<lparr>TunnelId := v\<rparr>, pr\<lparr>pTunnelId := True\<rparr>))"

definition act_SetIpv4Src :: "bytes \<Rightarrow> SetTunnel \<Rightarrow> SetTunnel" where
  "act_SetIpv4Src v = (\<lambda>(ta, pr). (ta\<lparr>Ipv4Src := v\<rparr>, pr\<lparr>pIpv4Src := True\<rparr>))"

definition act_SetIpv4Dst :: "bytes \<Rightarrow> SetTunnel \<Rightarrow> SetTunnel" where
  "act_SetIpv4Dst v = (\<lambda>(ta, pr). (ta\<lparr>Ipv4Dst := v\<rparr>, pr\<lparr>pIpv4Dst := True\<rparr>))"

definition act_SetTos :: "u8 \<Rightarrow> SetTunnel \<Rightarrow> SetTunnel" where
  "act_SetTos v = (\<lambda>(ta, pr). (ta\<lparr>Tos := v\<rparr>, pr\<lparr>pTos := True\<rparr>))"

definition act_SetTtl :: "u8 \<Rightarrow> SetTunnel \<Rightarrow> SetTunnel" where
  "act_SetTtl v = (\<lambda>(ta, pr). (ta\<lparr>Ttl := v\<rparr>, pr\<lparr>pTtl := True\<rparr>))"

definition act_SetDf :: "bool \<Rightarrow> SetTunnel \<Rightarrow> SetTunnel" where
  "act_SetDf v = (\<lambda>(ta, pr). (ta\<lparr>Df := v\<rparr>, pr\<lparr>pDf := True\<rparr>))"

definition act_SetCsum :: "bool \<Rightarrow> SetTunnel \<Rightarrow> SetTunnel" where
  "act_SetCsum v = (\<lambda>(ta, pr). (ta\<lparr>Csum := v\<rparr>, pr\<lparr>pCsum := True\<rparr>))"

definition act_SetTpSrc :: "u16 \<Rightarrow> SetTunnel \<Rightarrow> SetTunnel" where
  "act_SetTpSrc v = (\<lambda>(ta, pr). (ta\<lparr>TpSrc := v\<rparr>, pr\<lparr>pTpSrc := True\<rparr>))"

definition act_SetTpDst :: "u16 \<Rightarrow> SetTunnel \<Rightarrow> SetTunnel" where
  "act_SetTpDst v = (\<lambda>(ta, pr). (ta\<lparr>TpDst := v\<rparr>, pr\<lparr>pTpDst := True\<rparr>))"

lemmas act_setters =
  act_SetTunnelId_def act_SetIpv4Src_def act_SetIpv4Dst_def act_SetTos_def act_SetTtl_def
  act_SetDf_def act_SetCsum_def act_SetTpSrc_def act_SetTpDst_def

section \<open>Parsing\<close>

text \<open>
  A choice of iteration order for each map: \<open>ranger\<close> is applied where the code ranges over a
  map it has just parsed.
\<close>

type_synonym ranger = "Attrs \<Rightarrow> u16 list"

definition range_ok :: "ranger \<Rightarrow> bool" where
  "range_ok rng \<longleftrightarrow> (\<forall>m. range_order (rng m) m)"

definition parseOutputAction :: "u16 \<Rightarrow> bytes \<Rightarrow> Action res" where
  "parseOutputAction t dat =
     (if length dat < 4 then Err (ActionWrongLength t (length dat))
      else res_bind (uint32At dat 0) (\<lambda>v. Ok (OutputAction v)))"

definition makeSetTunnelAction :: "(TunnelAttrs \<times> TunnelAttrsPresence) res \<Rightarrow> Action res" where
  "makeSetTunnelAction r = res_bind r (\<lambda>(ta, pr). Ok (SetTunnelAction ta pr))"

definition parseSetAction :: "ranger \<Rightarrow> u16 \<Rightarrow> bytes \<Rightarrow> Action res" where
  "parseSetAction rng t dat =
     res_bind (ParseNestedAttrs dat) (\<lambda>attrs.
       if length (nil_bytes (attrs OVS_TUNNEL_KEY_ATTR_IPV4_DST)) = 4
       then makeSetTunnelAction (parseTunnelAttrs attrs)
       else if length (nil_bytes (attrs OVS_TUNNEL_KEY_ATTR_IPV6_DST)) = 16
       then makeSetTunnelAction (parseTunnelAttrs attrs)
       else (case attrs OVS_KEY_ATTR_TUNNEL of
           Some adata \<Rightarrow> makeSetTunnelAction (parseTunnelAttrsData adata)
         | None \<Rightarrow> (case rng attrs of
               atyp # _ \<Rightarrow> Ok (SetUnknownAction atyp (nil_bytes (attrs atyp)))
             | [] \<Rightarrow> Ok (SetUnknownAction 0 []))))"

definition actionParsers :: "ranger \<Rightarrow> u16 \<rightharpoonup> (u16 \<Rightarrow> bytes \<Rightarrow> Action res)" where
  "actionParsers rng = map_of
     [(OVS_ACTION_ATTR_OUTPUT, parseOutputAction), (OVS_ACTION_ATTR_SET, parseSetAction rng)]"

section \<open>Encoding as attribute trees\<close>

fun action_nla :: "Action \<Rightarrow> nla" where
  "action_nla (OutputAction v) = Raw OVS_ACTION_ATTR_OUTPUT (enc_word 4 v)"
| "action_nla (SetTunnelAction ta pr) =
     Nested OVS_ACTION_ATTR_SET [Nested OVS_KEY_ATTR_TUNNEL (ta_nlas ta (sta_present ta pr))]"
| "action_nla (SetUnknownAction t d) = Raw t d"

interpretation put_action: attr_emitter "action_toNlAttr a" "[action_nla a]" for a
  by (cases a) (simp_all add: put_emits PutNestedAttrs_emits tunnel_attrs.attr_emitter_axioms)

interpretation action_equality: equality action_Equals "\<lambda>_. True"
proof
  fix a b c :: Action
  show "action_Equals a a" by (cases a) simp_all
  show "action_Equals a b \<Longrightarrow> action_Equals b a" by (cases a; cases b) simp_all
  show "action_Equals a b \<Longrightarrow> action_Equals b c \<Longrightarrow> action_Equals a c"
    by (cases a; cases b; cases c) simp_all
qed

section \<open>Round trip\<close>

text \<open>
  An action that comes back as it was sent: an output, or a tunnel action whose absent fields
  are zero (as the setters and the parser leave them).
\<close>

fun action_wf :: "Action \<Rightarrow> bool" where
  "action_wf (OutputAction v) = True"
| "action_wf (SetTunnelAction ta pr) \<longleftrightarrow> ta_wf ta \<and> ta_restrict ta (sta_present ta pr) = ta"
| "action_wf (SetUnknownAction t d) = False"

lemma length_enc_nlas_le:
  assumes "\<And>a. a \<in> set ts \<Longrightarrow> length (enc_nla a) \<le> n" "4 dvd n"
  shows "length (enc_nlas ts) \<le> n * length ts"
  using assms(1)
proof (induction ts)
  case (Cons a ts)
  have "align (length (enc_nla a)) 4 \<le> n"
  proof -
    obtain k where "n = 4 * k" using assms(2) by blast
    then show ?thesis using Cons.prems [of a] unfolding align4 by simp
  qed
  with Cons show ?case by (cases "ts = []") auto
qed simp

lemma ta_nlas_length:
  assumes "ta_wf ta"
  shows "length (enc_nlas (ta_nlas ta pr)) \<le> 108"
proof -
  have "length (enc_nla a) \<le> 12" if "a \<in> set (ta_nlas ta pr)" for a
    using that assms by (auto simp: ta_nlas_def ta_wf_def split: if_splits)
  then have "length (enc_nlas (ta_nlas ta pr)) \<le> 12 * length (ta_nlas ta pr)"
    by (rule length_enc_nlas_le) simp_all
  moreover have "length (ta_nlas ta pr) \<le> 9" by (simp add: ta_nlas_def)
  ultimately show ?thesis by linarith
qed

lemma set_tunnel_fits:
  assumes "ta_wf ta"
  shows "fits (Nested t [Nested u (ta_nlas ta pr)])" "fits (Nested u (ta_nlas ta pr))"
proof -
  let ?n = "length (enc_nlas (ta_nlas ta pr))"
  have "align ?n 4 \<le> 111" "align (4 + align ?n 4) 4 \<le> 118"
    using ta_nlas_length [OF assms, of pr] unfolding align4 by linarith+
  then show "fits (Nested t [Nested u (ta_nlas ta pr)])" "fits (Nested u (ta_nlas ta pr))"
    by (simp_all add: fits_def)
qed

text \<open>Both encodings of a tunnel action: wrapped, and flat as the comment in \<^verbatim>\<open>parseSetAction\<close> describes it.\<close>

lemma parse_wrapped_tunnel:
  assumes wf: "ta_wf ta" and dat: "dat = enc_nlas [Nested OVS_KEY_ATTR_TUNNEL (ta_nlas ta pr)] \<or>
    dat = pad4 (enc_nlas [Nested OVS_KEY_ATTR_TUNNEL (ta_nlas ta pr)])"
  shows "parseSetAction rng t dat = Ok (SetTunnelAction (ta_restrict ta pr) (tap_flags ta pr))"
proof -
  let ?t = "Nested OVS_KEY_ATTR_TUNNEL (ta_nlas ta pr)"
  have "ParseNestedAttrs dat = Ok (attrs_of [?t])"
    using set_tunnel_fits(2) [OF wf] dat by (intro ParseNestedAttrs_enc) simp_all
  moreover have "attrs_of [?t] OVS_KEY_ATTR_TUNNEL = Some (nla_payload ?t)"
    "attrs_of [?t] OVS_TUNNEL_KEY_ATTR_IPV4_DST = None"
    "attrs_of [?t] OVS_TUNNEL_KEY_ATTR_IPV6_DST = None"
    by (simp_all add: attrs_of_def)
  ultimately show ?thesis
    using parseTunnelAttrsData_enc [OF wf, of pr]
    by (simp add: parseSetAction_def makeSetTunnelAction_def del: ovs_consts)
qed

lemma parse_flat_attrs:
  assumes "ta_wf ta" "dat = enc_nlas (ta_nlas ta pr) \<or> dat = pad4 (enc_nlas (ta_nlas ta pr))"
  shows "ParseNestedAttrs dat = Ok (attrs_of (ta_nlas ta pr))"
  using ta_nlas_fits [OF assms(1)] assms(2) by (rule ParseNestedAttrs_enc)

lemma parse_flat_tunnel:
  assumes "ta_wf ta" "dat = enc_nlas (ta_nlas ta pr) \<or> dat = pad4 (enc_nlas (ta_nlas ta pr))" "pIpv4Dst pr"
  shows "parseSetAction rng t dat = Ok (SetTunnelAction (ta_restrict ta pr) (tap_flags ta pr))"
  using assms(1,3) parse_flat_attrs [OF assms(1,2)] parseTunnelAttrs_enc [OF assms(1), of pr]
  by (simp add: parseSetAction_def makeSetTunnelAction_def ta_nlas_lookup ta_wf_def del: ovs_consts)

lemma ta_nlas_no_key_types:
  "attrs_of (ta_nlas ta pr) OVS_TUNNEL_KEY_ATTR_IPV6_DST = None"
  "attrs_of (ta_nlas ta pr) OVS_KEY_ATTR_TUNNEL = None"
  by (rule attrs_of_None; auto simp: ta_nlas_def split: if_splits)+

lemma parse_flat_without_dst:
  assumes "ta_wf ta" "dat = enc_nlas (ta_nlas ta pr) \<or> dat = pad4 (enc_nlas (ta_nlas ta pr))" "\<not> pIpv4Dst pr"
    "range_ok rng" "ta_nlas ta pr \<noteq> []"
  obtains u d where "attrs_of (ta_nlas ta pr) u = Some d" "parseSetAction rng t dat = Ok (SetUnknownAction u d)"
proof -
  let ?as = "attrs_of (ta_nlas ta pr)"
  have "?as (nla_type (last (ta_nlas ta pr))) \<noteq> None"
    using assms(5) by (cases "ta_nlas ta pr" rule: rev_cases) (simp_all add: attrs_of_append attrs_of_Cons)
  then have "dom ?as \<noteq> {}" by auto
  moreover have "set (rng ?as) = dom ?as" using assms(4) by (simp add: range_ok_def range_order_def)
  ultimately obtain u us where u: "rng ?as = u # us" "u \<in> dom ?as"
    by (metis list.exhaust list.set(1) list.set_intros(1))
  then obtain d where "?as u = Some d" by blast
  moreover have "?as OVS_TUNNEL_KEY_ATTR_IPV4_DST = None" using assms(3) ta_nlas_lookup(3) by simp
  ultimately show thesis
    using u(1) that parse_flat_attrs [OF assms(1,2)] ta_nlas_no_key_types [of ta pr]
    by (simp add: parseSetAction_def del: ovs_consts)
qed

text \<open>
  An action as the kernel reports it: as it was sent, or, for a tunnel action, in either encoding
  and with or without the attributes of its zero fields.
\<close>

fun reports_action :: "Action \<Rightarrow> nla \<Rightarrow> bool" where
  "reports_action (SetTunnelAction ta pr) x \<longleftrightarrow> (\<exists>p. ta_restrict ta p = ta \<and>
     (x = Nested OVS_ACTION_ATTR_SET [Nested OVS_KEY_ATTR_TUNNEL (ta_nlas ta p)] \<or>
      pIpv4Dst p \<and> x = Nested OVS_ACTION_ATTR_SET (ta_nlas ta p)))"
| "reports_action a x \<longleftrightarrow> x = action_nla a"

lemma sent_action_reported: "action_wf a \<Longrightarrow> reports_action a (action_nla a)"
  by (cases a) auto

lemma parse_reported_action:
  assumes "action_wf a" "reports_action a x"
  obtains b p where "actionParsers rng (nla_type x) = Some p"
    "p (nla_type x) (nla_payload x) = Ok b" "action_Equals a b"
proof (cases a)
  case (OutputAction v)
  have "uint32At (enc_word 4 v) 0 = Ok v"
    by (simp add: uint32At_def peek_def read_at_def)
  then show thesis using OutputAction assms(2) that [of parseOutputAction "OutputAction v"]
    by (simp add: actionParsers_def parseOutputAction_def)
next
  case (SetTunnelAction ta pr)
  then obtain p where wf: "ta_wf ta" "ta_restrict ta p = ta" and
    x: "x = Nested OVS_ACTION_ATTR_SET [Nested OVS_KEY_ATTR_TUNNEL (ta_nlas ta p)] \<or>
      pIpv4Dst p \<and> x = Nested OVS_ACTION_ATTR_SET (ta_nlas ta p)"
    using assms by auto
  have "parseSetAction rng OVS_ACTION_ATTR_SET (nla_payload x) = Ok (SetTunnelAction ta (tap_flags ta p))"
    using x
  proof (elim disjE conjE)
    assume "x = Nested OVS_ACTION_ATTR_SET [Nested OVS_KEY_ATTR_TUNNEL (ta_nlas ta p)]"
    then show ?thesis using parse_wrapped_tunnel [OF wf(1), of "nla_payload x" p] wf(2) by simp
  next
    assume "pIpv4Dst p" "x = Nested OVS_ACTION_ATTR_SET (ta_nlas ta p)"
    then show ?thesis using parse_flat_tunnel [OF wf(1), of "nla_payload x" p] wf(2) by simp
  qed
  moreover have "nla_type x = OVS_ACTION_ATTR_SET" using x by auto
  ultimately show thesis using SetTunnelAction
      that [of "parseSetAction rng" "SetTunnelAction ta (tap_flags ta p)"]
    by (simp add: actionParsers_def)
qed (use assms in simp)

section \<open>Properties\<close>

text \<open>An iteration order that meets the requirement: ascending.\<close>

definition ascending :: ranger where
  "ascending m = sorted_list_of_set (dom m)"

lemma ascending_ok: "range_ok ascending"
proof -
  have "finite (dom m)" for m :: Attrs by (rule finite_subset [OF subset_UNIV]) simp
  then show ?thesis by (simp add: range_ok_def range_order_def ascending_def)
qed

text \<open>
  Property C32: the workaround for the encoding bug of kernel 4.3.  A tunnel action parses to its
  attributes and presence flags when they are wrapped in \<^verbatim>\<open>OVS_KEY_ATTR_TUNNEL\<close>, as they are written
  and should be read.  When they come unwrapped, as that kernel sends them, the result is the same
  if there is an IPv4 destination address; without one, although the comment in \<^verbatim>\<open>parseSetAction\<close>
  says that a source address identifies the bug as well, the action becomes a
  \<^verbatim>\<open>SetUnknownAction\<close> that holds one of the attributes.
\<close>

theorem set_tunnel_both_encodings:
  assumes "ta_wf ta" "range_ok rng"
  shows "parseSetAction rng t (enc_nlas [Nested OVS_KEY_ATTR_TUNNEL (ta_nlas ta pr)]) =
      Ok (SetTunnelAction (ta_restrict ta pr) (tap_flags ta pr)) \<and>
    (if pIpv4Dst pr
     then parseSetAction rng t (enc_nlas (ta_nlas ta pr)) = Ok (SetTunnelAction (ta_restrict ta pr) (tap_flags ta pr))
     else ta_nlas ta pr \<noteq> [] \<longrightarrow> (\<exists>u d. attrs_of (ta_nlas ta pr) u = Some d \<and>
       parseSetAction rng t (enc_nlas (ta_nlas ta pr)) = Ok (SetUnknownAction u d)))"
proof (intro conjI)
  show "if pIpv4Dst pr
     then parseSetAction rng t (enc_nlas (ta_nlas ta pr)) = Ok (SetTunnelAction (ta_restrict ta pr) (tap_flags ta pr))
     else ta_nlas ta pr \<noteq> [] \<longrightarrow> (\<exists>u d. attrs_of (ta_nlas ta pr) u = Some d \<and>
       parseSetAction rng t (enc_nlas (ta_nlas ta pr)) = Ok (SetUnknownAction u d))"
    using parse_flat_tunnel [OF assms(1)] parse_flat_without_dst [OF assms(1) _ _ assms(2), of _ pr t] by metis
qed (use parse_wrapped_tunnel [OF assms(1)] in blast)

theorem set_tunnel_both_encodings_witness:
  "parseSetAction ascending 3 (enc_nlas (ta_nlas (zero_ta\<lparr>Ipv4Dst := [10, 0, 0, 1]\<rparr>)
      (zero_presence\<lparr>pIpv4Dst := True\<rparr>))) =
    Ok (SetTunnelAction (ta_restrict (zero_ta\<lparr>Ipv4Dst := [10, 0, 0, 1]\<rparr>) (zero_presence\<lparr>pIpv4Dst := True\<rparr>))
      (tap_flags (zero_ta\<lparr>Ipv4Dst := [10, 0, 0, 1]\<rparr>) (zero_presence\<lparr>pIpv4Dst := True\<rparr>))) \<and>
   parseSetAction ascending 3 (enc_nlas (ta_nlas (zero_ta\<lparr>Ipv4Src := [10, 0, 0, 1]\<rparr>)
      (zero_presence\<lparr>pIpv4Src := True\<rparr>))) =
    Ok (SetUnknownAction OVS_TUNNEL_KEY_ATTR_IPV4_SRC [10, 0, 0, 1])"
proof
  let ?ta = "zero_ta\<lparr>Ipv4Src := [10, 0, 0, 1]\<rparr>" and ?pr = "zero_presence\<lparr>pIpv4Src := True\<rparr>"
  have one: "ta_nlas ?ta ?pr = [Raw OVS_TUNNEL_KEY_ATTR_IPV4_SRC [10, 0, 0, 1]]"
    by (simp add: ta_nlas_def zero_presence_def del: ovs_consts)
  show "parseSetAction ascending 3 (enc_nlas (ta_nlas ?ta ?pr)) =
      Ok (SetUnknownAction OVS_TUNNEL_KEY_ATTR_IPV4_SRC [10, 0, 0, 1])"
    using set_tunnel_both_encodings [of ?ta ascending 3 ?pr] ascending_ok one
    by (auto simp: ta_wf_def zero_ta_def zero_presence_def attrs_of_def split: if_splits)
qed (use set_tunnel_both_encodings [of "zero_ta\<lparr>Ipv4Dst := [10, 0, 0, 1]\<rparr>" ascending 3
      "zero_presence\<lparr>pIpv4Dst := True\<rparr>"] ascending_ok in \<open>simp add: ta_wf_def zero_ta_def\<close>)

end
