(* ===== verification/Genetlink.thy ===== *)
theory Genetlink
  imports Netlink_Socket Flow_Actions
begin

text \<open>
  Model of \<^verbatim>\<open>odp/genetlink.go\<close>: the generic netlink header and the lookup of a family.
\<close>

record GenlFamily =
  fam_id :: u16
  mcGroups :: "string \<rightharpoonup> u32"

definition zero_family :: GenlFamily where
  "zero_family = \<lparr>fam_id = 0, mcGroups = Map.empty\<rparr>"

definition PutGenlMsghdr :: "u8 \<Rightarrow> u8 \<Rightarrow> generator" where
  "PutGenlMsghdr cmd version m =
     res_bind (AlignGrow NLMSG_ALIGNTO SizeofGenlMsghdr m) (\<lambda>(pos, m).
     res_bind (poke_buf pos 0 [cmd] m) (poke_buf pos 1 [version]))"

definition CheckGenlMsghdr :: "int \<Rightarrow> int \<Rightarrow> NlMsgParser \<Rightarrow> (GenlMsghdr \<times> NlMsgParser) res" where
  "CheckGenlMsghdr cmd fallbackCmd p =
     res_bind (AlignAdvance NLMSG_ALIGNTO SizeofGenlMsghdr p) (\<lambda>(pos, p).
     res_bind (genlMsghdrAt (pdata p) pos) (\<lambda>gh.
       if cmd \<ge> 0 \<and> Cmd gh \<noteq> of_int cmd \<and> (fallbackCmd < 0 \<or> Cmd gh \<noteq> of_int fallbackCmd)
       then Err (WrongGenlCmd (Cmd gh) cmd fallbackCmd)
       else Ok (gh, p)))"

section \<open>Helpers of the requests\<close>

text \<open>A new builder takes its addresses from the next heap.\<close>

definition new_msg :: "u16 \<Rightarrow> u16 \<Rightarrow> sys \<Rightarrow> (NlMsgBuilder, sys) outcome" where
  "new_msg flags t w = (NewNlMsgBuilder (heaps w 0) flags t, w\<lparr>heaps := (\<lambda>i. heaps w (Suc i))\<rparr>)"

text \<open>Using the response of a request dereferences the returned pointer.\<close>

definition deref :: "'a option \<Rightarrow> 'a res" where
  "deref p = (case p of None \<Rightarrow> Crash NilDereference | Some x \<Rightarrow> Ok x)"

section \<open>Looking up a family\<close>

fun mc_group_loop :: "Attrs \<Rightarrow> u16 list \<Rightarrow> (string \<rightharpoonup> u32) \<Rightarrow> (string \<rightharpoonup> u32) res" where
  "mc_group_loop mcGroupAttrs [] groups = Ok groups"
| "mc_group_loop mcGroupAttrs (t # ts) groups =
     res_bind (ParseNestedAttrs (nil_bytes (mcGroupAttrs t))) (\<lambda>groupAttrs.
     res_bind (GetUint32 groupAttrs CTRL_ATTR_MCAST_GRP_ID) (\<lambda>id.
     res_bind (GetString groupAttrs CTRL_ATTR_MCAST_GRP_NAME) (\<lambda>name.
     mc_group_loop mcGroupAttrs ts (groups(name \<mapsto> id)))))"

definition parse_family :: "ranger \<Rightarrow> NlMsgParser option \<Rightarrow> GenlFamily res" where
  "parse_family rng resp =
     res_bind (deref resp) (\<lambda>resp.
     res_bind (ExpectNlMsghdr GENL_ID_CTRL resp) (\<lambda>(_, resp).
     res_bind (CheckGenlMsghdr (uint CTRL_CMD_GETFAMILY) (uint CTRL_CMD_NEWFAMILY) resp) (\<lambda>(_, resp).
     res_bind (TakeAttrs resp) (\<lambda>(attrs, _).
     res_bind (GetUint16 attrs CTRL_ATTR_FAMILY_ID) (\<lambda>fid.
     res_bind (GetNestedAttrs attrs CTRL_ATTR_MCAST_GROUPS True) (\<lambda>mcGroupAttrs.
       case mcGroupAttrs of
         None \<Rightarrow> Ok \<lparr>fam_id = fid, mcGroups = Map.empty\<rparr>
       | Some attrs \<Rightarrow>
           res_bind (mc_group_loop attrs (rng attrs) Map.empty) (\<lambda>groups.
           Ok \<lparr>fam_id = fid, mcGroups = groups\<rparr>)))))))"

definition LookupGenlFamily :: "ranger \<Rightarrow> nat \<Rightarrow> string \<Rightarrow> sys \<Rightarrow> (GenlFamily, sys) outcome" where
  "LookupGenlFamily rng s name w =
     and_then (new_msg RequestFlags GENL_ID_CTRL w) (\<lambda>req w.
     and_then (seq_gens [PutGenlMsghdr CTRL_CMD_GETFAMILY 0, PutStringAttr CTRL_ATTR_FAMILY_NAME name] req, w)
       (\<lambda>req w.
     and_then (Request s req w) (\<lambda>resp w. (parse_family rng resp, w))))"

section \<open>Headers on the wire\<close>

definition genl_hdr :: "u8 \<Rightarrow> u8 \<Rightarrow> bytes" where
  "genl_hdr cmd version = [cmd, version, 0, 0]"

lemma length_genl_hdr [simp]: "length (genl_hdr cmd version) = 4"
  by (simp add: genl_hdr_def)

lemma PutGenlMsghdr_spec:
  assumes "builder_ok m"
  obtains m' where "PutGenlMsghdr cmd version m = Ok m'" "builder_ok m'"
    "mbytes m' = pad4 (mbytes m) @ genl_hdr cmd version"
proof -
  let ?pos = "align (length (mbytes m)) 4" and ?a = "pad4 (mbytes m)"
  obtain m1 where m1: "AlignGrow 4 4 m = Ok (?pos, m1)" "builder_ok m1"
    "mbytes m1 = ?a @ replicate 4 0" using assms by (rule AlignGrow4_spec)
  have z: "replicate 4 (0::byte) = [0] @ [0] @ [0, 0]" by (simp add: numeral_eq_Suc)
  obtain m2 where m2: "poke_buf ?pos 0 [cmd] m1 = Ok m2" "builder_ok m2"
    "mbytes m2 = write_at (mbytes m1) (?pos + 0) [cmd]"
    by (rule poke_buf_spec [of m1 ?pos 0 "[cmd]"]) (use m1 in simp_all)
  have b2: "mbytes m2 = ?a @ [cmd] @ [0] @ [0, 0]"
    using m2(3) write_at_append [of "?pos" ?a "[cmd]" "[0]" "[0] @ [0, 0]"] by (simp add: m1(3) z)
  obtain m3 where m3: "poke_buf ?pos 1 [version] m2 = Ok m3" "builder_ok m3"
    "mbytes m3 = write_at (mbytes m2) (?pos + 1) [version]"
    by (rule poke_buf_spec [of m2 ?pos 1 "[version]"]) (use m2(2) in \<open>simp_all add: b2\<close>)
  have "mbytes m3 = ?a @ genl_hdr cmd version"
    using m3(3) write_at_append [of "?pos + 1" "?a @ [cmd]" "[version]" "[0]" "[0, 0]"]
    by (simp add: b2 genl_hdr_def)
  moreover have "PutGenlMsghdr cmd version m = Ok m3"
    using m1(1) m2(1) m3(1) by (simp add: PutGenlMsghdr_def)
  ultimately show thesis using m3(2) by (intro that)
qed

lemma seq_gens_run: "seq_gens (g # gs) m = res_bind (g m) (seq_gens gs)"
  by (simp add: seq_gen_def)

lemma seq_gens_single: "seq_gens [g] = g"
proof
  fix m
  have "skip_gen = Ok" by (rule ext) (simp add: skip_gen_def)
  then show "seq_gens [g] m = g m" by (simp add: seq_gen_def)
qed

lemma new_msg_spec:
  obtains m w' where "new_msg fl t w = (Ok m, w')" "builder_ok m" "mbytes m = draft_bytes t fl []"
    "w' = w\<lparr>heaps := (\<lambda>i. heaps w (Suc i))\<rparr>"
proof (rule NewNlMsgBuilder_spec [of "heaps w 0" fl t])
  fix m assume "NewNlMsgBuilder (heaps w 0) fl t = Ok m" "builder_ok m" "mbytes m = draft_bytes t fl []"
  then show thesis using that [of m] by (simp add: new_msg_def)
qed

lemma pad4_draft: "4 dvd length body \<Longrightarrow> pad4 (draft_bytes t fl body) = draft_bytes t fl body"
  by (simp add: pad4_def align4_id)

lemma genl_request_spec:
  assumes "attr_emitter gens ts"
  obtains m m' w' where "new_msg fl t w = (Ok m, w')"
    "w' = w\<lparr>heaps := (\<lambda>i. heaps w (Suc i))\<rparr>"
    "res_bind (PutGenlMsghdr cmd version m) gens = Ok m'" "builder_ok m'"
    "mbytes m' = draft_bytes t fl (genl_hdr cmd version @ enc_nlas ts)"
proof -
  obtain m w' where m: "new_msg fl t w = (Ok m, w')" "builder_ok m" "mbytes m = draft_bytes t fl []"
    "w' = w\<lparr>heaps := (\<lambda>i. heaps w (Suc i))\<rparr>" by (rule new_msg_spec)
  obtain m1 where m1: "PutGenlMsghdr cmd version m = Ok m1" "builder_ok m1"
    "mbytes m1 = pad4 (mbytes m) @ genl_hdr cmd version" by (rule PutGenlMsghdr_spec [OF m(2)])
  obtain m2 where m2: "gens m1 = Ok m2" "builder_ok m2" "mbytes m2 = attach (mbytes m1) ts"
    using attr_emitter.emits [OF assms m1(2)] by blast
  have "mbytes m2 = draft_bytes t fl (genl_hdr cmd version @ enc_nlas ts)"
    using m2(3) m1(3) m(3) by (simp add: pad4_draft draft_bytes_append attach_draft attach_aligned)
  then show thesis using that [OF m(1,4) _ m2(2)] m1(1) m2(1) by simp
qed

lemma ExpectNlMsghdr_msg:
  "ExpectNlMsghdr t \<lparr>pdata = pre @ nlmsg_bytes u fl seq pid body, ppos = length pre\<rparr> =
     (if u \<noteq> t then Err (WrongType u t)
      else Ok (\<lparr>Len = of_nat (16 + length body), Type = u, Flags = fl, Seq = seq, Pid = pid\<rparr>,
               \<lparr>pdata = pre @ nlmsg_bytes u fl seq pid body, ppos = length pre + 16\<rparr>))"
  by (simp add: ExpectNlMsghdr_def Advance_def CheckAvailable_def)

text \<open>The generic header at the cursor of a message.\<close>

lemma CheckGenlMsghdr_hdr:
  assumes "pdata p = pre @ genl_hdr c v @ post" "ppos p = length pre" "4 dvd length pre"
  shows "CheckGenlMsghdr cmd fallback p =
    (if cmd \<ge> 0 \<and> c \<noteq> of_int cmd \<and> (fallback < 0 \<or> c \<noteq> of_int fallback)
     then Err (WrongGenlCmd c cmd fallback)
     else Ok (\<lparr>Cmd = c, Version = v, Reserved = 0\<rparr>, p\<lparr>ppos := length pre + 4\<rparr>))"
proof -
  have "read_at (pdata p) (length pre + 0) 4 = [c, v, 0, 0]"
    using assms by (simp add: read_at_def genl_hdr_def)
  then have "peek (pdata p) (length pre) 0 4 = Ok [c, v, 0, 0]"
    using assms by (simp add: peek_Ok)
  then have "genlMsghdrAt (pdata p) (length pre) = Ok \<lparr>Cmd = c, Version = v, Reserved = 0\<rparr>"
    by (simp add: genlMsghdrAt_def read_at_def dec_word_def)
  moreover have "AlignAdvance 4 4 p = Ok (length pre, p\<lparr>ppos := length pre + 4\<rparr>)"
    using assms by (simp add: AlignAdvance_def Advance_def CheckAvailable_def align4_id Let_def)
  ultimately show ?thesis by (simp add: CheckGenlMsghdr_def)
qed

lemma TakeAttrs_enc:
  assumes "pdata p = pre @ enc_nlas ts" "ppos p = length pre" "4 dvd length pre" "list_all fits ts"
  shows "map_res fst (TakeAttrs p) = Ok (attrs_of ts)"
  using parseAttrs_enc [of p pre ts "[]" "\<lambda>t val res. res(t \<mapsto> val)" Map.empty] assms
  by (auto simp: TakeAttrs_def align4_id attrs_of_def fold_map_upd)

section \<open>The exchange of a lookup\<close>

definition family_request :: "string \<Rightarrow> bytes" where
  "family_request name = genl_hdr CTRL_CMD_GETFAMILY 0 @
     enc_nlas [Raw CTRL_ATTR_FAMILY_NAME (string_bytes name @ [0])]"

lemma LookupGenlFamily_eq:
  obtains m w1 where "w1 = w\<lparr>heaps := (\<lambda>i. heaps w (Suc i))\<rparr>"
    "LookupGenlFamily rng s name w = and_then (Request s m w1) (\<lambda>resp w. (parse_family rng resp, w))"
    "builder_ok m" "mbytes m = draft_bytes GENL_ID_CTRL RequestFlags (family_request name)"
proof -
  have emits: "attr_emitter (PutStringAttr CTRL_ATTR_FAMILY_NAME name)
      [Raw CTRL_ATTR_FAMILY_NAME (string_bytes name @ [0])]"
    by (rule put_string.attr_emitter_axioms)
  obtain m m' w1 where m: "new_msg RequestFlags GENL_ID_CTRL w = (Ok m, w1)"
    "w1 = w\<lparr>heaps := (\<lambda>i. heaps w (Suc i))\<rparr>"
    "res_bind (PutGenlMsghdr CTRL_CMD_GETFAMILY 0 m) (PutStringAttr CTRL_ATTR_FAMILY_NAME name) = Ok m'"
    "builder_ok m'" "mbytes m' = draft_bytes GENL_ID_CTRL RequestFlags (family_request name)"
    unfolding family_request_def by (rule genl_request_spec [OF emits])
  then have "seq_gens [PutGenlMsghdr CTRL_CMD_GETFAMILY 0, PutStringAttr CTRL_ATTR_FAMILY_NAME name] m = Ok m'"
    by (simp add: seq_gens_run seq_gens_single del: ovs_consts seq_gens.simps)
  then have "LookupGenlFamily rng s name w =
      and_then (Request s m' w1) (\<lambda>resp w. (parse_family rng resp, w))"
    using m(1) by (simp add: LookupGenlFamily_def del: ovs_consts seq_gens.simps)
  then show thesis using that m(2,4,5) by blast
qed

text \<open>
  The state after one exchange on a socket: the sequence number and the heap have moved on,
  the request is in the trace, and the datagram is gone from the inbox.
\<close>

definition exchanged :: "nat \<Rightarrow> u16 \<Rightarrow> bytes \<Rightarrow> sys \<Rightarrow> sys" where
  "exchanged s t body w =
     recvd_state s (sent_state s t RequestFlags body (w\<lparr>heaps := (\<lambda>i. heaps w (Suc i))\<rparr>))"

lemma heaps_upd_sel [simp]:
  "PortId s (w\<lparr>heaps := h\<rparr>) = PortId s w" "inbox_of s (w\<lparr>heaps := h\<rparr>) = inbox_of s w"
  by (simp_all add: PortId_def inbox_of_def)

lemma answers_heaps [simp]: "answers s (w\<lparr>heaps := h\<rparr>) t fl q body = answers s w t fl q body"
  by (simp add: answers_def)

lemma exchanged_sel [simp]:
  "nextSeqNo (exchanged s t body w) = nextSeqNo w + 1" "PortId i (exchanged s t body w) = PortId i w"
  "inbox_of s (exchanged s t body w) = tl (inbox_of s w)" "fuel (exchanged s t body w) = fuel w"
  "sends (exchanged s t body w) = tl (sends w)" "triedLoad (exchanged s t body w) = triedLoad w"
  "sockets (exchanged s t body w) = sockets w" "open_fds (exchanged s t body w) = open_fds w"
  by (simp_all add: exchanged_def)

lemma LookupGenlFamily_reply:
  assumes "answer (sends w) = Ok ()" "fuel w > 0" "u \<noteq> NLMSG_ERROR"
    "answers s w u fl (nextSeqNo w + 1) body"
  shows "LookupGenlFamily rng s name w =
    (parse_family rng (Some \<lparr>pdata = nlmsg_bytes u fl (nextSeqNo w + 1) (PortId s w) body, ppos = 0\<rparr>),
     exchanged s GENL_ID_CTRL (family_request name) w)"
proof (rule LookupGenlFamily_eq [of w rng s name])
  fix m w1
  assume w1: "w1 = w\<lparr>heaps := (\<lambda>i. heaps w (Suc i))\<rparr>"
    and eq: "LookupGenlFamily rng s name w = and_then (Request s m w1) (\<lambda>resp w. (parse_family rng resp, w))"
    and m: "builder_ok m" "mbytes m = draft_bytes GENL_ID_CTRL RequestFlags (family_request name)"
  show ?thesis
    using Request_reply [OF m, of w1 s u fl body] assms w1 by (simp add: eq exchanged_def)
qed

lemma LookupGenlFamily_error:
  assumes "answer (sends w) = Ok ()" "fuel w > 0" "e \<noteq> 0"
    "answers s w NLMSG_ERROR fl (nextSeqNo w + 1) (enc_word 4 (e :: i32) @ rest)"
  shows "LookupGenlFamily rng s name w =
    (Err (netlink_error e), exchanged s GENL_ID_CTRL (family_request name) w)"
proof (rule LookupGenlFamily_eq [of w rng s name])
  fix m w1
  assume w1: "w1 = w\<lparr>heaps := (\<lambda>i. heaps w (Suc i))\<rparr>"
    and eq: "LookupGenlFamily rng s name w = and_then (Request s m w1) (\<lambda>resp w. (parse_family rng resp, w))"
    and m: "builder_ok m" "mbytes m = draft_bytes GENL_ID_CTRL RequestFlags (family_request name)"
  show ?thesis
    using Request_error [OF m, of w1 s fl e rest] assms w1 by (simp add: eq exchanged_def)
qed

section \<open>The reply of a lookup\<close>

text \<open>The multicast groups of a family, numbered by the kernel.\<close>

type_synonym groups = "(u16 \<times> string \<times> u32) list"

definition group_nla :: "u16 \<times> string \<times> u32 \<Rightarrow> nla" where
  "group_nla g = (case g of (i, name, gid) \<Rightarrow>
     Nested i [Raw CTRL_ATTR_MCAST_GRP_NAME (string_bytes name @ [0]),
               Raw CTRL_ATTR_MCAST_GRP_ID (enc_word 4 gid)])"

definition family_trees :: "u16 \<Rightarrow> string \<Rightarrow> groups \<Rightarrow> nla list" where
  "family_trees fid name gs =
     [Raw CTRL_ATTR_FAMILY_NAME (string_bytes name @ [0]), Raw CTRL_ATTR_FAMILY_ID (enc_word 2 fid),
      Nested CTRL_ATTR_MCAST_GROUPS (map group_nla gs)]"

lemma uint32At_enc [simp]: "uint32At (enc_word 4 w) 0 = Ok w"
  by (simp add: uint32At_def peek_def read_at_def)

lemma nla_type_group [simp]: "nla_type (group_nla g) = fst g"
  by (cases g) (simp add: group_nla_def)

lemma mc_group_step:
  assumes "fits (group_nla (i, name, gid))"
  shows "ParseNestedAttrs (nla_payload (group_nla (i, name, gid))) =
      Ok (attrs_of [Raw CTRL_ATTR_MCAST_GRP_NAME (string_bytes name @ [0]),
                    Raw CTRL_ATTR_MCAST_GRP_ID (enc_word 4 gid)])"
  using fits_children assms unfolding group_nla_def prod.case nla_payload.simps
  by (intro ParseNestedAttrs_enc) blast+

lemma mc_group_loop_reply:
  assumes "list_all fits (map group_nla gs)" "distinct (map fst gs)" "set ord \<subseteq> fst ` set gs"
  shows "mc_group_loop (attrs_of (map group_nla gs)) ord groups =
    Ok (fold (\<lambda>t m. case map_of gs t of Some (name, gid) \<Rightarrow> m(name \<mapsto> gid) | None \<Rightarrow> m) ord groups)"
  using assms(3)
proof (induction ord arbitrary: groups)
  case (Cons t ord)
  then obtain name gid where g: "(t, name, gid) \<in> set gs" by auto
  have "attrs_of (map group_nla gs) t = Some (nla_payload (group_nla (t, name, gid)))"
    using attrs_of_member [of "map group_nla gs" "group_nla (t, name, gid)"] g assms(2)
    by (simp add: o_def)
  moreover have "map_of gs t = Some (name, gid)" using g assms(2) by simp
  moreover have "fits (group_nla (t, name, gid))" using g assms(1) by (auto simp: list_all_iff)
  ultimately show ?case using Cons
    by (simp add: mc_group_step getter_defs attrs_of_def nth_append)
qed simp

lemma groups_fold:
  assumes "distinct (map fst gs)" "distinct (map (fst \<circ> snd) gs)" "set ord = fst ` set gs" "distinct ord"
  shows "fold (\<lambda>t m. case map_of gs t of Some (name, gid) \<Rightarrow> m(name \<mapsto> gid) | None \<Rightarrow> m) ord Map.empty
    = map_of (map snd gs)"
proof -
  let ?f = "\<lambda>t. fst (the (map_of gs t))" and ?g = "\<lambda>t. snd (the (map_of gs t))"
  have entry: "\<exists>p. map_of gs t = Some p \<and> (t, p) \<in> set gs" if "t \<in> set ord" for t
  proof -
    have "t \<in> fst ` set gs" using that assms(3) by simp
    then obtain p where "(t, p) \<in> set gs" by force
    then show ?thesis using assms(1) by auto
  qed
  have inj: "inj_on ?f (set ord)"
  proof (rule inj_onI)
    fix t u assume tu: "t \<in> set ord" "u \<in> set ord" "?f t = ?f u"
    obtain p q where "(t, p) \<in> set gs" "(u, q) \<in> set gs" "map_of gs t = Some p" "map_of gs u = Some q"
      using entry tu(1,2) by blast
    with tu(3) assms(2) have "(t, p) = (u, q)"
      unfolding distinct_map by (intro inj_onD [of "fst \<circ> snd" "set gs"]) simp_all
    then show "t = u" by simp
  qed
  have "fold (\<lambda>t m. case map_of gs t of Some (name, gid) \<Rightarrow> m(name \<mapsto> gid) | None \<Rightarrow> m) ord Map.empty
      = fold (\<lambda>t m. m(?f t \<mapsto> ?g t)) ord Map.empty"
  proof (rule fold_cong)
    fix t assume "t \<in> set ord"
    then obtain p where "map_of gs t = Some p" using entry by blast
    then show "(\<lambda>m. case map_of gs t of Some (name, gid) \<Rightarrow> m(name \<mapsto> gid) | None \<Rightarrow> m) =
        (\<lambda>m. m(?f t \<mapsto> ?g t))" by (simp add: split_def)
  qed simp_all
  also have "\<dots> = map_of (rev (map (\<lambda>t. (?f t, ?g t)) ord))"
    using fold_map_upd [of ?f ?g ord Map.empty] by simp
  also have "\<dots> = map_of (map snd gs)"
  proof -
    have d: "distinct (map fst (rev (map (\<lambda>t. (?f t, ?g t)) ord)))"
      using inj assms(4) by (simp add: rev_map [symmetric] o_def distinct_map)
    have d': "distinct (map fst (map snd gs))" using assms(2) by simp
    have "(\<lambda>x. (?f (fst x), ?g (fst x))) ` set gs = snd ` set gs"
      using assms(1) by (intro image_cong) auto
    then have img: "set (rev (map (\<lambda>t. (?f t, ?g t)) ord)) = set (map snd gs)"
      by (simp add: assms(3) image_image)
    show ?thesis using map_of_inject_set [OF d d'] img by blast
  qed
  finally show ?thesis .
qed

lemma family_trees_lookup:
  "attrs_of (family_trees fid name gs) CTRL_ATTR_FAMILY_ID = Some (enc_word 2 fid)"
  "attrs_of (family_trees fid name gs) CTRL_ATTR_MCAST_GROUPS = Some (pad4 (enc_nlas (map group_nla gs)))"
  by (simp_all add: family_trees_def attrs_of_def)

text \<open>Of a reply, the parser recovers the identifier and exactly the groups it lists.\<close>

lemma parse_family_reply:
  assumes rng: "range_ok rng" and c: "c = CTRL_CMD_GETFAMILY \<or> c = CTRL_CMD_NEWFAMILY"
    and gs: "distinct (map fst gs)" "distinct (map (fst \<circ> snd) gs)"
    and fit: "list_all fits (family_trees fid name gs)"
    and msg: "msg = nlmsg_bytes GENL_ID_CTRL fl seq pid (genl_hdr c v @ enc_nlas (family_trees fid name gs))"
  shows "parse_family rng (Some \<lparr>pdata = msg, ppos = 0\<rparr>) =
    Ok \<lparr>fam_id = fid, mcGroups = map_of (map snd gs)\<rparr>"
proof -
  let ?ts = "family_trees fid name gs" and ?G = "attrs_of (map group_nla gs)"
  have split: "msg = take 16 msg @ genl_hdr c v @ enc_nlas ?ts" "length (take 16 msg) = 16"
    by (simp_all add: msg nlmsg_bytes_def)
  have gfit: "list_all fits (map group_nla gs)"
    using fit fits_children by (auto simp: family_trees_def)
  have "ExpectNlMsghdr GENL_ID_CTRL \<lparr>pdata = msg, ppos = 0\<rparr> =
      Ok (\<lparr>Len = of_nat (16 + length (genl_hdr c v @ enc_nlas ?ts)), Type = GENL_ID_CTRL, Flags = fl,
          Seq = seq, Pid = pid\<rparr>, \<lparr>pdata = msg, ppos = 16\<rparr>)"
    using ExpectNlMsghdr_msg [of GENL_ID_CTRL "[]" GENL_ID_CTRL fl seq pid] by (simp add: msg del: ovs_consts)
  moreover have "CheckGenlMsghdr (uint CTRL_CMD_GETFAMILY) (uint CTRL_CMD_NEWFAMILY) \<lparr>pdata = msg, ppos = 16\<rparr> =
      Ok (\<lparr>Cmd = c, Version = v, Reserved = 0\<rparr>, \<lparr>pdata = msg, ppos = 20\<rparr>)"
    using CheckGenlMsghdr_hdr [OF _ _ _, of "\<lparr>pdata = msg, ppos = 16\<rparr>" "take 16 msg" c v "enc_nlas ?ts"] split c
    by auto
  moreover have "map_res fst (TakeAttrs \<lparr>pdata = msg, ppos = 20\<rparr>) = Ok (attrs_of ?ts)"
    by (rule TakeAttrs_enc [of _ "take 16 msg @ genl_hdr c v"]) (use split fit in simp_all)
  then obtain q where "TakeAttrs \<lparr>pdata = msg, ppos = 20\<rparr> = Ok (attrs_of ?ts, q)"
    by (auto simp: map_res_eq_Ok)
  moreover have "GetUint16 (attrs_of ?ts) CTRL_ATTR_FAMILY_ID = Ok fid"
    by (simp add: getter_defs family_trees_lookup del: ovs_consts)
  moreover have "GetNestedAttrs (attrs_of ?ts) CTRL_ATTR_MCAST_GROUPS True = Ok (Some ?G)"
    using gfit family_trees_lookup(2) by (rule GetNestedAttrs_enc)
  moreover have "mc_group_loop ?G (rng ?G) Map.empty = Ok (map_of (map snd gs))"
  proof -
    have "set (rng ?G) = dom ?G" "distinct (rng ?G)" using rng by (auto simp: range_ok_def range_order_def)
    moreover have "dom ?G = fst ` set gs"
      unfolding attrs_of_def dom_map_of_conv_image_fst by (force simp: image_image)
    ultimately show ?thesis using mc_group_loop_reply [OF gfit gs(1), of "rng ?G"] groups_fold [OF gs, of "rng ?G"]
      by simp
  qed
  ultimately show ?thesis by (simp add: parse_family_def deref_def del: ovs_consts)
qed

end
