(* ===== verification/Flow_Specs.thy ===== *)
theory Flow_Specs
  imports Flow_Actions
begin

text \<open>
  Model of the complete flows of \<^verbatim>\<open>odp/flow.go\<close>: \<^verbatim>\<open>FlowSpec\<close> with its keys and actions, its
  encoding and comparison, and the parsers \<^verbatim>\<open>parseFlowSpec\<close> and \<^verbatim>\<open>parseFlowInfo\<close>.
\<close>

record FlowSpec =
  flow_keys :: FlowKeys
  flow_actions :: "Action list"

definition NewFlowSpec :: FlowSpec where
  "NewFlowSpec = \<lparr>flow_keys = Map.empty, flow_actions = []\<rparr>"

definition AddKey :: "FlowKey \<Rightarrow> FlowSpec \<Rightarrow> FlowSpec" where
  "AddKey k f = f\<lparr>flow_keys := FlowKeys_Add k (flow_keys f)\<rparr>"

definition AddAction :: "Action \<Rightarrow> FlowSpec \<Rightarrow> FlowSpec" where
  "AddAction a f = f\<lparr>flow_actions := flow_actions f @ [a]\<rparr>"

definition AddActions :: "Action list \<Rightarrow> FlowSpec \<Rightarrow> FlowSpec" where
  "AddActions as f = f\<lparr>flow_actions := flow_actions f @ as\<rparr>"

definition FlowSpec_toNlAttrs :: "u16 list \<Rightarrow> u16 list \<Rightarrow> FlowSpec \<Rightarrow> generator" where
  "FlowSpec_toNlAttrs ordK ordM f m =
     res_bind (FlowKeys_toNlAttrs ordK ordM (flow_keys f) m)
       (PutNestedAttrs OVS_FLOW_ATTR_ACTIONS (seq_gens (map action_toNlAttr (flow_actions f))))"

definition FlowSpec_Equals :: "u16 list \<Rightarrow> u16 list \<Rightarrow> FlowSpec \<Rightarrow> FlowSpec \<Rightarrow> bool" where
  "FlowSpec_Equals ordA ordB a b =
     (if \<not> FlowKeys_Equals ordA ordB (flow_keys a) (flow_keys b) then False
      else if length (flow_actions a) \<noteq> length (flow_actions b) then False
      else list_all (\<lambda>i. action_Equals (flow_actions a ! i) (flow_actions b ! i))
             [0..<length (flow_actions a)])"

section \<open>Parsing\<close>

fun parse_actions :: "ranger \<Rightarrow> Attr list \<Rightarrow> Action list \<Rightarrow> Action list res" where
  "parse_actions rng [] actions = Ok actions"
| "parse_actions rng ((t, val) # as) actions =
     (case actionParsers rng t of
        None \<Rightarrow> Err (UnknownActionType t val)
      | Some parser \<Rightarrow> res_bind (parser t val) (\<lambda>action.
          parse_actions rng as (actions @ [action])))"

text \<open>The orders of the loops over the parsed keys, the parsed masks and a set action.\<close>

record rangers =
  rngK :: ranger
  rngM :: ranger
  rngS :: ranger

definition parseFlowSpec :: "rangers \<Rightarrow> Attrs \<Rightarrow> FlowSpec res" where
  "parseFlowSpec rng attrs =
     res_bind (GetNestedAttrs attrs OVS_FLOW_ATTR_KEY False) (\<lambda>keys.
     res_bind (GetNestedAttrs attrs OVS_FLOW_ATTR_MASK True) (\<lambda>masks.
     let ks = (case keys of None \<Rightarrow> Map.empty | Some ks \<Rightarrow> ks);
         ms = (case masks of None \<Rightarrow> Map.empty | Some ms \<Rightarrow> ms)
     in res_bind (ParseFlowKeys (rngK rng ks) (rngM rng ms) ks masks) (\<lambda>fks.
     res_bind (GetOrderedAttrs attrs OVS_FLOW_ATTR_ACTIONS) (\<lambda>actattrs.
     res_bind (parse_actions (rngS rng) actattrs []) (\<lambda>actions.
     Ok \<lparr>flow_keys = fks, flow_actions = actions\<rparr>)))))"

record FlowInfo = FlowSpec +
  Packets :: u64
  Bytes :: u64
  Used :: u64

definition parseFlowInfo :: "rangers \<Rightarrow> Attrs \<Rightarrow> FlowInfo res" where
  "parseFlowInfo rng attrs =
     res_bind (parseFlowSpec rng attrs) (\<lambda>spec.
     let fi = \<lparr>flow_keys = flow_keys spec, flow_actions = flow_actions spec,
               Packets = 0, Bytes = 0, Used = 0\<rparr> in
     res_bind (GetFixedBytes attrs OVS_FLOW_ATTR_STATS SizeofOvsFlowStats True) (\<lambda>statsBytes.
     res_bind (case statsBytes of
         None \<Rightarrow> Ok fi
       | Some b \<Rightarrow> res_bind (ovsFlowStatsAt b 0) (\<lambda>stats.
           Ok (fi\<lparr>Packets := NPackets stats, Bytes := NBytes stats\<rparr>))) (\<lambda>fi.
     res_bind (GetOptionalUint64 attrs OVS_FLOW_ATTR_USED) (\<lambda>(used, usedPresent).
     if usedPresent then Ok (fi\<lparr>Used := used\<rparr>) else Ok fi))))"

section \<open>Encoding as attribute trees\<close>

definition flow_trees :: "u16 list \<Rightarrow> u16 list \<Rightarrow> FlowSpec \<Rightarrow> nla list" where
  "flow_trees ordK ordM f = key_set_trees ordK ordM (flow_keys f) @
     [Nested OVS_FLOW_ATTR_ACTIONS (map action_nla (flow_actions f))]"

lemma actions_emit: "attr_emitter (seq_gens (map action_toNlAttr as)) (map action_nla as)"
proof -
  have "list_all2 attr_emitter (map action_toNlAttr as) (map (\<lambda>a. [action_nla a]) as)"
    by (simp add: list_all2_map1 list_all2_map2 list.rel_refl put_action.attr_emitter_axioms)
  from seq_gens_emits [OF this] show ?thesis by (simp add: concat_map_singleton)
qed

lemma FlowSpec_toNlAttrs_emits:
  assumes "range_order ordM (flow_keys f)" "serializable (flow_keys f)"
  shows "attr_emitter (FlowSpec_toNlAttrs ordK ordM f) (flow_trees ordK ordM f)"
proof -
  have "FlowSpec_toNlAttrs ordK ordM f = seq_gen (FlowKeys_toNlAttrs ordK ordM (flow_keys f))
      (PutNestedAttrs OVS_FLOW_ATTR_ACTIONS (seq_gens (map action_toNlAttr (flow_actions f))))"
    by (rule ext) (simp add: FlowSpec_toNlAttrs_def seq_gen_def)
  then show ?thesis
    using seq_gen_emits [OF FlowKeys_toNlAttrs_emits [OF assms] PutNestedAttrs_emits [OF actions_emit]]
    by (simp add: flow_trees_def)
qed

section \<open>Round trip\<close>

lemma parse_reported_actions:
  assumes "list_all2 reports_action as xs" "list_all action_wf as"
  obtains bs where "parse_actions rng (map (\<lambda>a. (nla_type a, nla_payload a)) xs) acc = Ok (acc @ bs)"
    "list_all2 action_Equals as bs"
proof -
  have "\<exists>bs. parse_actions rng (map (\<lambda>a. (nla_type a, nla_payload a)) xs) acc = Ok (acc @ bs) \<and>
      list_all2 action_Equals as bs"
    using assms
  proof (induction as xs arbitrary: acc rule: list_all2_induct)
    case (Cons a as x xs)
    obtain b p where p: "actionParsers rng (nla_type x) = Some p" "p (nla_type x) (nla_payload x) = Ok b"
      "action_Equals a b"
      using Cons.prems by (auto intro: parse_reported_action [OF _ Cons.hyps(1), of rng])
    obtain bs where "parse_actions rng (map (\<lambda>a. (nla_type a, nla_payload a)) xs) (acc @ [b]) = Ok ((acc @ [b]) @ bs)"
      "list_all2 action_Equals as bs"
      using Cons.IH [of "acc @ [b]"] Cons.prems by auto
    with p show ?case by (intro exI [of _ "b # bs"]) simp
  qed simp
  then show thesis using that by blast
qed

lemma flow_trees_lookup:
  "attrs_of (flow_trees ordK ordM f) OVS_FLOW_ATTR_KEY =
     Some (pad4 (enc_nlas (key_trees ordK (flow_keys f))))"
  "attrs_of (flow_trees ordK ordM f) OVS_FLOW_ATTR_MASK =
     Some (pad4 (enc_nlas (mask_trees ordM (flow_keys f))))"
  "attrs_of (flow_trees ordK ordM f) OVS_FLOW_ATTR_ACTIONS =
     Some (pad4 (enc_nlas (map action_nla (flow_actions f))))"
  by (simp_all add: flow_trees_def key_set_trees_def attrs_of_def)

definition rangers_ok :: "rangers \<Rightarrow> bool" where
  "rangers_ok rng \<longleftrightarrow> range_ok (rngK rng) \<and> range_ok (rngM rng) \<and> range_ok (rngS rng)"

definition flow_wf :: "FlowSpec \<Rightarrow> bool" where
  "flow_wf f \<longleftrightarrow> keys_wf (flow_keys f) \<and> serializable (flow_keys f) \<and> list_all action_wf (flow_actions f)"

text \<open>
  The attributes that report a flow: key, mask and action lists in the form of
  \<open>reports_keys\<close> and \<open>reports_action\<close>.
\<close>

definition reports_spec :: "FlowSpec \<Rightarrow> Attrs \<Rightarrow> bool" where
  "reports_spec f attrs \<longleftrightarrow> (\<exists>K M A.
     list_all fits K \<and> list_all fits M \<and> list_all fits A \<and>
     attrs OVS_FLOW_ATTR_KEY = Some (pad4 (enc_nlas K)) \<and>
     attrs OVS_FLOW_ATTR_MASK = Some (pad4 (enc_nlas M)) \<and>
     attrs OVS_FLOW_ATTR_ACTIONS = Some (pad4 (enc_nlas A)) \<and>
     reports_keys (flow_keys f) (attrs_of K) (attrs_of M) \<and> list_all2 reports_action (flow_actions f) A)"

lemma parseFlowSpec_reported:
  assumes f: "faithful_keys (flow_keys f)" "list_all action_wf (flow_actions f)"
    and rep: "reports_spec f attrs" and rng: "rangers_ok rng"
  obtains f' where "parseFlowSpec rng attrs = Ok f'" "keys_eq (flow_keys f) (flow_keys f')"
    "list_all2 action_Equals (flow_actions f) (flow_actions f')"
proof -
  obtain K M A where fits: "list_all fits K" "list_all fits M" "list_all fits A" and
    at: "attrs OVS_FLOW_ATTR_KEY = Some (pad4 (enc_nlas K))" "attrs OVS_FLOW_ATTR_MASK = Some (pad4 (enc_nlas M))"
      "attrs OVS_FLOW_ATTR_ACTIONS = Some (pad4 (enc_nlas A))" and
    rep: "reports_keys (flow_keys f) (attrs_of K) (attrs_of M)" "list_all2 reports_action (flow_actions f) A"
    using rep unfolding reports_spec_def by blast
  have get: "GetNestedAttrs attrs OVS_FLOW_ATTR_KEY False = Ok (Some (attrs_of K))"
    "GetNestedAttrs attrs OVS_FLOW_ATTR_MASK True = Ok (Some (attrs_of M))"
    "GetOrderedAttrs attrs OVS_FLOW_ATTR_ACTIONS = Ok (map (\<lambda>a. (nla_type a, nla_payload a)) A)"
    by (rule GetNestedAttrs_enc GetOrderedAttrs_enc, rule fits, rule at)+
  have "range_order (rngK rng (attrs_of K)) (attrs_of K)" "range_order (rngM rng (attrs_of M)) (attrs_of M)"
    using rng by (simp_all add: rangers_ok_def range_ok_def)
  then obtain fks where fks: "ParseFlowKeys (rngK rng (attrs_of K)) (rngM rng (attrs_of M)) (attrs_of K) (Some (attrs_of M)) = Ok fks"
    "keys_eq (flow_keys f) fks"
    by (rule ParseFlowKeys_reported [OF f(1) rep(1)])
  obtain as where "parse_actions (rngS rng) (map (\<lambda>a. (nla_type a, nla_payload a)) A) [] = Ok ([] @ as)"
    "list_all2 action_Equals (flow_actions f) as"
    by (rule parse_reported_actions [OF rep(2) f(2)])
  then show thesis using that [of "\<lparr>flow_keys = fks, flow_actions = as\<rparr>"] get fks
    by (simp add: parseFlowSpec_def Let_def del: ovs_consts)
qed

text \<open>In particular, the attributes with which the flow was created report it.\<close>

lemma created_reports_spec:
  assumes f: "faithful_keys (flow_keys f)" "serializable (flow_keys f)" "list_all action_wf (flow_actions f)"
    and ord: "range_order ordK (flow_keys f)" "range_order ordM (flow_keys f)"
    and fit: "list_all fits (flow_trees ordK ordM f)"
  shows "reports_spec f (attrs_of (flow_trees ordK ordM f))"
proof -
  have "list_all2 reports_action (flow_actions f) (map action_nla (flow_actions f))"
    using f(3) sent_action_reported by (auto simp: list_all2_conv_all_nth list_all_length)
  moreover have "list_all fits (key_trees ordK (flow_keys f))" "list_all fits (mask_trees ordM (flow_keys f))"
    "list_all fits (map action_nla (flow_actions f))"
    using fit fits_children by (auto simp: flow_trees_def key_set_trees_def)
  ultimately show ?thesis
    unfolding reports_spec_def
    by (intro exI conjI) (assumption | rule flow_trees_lookup sent_keys_reported [OF f(1,2) ord])+
qed

section \<open>Comparing flows\<close>

lemma FlowSpec_Equals_iff:
  assumes "range_order ordA (flow_keys a)" "range_order ordB (flow_keys b)"
  shows "FlowSpec_Equals ordA ordB a b \<longleftrightarrow>
    keys_eq (flow_keys a) (flow_keys b) \<and> list_all2 action_Equals (flow_actions a) (flow_actions b)"
  using FlowKeys_Equals_iff [OF assms]
  by (auto simp: FlowSpec_Equals_def keys_eq_def list_all2_conv_all_nth list_all_iff)

definition flow_eq :: "FlowSpec \<Rightarrow> FlowSpec \<Rightarrow> bool" where
  "flow_eq a b \<longleftrightarrow>
     keys_eq (flow_keys a) (flow_keys b) \<and> list_all2 action_Equals (flow_actions a) (flow_actions b)"

interpretation flow_equality: equality flow_eq "\<lambda>f. comparable_keys (flow_keys f)"
proof
  fix a b c :: FlowSpec
  assume a: "comparable_keys (flow_keys a)"
  show "flow_eq a a"
    using flow_keys_equality.eq_refl [OF a] action_equality.eq_refl
    by (simp add: flow_eq_def list_all2_refl)
  assume b: "comparable_keys (flow_keys b)" and ab: "flow_eq a b"
  show "flow_eq b a"
    using flow_keys_equality.eq_sym [OF a b] ab action_equality.eq_sym
    by (auto simp: flow_eq_def list_all2_conv_all_nth)
  assume c: "comparable_keys (flow_keys c)" and bc: "flow_eq b c"
  have "list_all2 action_Equals (flow_actions a) (flow_actions c)"
    by (rule list_all2_trans [of action_Equals action_Equals action_Equals _ "flow_actions b"])
      (use ab bc action_equality.eq_trans in \<open>auto simp: flow_eq_def\<close>)
  then show "flow_eq a c"
    using flow_keys_equality.eq_trans [OF a b c] ab bc by (simp add: flow_eq_def)
qed

section \<open>Properties\<close>

text \<open>
  Property C20: \<^verbatim>\<open>FlowSpec.Equals\<close> is an equivalence on flows with comparable key sets, whatever the
  iteration orders: it is reflexive, symmetric and transitive.
\<close>

theorem FlowSpec_Equals_equivalence:
  assumes "comparable_keys (flow_keys a)" "comparable_keys (flow_keys b)" "comparable_keys (flow_keys c)"
    "range_order oa (flow_keys a)" "range_order ob (flow_keys b)" "range_order oc (flow_keys c)"
  shows "FlowSpec_Equals oa oa a a \<and> FlowSpec_Equals oa ob a b = FlowSpec_Equals ob oa b a \<and>
    (FlowSpec_Equals oa ob a b \<longrightarrow> FlowSpec_Equals ob oc b c \<longrightarrow> FlowSpec_Equals oa oc a c)"
proof -
  have eq: "FlowSpec_Equals ox oy x y = flow_eq x y"
    if "range_order ox (flow_keys x)" "range_order oy (flow_keys y)" for ox oy x y
    using FlowSpec_Equals_iff [OF that] by (simp add: flow_eq_def)
  show ?thesis
    unfolding eq [OF assms(4,4)] eq [OF assms(4,5)] eq [OF assms(5,4)] eq [OF assms(5,6)] eq [OF assms(4,6)]
    using flow_equality.eq_refl [OF assms(1)] flow_equality.eq_commute [OF assms(1,2)]
      flow_equality.eq_trans [OF assms(1-3)] by blast
qed

theorem FlowSpec_Equals_equivalence_witness:
  "FlowSpec_Equals [] [] NewFlowSpec (AddAction (NewOutputAction 1) NewFlowSpec) =
   FlowSpec_Equals [] [] (AddAction (NewOutputAction 1) NewFlowSpec) NewFlowSpec"
  using FlowSpec_Equals_equivalence [of NewFlowSpec "AddAction (NewOutputAction 1) NewFlowSpec" NewFlowSpec
      "[]" "[]" "[]"]
  by (simp add: NewFlowSpec_def AddAction_def comparable_keys_def range_order_def)

text \<open>
  Property C37: a set action on a header other than the tunnel does not survive being sent
  again.  It parses to a \<^verbatim>\<open>SetUnknownAction\<close>, whose \<^verbatim>\<open>toNlAttr\<close> writes the inner attribute
  without the enclosing \<^verbatim>\<open>OVS_ACTION_ATTR_SET\<close>.  In a list of actions what was written is refused as
  an action of unknown type, or, when the type of the header is that of an output action, read as an
  output.
\<close>

theorem set_unknown_loses_its_wrapper:
  assumes "range_ok rng" "t \<noteq> OVS_KEY_ATTR_TUNNEL" "fits (Raw t d)"
    "t = OVS_TUNNEL_KEY_ATTR_IPV4_DST \<Longrightarrow> length d \<noteq> 4" "t = OVS_TUNNEL_KEY_ATTR_IPV6_DST \<Longrightarrow> length d \<noteq> 16"
  shows "parseSetAction rng OVS_ACTION_ATTR_SET (enc_nlas [Raw t d]) = Ok (SetUnknownAction t d) \<and>
    (\<forall>m. builder_ok m \<longrightarrow> (\<exists>m'. action_toNlAttr (SetUnknownAction t d) m = Ok m' \<and>
       mbytes m' = pad4 (mbytes m) @ nla_frame t d)) \<and>
    (t \<noteq> OVS_ACTION_ATTR_SET \<longrightarrow> attrs OVS_FLOW_ATTR_ACTIONS = Some (pad4 (nla_frame t d)) \<longrightarrow>
      res_bind (GetOrderedAttrs attrs OVS_FLOW_ATTR_ACTIONS) (\<lambda>as. parse_actions rng' as []) =
        (if t \<noteq> OVS_ACTION_ATTR_OUTPUT then Err (UnknownActionType t d)
         else if length d < 4 then Err (ActionWrongLength t (length d))
         else res_bind (uint32At d 0) (\<lambda>v. Ok [OutputAction v])))"
proof (intro conjI allI impI)
  have attrs: "attrs_of [Raw t d] = [t \<mapsto> d]" by (simp add: attrs_of_def)
  have "range_order (rng [t \<mapsto> d]) [t \<mapsto> d]" using assms(1) by (simp add: range_ok_def)
  then have "rng [t \<mapsto> d] = [t]"
    by (cases "rng [t \<mapsto> d]") (auto simp: range_order_def subset_singleton_iff)
  moreover have "ParseNestedAttrs (enc_nlas [Raw t d]) = Ok [t \<mapsto> d]"
    using ParseNestedAttrs_enc [of "[Raw t d]"] assms(3) by (simp add: attrs)
  ultimately show "parseSetAction rng OVS_ACTION_ATTR_SET (enc_nlas [Raw t d]) = Ok (SetUnknownAction t d)"
    using assms(2,4,5) by (auto simp: parseSetAction_def simp del: ovs_consts)
  show "\<exists>m'. action_toNlAttr (SetUnknownAction t d) m = Ok m' \<and>
      mbytes m' = pad4 (mbytes m) @ nla_frame t d" if "builder_ok m" for m
    using put_slice.emits [OF that, of t d] by (auto simp: attach_single)
  assume t: "t \<noteq> OVS_ACTION_ATTR_SET" "attrs OVS_FLOW_ATTR_ACTIONS = Some (pad4 (nla_frame t d))"
  have "GetOrderedAttrs attrs OVS_FLOW_ATTR_ACTIONS = Ok [(t, d)]"
    using GetOrderedAttrs_enc [of "[Raw t d]" attrs OVS_FLOW_ATTR_ACTIONS] t(2) assms(3) by simp
  then show "res_bind (GetOrderedAttrs attrs OVS_FLOW_ATTR_ACTIONS) (\<lambda>as. parse_actions rng' as []) =
      (if t \<noteq> OVS_ACTION_ATTR_OUTPUT then Err (UnknownActionType t d)
       else if length d < 4 then Err (ActionWrongLength t (length d))
       else res_bind (uint32At d 0) (\<lambda>v. Ok [OutputAction v]))"
    using t(1) by (simp add: actionParsers_def parseOutputAction_def res_bind_assoc)
qed

theorem set_unknown_loses_its_wrapper_witness:
  "parseSetAction ascending OVS_ACTION_ATTR_SET (enc_nlas [Raw OVS_KEY_ATTR_ETHERTYPE [8, 0]]) =
     Ok (SetUnknownAction OVS_KEY_ATTR_ETHERTYPE [8, 0]) \<and>
   res_bind (GetOrderedAttrs [OVS_FLOW_ATTR_ACTIONS \<mapsto> pad4 (nla_frame OVS_KEY_ATTR_ETHERTYPE [8, 0])] OVS_FLOW_ATTR_ACTIONS)
     (\<lambda>as. parse_actions ascending as []) = Err (UnknownActionType OVS_KEY_ATTR_ETHERTYPE [8, 0])"
  using set_unknown_loses_its_wrapper [OF ascending_ok, of OVS_KEY_ATTR_ETHERTYPE "[8, 0]"
      "[OVS_FLOW_ATTR_ACTIONS \<mapsto> pad4 (nla_frame OVS_KEY_ATTR_ETHERTYPE [8, 0])]" ascending]
  by (simp add: fits_def)

end
