(* ===== verification/Dpif.thy ===== *)
theory Dpif
  imports Genetlink Flow_Specs
begin

text \<open>
  Model of \<^verbatim>\<open>odp/dpif.go\<close>: the handle on the Open vSwitch families, the lookup of a family with
  the attempt to load the kernel module, and the headers of every message.
\<close>

definition DATAPATH :: nat where "DATAPATH = 0"
definition VPORT :: nat where "VPORT = 1"
definition FLOW :: nat where "FLOW = 2"
definition PACKET :: nat where "PACKET = 3"
definition FAMILY_COUNT :: nat where "FAMILY_COUNT = 4"

lemmas family_consts = DATAPATH_def VPORT_def FLOW_def PACKET_def FAMILY_COUNT_def

definition familyNames :: "string list" where
  "familyNames = [''ovs_datapath'', ''ovs_vport'', ''ovs_flow'', ''ovs_packet'']"

text \<open>The socket is a reference into the heap of sockets; the family table is an array.\<close>

record Dpif =
  dpif_sock :: nat
  families :: "GenlFamily list"

definition ENOENT :: u64 where "ENOENT = 2"
definition EMFILE :: u64 where "EMFILE = 24"
definition EEXIST :: u64 where "EEXIST = 17"
definition ENODEV :: u64 where "ENODEV = 19"

definition IsKernelLacksODPError :: "error \<Rightarrow> bool" where
  "IsKernelLacksODPError err = (case err of FamilyUnavailable _ \<Rightarrow> True | _ \<Rightarrow> False)"

section \<open>Finding the families\<close>

text \<open>
  The module is loaded by an ioctl on a socket of its own, which is tried once in the life of the
  program.  The call that opens this socket is refused when no answer to it is listed.
\<close>

definition loadOpenvswitchModule :: "sys \<Rightarrow> sys" where
  "loadOpenvswitchModule w =
     (if triedLoad w then w
      else (case dgrams w of
          Inr s # ds \<Rightarrow>
            snd (sys_close s (log (SysIoctl s ''openvswitch'') (log (SysSocket 0 (Inr s))
              (w\<lparr>dgrams := ds, triedLoad := True\<rparr>))))
        | Inl e # ds \<Rightarrow> log (SysSocket 0 (Inl e)) (w\<lparr>dgrams := ds, triedLoad := True\<rparr>)
        | [] \<Rightarrow> log (SysSocket 0 (Inl EMFILE)) (w\<lparr>triedLoad := True\<rparr>)))"

definition lookupFamily :: "ranger \<Rightarrow> nat \<Rightarrow> string \<Rightarrow> sys \<Rightarrow> (GenlFamily, sys) outcome" where
  "lookupFamily rng s name w =
     (case LookupGenlFamily rng s name w of
        (Err e, w) \<Rightarrow>
          (if e = NetlinkError ENOENT
           then (case LookupGenlFamily rng s name (loadOpenvswitchModule w) of
                   (Err e', w) \<Rightarrow>
                     (Err (if e' = NetlinkError ENOENT then FamilyUnavailable name else e'), w)
                 | r \<Rightarrow> r)
           else (Err e, w))
      | r \<Rightarrow> r)"

fun lookup_families ::
    "ranger \<Rightarrow> nat \<Rightarrow> string list \<Rightarrow> GenlFamily list \<Rightarrow> sys \<Rightarrow> (GenlFamily list, sys) outcome" where
  "lookup_families rng s [] fams w = (Ok fams, w)"
| "lookup_families rng s (name # names) fams w =
     and_then (lookupFamily rng s name w) (\<lambda>f w.
       lookup_families rng s names (fams @ [f]) w)"

text \<open>On failure the socket is closed and the error of the lookup returned.\<close>

definition NewDpif :: "ranger \<Rightarrow> sys \<Rightarrow> (Dpif, sys) outcome" where
  "NewDpif rng w =
     and_then (OpenNetlinkSocket NETLINK_GENERIC w) (\<lambda>s w.
       case lookup_families rng s familyNames [] w of
         (Ok fams, w) \<Rightarrow> (Ok \<lparr>dpif_sock = s, families = fams\<rparr>, w)
       | (Err e, w) \<Rightarrow> (Err e, snd (Close s w))
       | (Crash c, w) \<Rightarrow> (Crash c, w)
       | (Blocked b, w) \<Rightarrow> (Blocked b, w))"

definition Reopen :: "Dpif \<Rightarrow> sys \<Rightarrow> (Dpif, sys) outcome" where
  "Reopen dpif w =
     and_then (OpenNetlinkSocket NETLINK_GENERIC w) (\<lambda>s w.
       (Ok \<lparr>dpif_sock = s, families = families dpif\<rparr>, w))"

definition getMCGroup :: "Dpif \<Rightarrow> nat \<Rightarrow> string \<Rightarrow> u32 res" where
  "getMCGroup dpif family name =
     (case mcGroups (families dpif ! family) name of
        None \<Rightarrow> Err (NoMCGroup name (familyNames ! family))
      | Some g \<Rightarrow> Ok g)"

definition Dpif_Close :: "Dpif \<Rightarrow> sys \<Rightarrow> (unit, sys) outcome" where
  "Dpif_Close dpif w = Close (dpif_sock dpif) w"

definition Cancel :: "Dpif \<Rightarrow> sys \<Rightarrow> (unit, sys) outcome" where
  "Cancel dpif w = Dpif_Close dpif w"

section \<open>Message headers\<close>

definition putOvsHeader :: "i32 \<Rightarrow> generator" where
  "putOvsHeader ifindex m =
     res_bind (AlignGrow NLMSG_ALIGNTO SizeofOvsHeader m) (\<lambda>(pos, m).
     poke_buf pos 0 (enc_word 4 ifindex) m)"

definition takeOvsHeader :: "NlMsgParser \<Rightarrow> (OvsHeader \<times> NlMsgParser) res" where
  "takeOvsHeader p =
     res_bind (AlignAdvance NLMSG_ALIGNTO SizeofOvsHeader p) (\<lambda>(pos, p).
     res_bind (ovsHeaderAt (pdata p) pos) (\<lambda>h. Ok (h, p)))"

definition datapathID :: "OvsHeader \<Rightarrow> i32" where
  "datapathID h = DpIfIndex h"

definition fallback_cmd :: "nat \<Rightarrow> int" where
  "fallback_cmd family =
     (if family = DATAPATH then uint OVS_DP_CMD_NEW
      else if family = VPORT then uint OVS_VPORT_CMD_NEW
      else if family = FLOW then uint OVS_FLOW_CMD_NEW else -1)"

definition checkNlMsgHeaders ::
    "Dpif \<Rightarrow> NlMsgParser \<Rightarrow> nat \<Rightarrow> int \<Rightarrow> (GenlMsghdr \<times> OvsHeader \<times> NlMsgParser) res" where
  "checkNlMsgHeaders dpif msg family cmd =
     res_bind (ExpectNlMsghdr (fam_id (families dpif ! family)) msg) (\<lambda>(_, msg).
     res_bind (CheckGenlMsghdr cmd (fallback_cmd family) msg) (\<lambda>(genlhdr, msg).
     res_bind (takeOvsHeader msg) (\<lambda>(ovshdr, msg).
     Ok (genlhdr, ovshdr, msg))))"

section \<open>Headers on the wire\<close>

text \<open>The body of a message of the Open vSwitch families.\<close>

definition ovs_body :: "u8 \<Rightarrow> u8 \<Rightarrow> i32 \<Rightarrow> nla list \<Rightarrow> bytes" where
  "ovs_body cmd version ifindex ts = genl_hdr cmd version @ enc_word 4 ifindex @ enc_nlas ts"

lemma putOvsHeader_spec:
  assumes "builder_ok m"
  obtains m' where "putOvsHeader ifindex m = Ok m'" "builder_ok m'"
    "mbytes m' = pad4 (mbytes m) @ enc_word 4 ifindex"
proof -
  let ?pos = "align (length (mbytes m)) 4" and ?a = "pad4 (mbytes m)"
  obtain m1 where m1: "AlignGrow 4 4 m = Ok (?pos, m1)" "builder_ok m1"
    "mbytes m1 = ?a @ replicate 4 0" using assms by (rule AlignGrow4_spec)
  obtain m2 where m2: "poke_buf ?pos 0 (enc_word 4 ifindex) m1 = Ok m2" "builder_ok m2"
    "mbytes m2 = write_at (mbytes m1) (?pos + 0) (enc_word 4 ifindex)"
    by (rule poke_buf_spec [of m1 ?pos 0 "enc_word 4 ifindex"]) (use m1(2) in \<open>simp_all add: m1(3)\<close>)
  have "mbytes m2 = ?a @ enc_word 4 ifindex"
    using m2(3) write_at_append [of "?pos" ?a "enc_word 4 ifindex" "replicate 4 0" "[]"] by (simp add: m1(3))
  then show thesis using that [of m2] m1(1) m2 by (simp add: putOvsHeader_def)
qed

text \<open>The opening of every request: generic header, Open vSwitch header, then attributes.\<close>

definition ovs_request :: "u8 \<Rightarrow> u8 \<Rightarrow> i32 \<Rightarrow> generator \<Rightarrow> generator" where
  "ovs_request cmd version ifindex gen = seq_gens [PutGenlMsghdr cmd version, putOvsHeader ifindex, gen]"

lemma ovs_request_ok:
  assumes "builder_ok m" "mbytes m = draft_bytes t fl []"
  obtains m' where "ovs_request cmd version ifindex gen m = gen m'" "builder_ok m'"
    "mbytes m' = draft_bytes t fl (genl_hdr cmd version @ enc_word 4 ifindex)"
proof -
  obtain m1 where m1: "PutGenlMsghdr cmd version m = Ok m1" "builder_ok m1"
    "mbytes m1 = pad4 (mbytes m) @ genl_hdr cmd version" by (rule PutGenlMsghdr_spec [OF assms(1)])
  obtain m2 where m2: "putOvsHeader ifindex m1 = Ok m2" "builder_ok m2"
    "mbytes m2 = pad4 (mbytes m1) @ enc_word 4 ifindex" by (rule putOvsHeader_spec [OF m1(2)])
  have "mbytes m2 = draft_bytes t fl (genl_hdr cmd version @ enc_word 4 ifindex)"
    using m2(3) m1(3) assms(2) by (simp add: pad4_draft draft_bytes_append)
  moreover have "ovs_request cmd version ifindex gen m = gen m2"
    using m1(1) m2(1) by (simp add: ovs_request_def seq_gen_def skip_gen_def)
  ultimately show thesis using m2(2) that by blast
qed

lemma ovs_request_emits:
  assumes "builder_ok m" "mbytes m = draft_bytes t fl []" "attr_emitter gen ts"
  obtains m' where "ovs_request cmd version ifindex gen m = Ok m'" "builder_ok m'"
    "mbytes m' = draft_bytes t fl (ovs_body cmd version ifindex ts)"
proof -
  obtain m1 where m1: "ovs_request cmd version ifindex gen m = gen m1" "builder_ok m1"
    "mbytes m1 = draft_bytes t fl (genl_hdr cmd version @ enc_word 4 ifindex)"
    by (rule ovs_request_ok [OF assms(1,2)])
  obtain m2 where m2: "gen m1 = Ok m2" "builder_ok m2" "mbytes m2 = attach (mbytes m1) ts"
    using attr_emitter.emits [OF assms(3) m1(2)] by blast
  have "mbytes m2 = draft_bytes t fl (ovs_body cmd version ifindex ts)"
    using m2(3) m1(3) by (simp add: attach_draft attach_aligned ovs_body_def)
  then show thesis using that [of m2] m1(1) m2 by simp
qed

lemma takeOvsHeader_hdr:
  assumes "pdata p = pre @ enc_word 4 ifindex @ post" "ppos p = length pre" "4 dvd length pre"
  shows "takeOvsHeader p = Ok (\<lparr>DpIfIndex = ifindex\<rparr>, p\<lparr>ppos := length pre + 4\<rparr>)"
proof -
  have "read_at (pdata p) (length pre + 0) 4 = enc_word 4 ifindex"
    using assms by (simp add: read_at_def)
  then have "ovsHeaderAt (pdata p) (length pre) = Ok \<lparr>DpIfIndex = ifindex\<rparr>"
    using assms by (simp add: ovsHeaderAt_def peek_Ok)
  moreover have "AlignAdvance 4 4 p = Ok (length pre, p\<lparr>ppos := length pre + 4\<rparr>)"
    using assms by (simp add: AlignAdvance_def Advance_def CheckAvailable_def align4_id Let_def)
  ultimately show ?thesis by (simp add: takeOvsHeader_def)
qed

text \<open>The commands the code accepts for a family: the expected one, or the fallback.\<close>

definition cmd_accepted :: "nat \<Rightarrow> int \<Rightarrow> u8 \<Rightarrow> bool" where
  "cmd_accepted family cmd c \<longleftrightarrow> cmd < 0 \<or> c = of_int cmd \<or>
     (0 \<le> fallback_cmd family \<and> c = of_int (fallback_cmd family))"

lemma nlmsg_bytes_split:
  "nlmsg_bytes t fl seq pid (a @ b) = take 16 (nlmsg_bytes t fl seq pid (a @ b)) @ a @ b"
  by (simp add: nlmsg_bytes_def)

lemma checkNlMsgHeaders_msg:
  assumes "4 dvd length pre" "msg = nlmsg_bytes u fl seq pid (ovs_body c v ifindex ts)"
  shows "checkNlMsgHeaders dpif \<lparr>pdata = pre @ msg, ppos = length pre\<rparr> family cmd =
    (if u \<noteq> fam_id (families dpif ! family) then Err (WrongType u (fam_id (families dpif ! family)))
     else if \<not> cmd_accepted family cmd c then Err (WrongGenlCmd c cmd (fallback_cmd family))
     else Ok (\<lparr>Cmd = c, Version = v, Reserved = 0\<rparr>, \<lparr>DpIfIndex = ifindex\<rparr>,
              \<lparr>pdata = pre @ msg, ppos = length pre + 24\<rparr>))"
proof -
  let ?h = "take 16 msg"
  have len: "length ?h = 16" by (simp add: assms(2))
  have msg: "msg = ?h @ genl_hdr c v @ enc_word 4 ifindex @ enc_nlas ts"
    using nlmsg_bytes_split [of u fl seq pid "genl_hdr c v"] by (simp add: assms(2) ovs_body_def)
  let ?p = "\<lambda>n. \<lparr>pdata = pre @ msg, ppos = length pre + n\<rparr>"
  have "CheckGenlMsghdr cmd (fallback_cmd family) (?p 16) =
      (if \<not> cmd_accepted family cmd c then Err (WrongGenlCmd c cmd (fallback_cmd family))
       else Ok (\<lparr>Cmd = c, Version = v, Reserved = 0\<rparr>, ?p 20))"
    using CheckGenlMsghdr_hdr [of "?p 16" "pre @ ?h" c v "enc_word 4 ifindex @ enc_nlas ts"
        cmd "fallback_cmd family"] msg len assms(1)
    by (auto simp: cmd_accepted_def add.commute)
  moreover have "takeOvsHeader (?p 20) = Ok (\<lparr>DpIfIndex = ifindex\<rparr>, ?p 24)"
    using takeOvsHeader_hdr [of "?p 20" "pre @ ?h @ genl_hdr c v" ifindex "enc_nlas ts"] msg len assms(1)
    by (simp add: add.commute)
  moreover have "ExpectNlMsghdr t \<lparr>pdata = pre @ msg, ppos = length pre\<rparr> =
      (if u \<noteq> t then Err (WrongType u t)
       else Ok (\<lparr>Len = of_nat (16 + length (ovs_body c v ifindex ts)), Type = u, Flags = fl,
                 Seq = seq, Pid = pid\<rparr>, ?p 16))" for t
    unfolding assms(2) ExpectNlMsghdr_msg by simp
  ultimately show ?thesis by (simp add: checkNlMsgHeaders_def)
qed

lemma TakeAttrs_msg:
  assumes "4 dvd length pre" "msg = nlmsg_bytes u fl seq pid (ovs_body c v ifindex ts)" "list_all fits ts"
  obtains q where "TakeAttrs \<lparr>pdata = pre @ msg, ppos = length pre + 24\<rparr> = Ok (attrs_of ts, q)"
proof -
  let ?h = "take 24 msg"
  have msg: "msg = ?h @ enc_nlas ts" "length ?h = 24"
    by (simp_all add: assms(2) nlmsg_bytes_def ovs_body_def)
  have "map_res fst (TakeAttrs \<lparr>pdata = pre @ msg, ppos = length pre + 24\<rparr>) = Ok (attrs_of ts)"
    by (rule TakeAttrs_enc [of _ "pre @ ?h"]) (use assms(1,3) msg in simp_all)
  then show thesis using that by (auto simp: map_res_eq_Ok)
qed

section \<open>Opening a handle does not leak a descriptor\<close>

lemma LookupGenlFamily_same: "same_sockets (snd (LookupGenlFamily rng s name w)) w"
proof -
  obtain m' w1 where m: "w1 = w\<lparr>heaps := (\<lambda>i. heaps w (Suc i))\<rparr>" and
    eq: "LookupGenlFamily rng s name w = and_then (Request s m' w1) (\<lambda>resp w. (parse_family rng resp, w))"
    by (rule LookupGenlFamily_eq)
  obtain r v where rv: "Request s m' w1 = (r, v)" by (rule prod.exhaust)
  then have "same_sockets v w1" using Request_same [of s m' w1] by simp
  moreover have "same_sockets w1 w" using m by (simp add: same_sockets_def)
  ultimately have "same_sockets v w" by (rule same_sockets_trans)
  then show ?thesis unfolding eq rv by (cases r) simp_all
qed

definition same_fds :: "sys \<Rightarrow> sys \<Rightarrow> bool" where
  "same_fds v w \<longleftrightarrow> sockets v = sockets w \<and> nsockets v = nsockets w \<and> open_fds v = open_fds w"

lemma same_fds_trans: "same_fds u v \<Longrightarrow> same_fds v w \<Longrightarrow> same_fds u w"
  by (simp add: same_fds_def)

lemma same_sockets_fds: "same_sockets v w \<Longrightarrow> same_fds v w"
  by (simp add: same_sockets_def same_fds_def)

lemma load_same_fds: "same_fds (loadOpenvswitchModule w) w"
  by (auto simp: loadOpenvswitchModule_def same_fds_def sys_close_def split: list.split sum.split)

lemma lookupFamily_same_fds: "same_fds (snd (lookupFamily rng s name w)) w"
proof -
  obtain r v where v: "LookupGenlFamily rng s name w = (r, v)" by (rule prod.exhaust)
  obtain r' v' where v': "LookupGenlFamily rng s name (loadOpenvswitchModule v) = (r', v')"
    by (rule prod.exhaust)
  have "same_fds v w" using LookupGenlFamily_same [of rng s name w] v same_sockets_fds by simp
  moreover have "same_fds v' (loadOpenvswitchModule v)"
    using LookupGenlFamily_same [of rng s name "loadOpenvswitchModule v"] v' same_sockets_fds by simp
  moreover note load_same_fds [of v]
  ultimately have "same_fds v w" "same_fds v' w" by (metis same_fds_trans)+
  then show ?thesis using v v' by (cases r; cases r') (auto simp: lookupFamily_def)
qed

lemma lookup_families_same_fds: "same_fds (snd (lookup_families rng s names fams w)) w"
proof (induction names arbitrary: fams w)
  case (Cons name names)
  obtain r v where v: "lookupFamily rng s name w = (r, v)" by (rule prod.exhaust)
  then have "same_fds v w" using lookupFamily_same_fds [of rng s name w] by simp
  with v Cons.IH [of _ v] show ?case by (cases r) (auto intro: same_fds_trans)
qed (simp add: same_fds_def)

lemma lookup_families_length:
  "lookup_families rng s names fams w = (Ok fams', w') \<Longrightarrow> length fams' = length fams + length names"
proof (induction names arbitrary: fams w)
  case (Cons name names)
  then show ?case by (cases "lookupFamily rng s name w"; cases "fst (lookupFamily rng s name w)") auto
qed simp

lemma NewDpif_Ok:
  assumes "NewDpif rng w = (Ok d, w')"
  obtains fd pid where "dpif_sock d = nsockets w" "length (families d) = FAMILY_COUNT"
    "sockets w' = (sockets w)(dpif_sock d := \<lparr>sock_fd = fd, sock_pid = pid\<rparr>)" "open_fds w' = fd # open_fds w"
proof -
  obtain s w1 where op1: "OpenNetlinkSocket NETLINK_GENERIC w = (Ok s, w1)"
    using assms by (cases "OpenNetlinkSocket NETLINK_GENERIC w"; cases "fst (OpenNetlinkSocket NETLINK_GENERIC w)")
      (auto simp: NewDpif_def)
  obtain fams where fams: "lookup_families rng s familyNames [] w1 = (Ok fams, w')"
    and d: "d = \<lparr>dpif_sock = s, families = fams\<rparr>"
    using assms op1 by (auto simp: NewDpif_def split: prod.splits res.splits)
  have "length fams = 4" using lookup_families_length [OF fams] by (simp add: familyNames_def)
  moreover have "same_fds w' w1" using lookup_families_same_fds [of rng s familyNames "[]" w1] fams by simp
  moreover obtain fd pid where "s = nsockets w"
    "sockets w1 = (sockets w)(s := \<lparr>sock_fd = fd, sock_pid = pid\<rparr>)" "open_fds w1 = fd # open_fds w"
    by (rule OpenNetlinkSocket_Ok [OF op1])
  ultimately show thesis using that [of fd pid] d by (simp add: same_fds_def FAMILY_COUNT_def)
qed

text \<open>The kernel's descriptors are not negative.\<close>

definition good_fds :: "sys \<Rightarrow> bool" where
  "good_fds w \<longleftrightarrow> (\<forall>a \<in> set (opens w). \<forall>fd. oa_socket a = Inr fd \<longrightarrow> 0 \<le> fd)"

lemma NewDpif_Err:
  assumes "NewDpif rng w = (Err e, w')" "good_fds w"
  shows "open_fds w' = open_fds w"
proof -
  obtain r w1 where op1: "OpenNetlinkSocket NETLINK_GENERIC w = (r, w1)" by (rule prod.exhaust)
  show ?thesis
  proof (cases r)
    case (Ok s)
    obtain fd pid where s: "sockets w1 = (sockets w)(s := \<lparr>sock_fd = fd, sock_pid = pid\<rparr>)"
      "open_fds w1 = fd # open_fds w"
      by (rule OpenNetlinkSocket_Ok [OF op1 [unfolded Ok]])
    have fd: "0 \<le> fd" using op1 Ok s(1) assms(2)
      by (auto simp: OpenNetlinkSocket_def Let_def fun_eq_iff good_fds_def
          split: list.splits sum.splits option.splits sockaddr.splits if_splits)
    obtain w2 where w2: "lookup_families rng s familyNames [] w1 = (Err e, w2)" "w' = snd (Close s w2)"
      using assms(1) op1 Ok by (auto simp: NewDpif_def split: prod.splits res.splits)
    have "same_fds w2 w1" using lookup_families_same_fds [of rng s familyNames "[]" w1] w2(1) by simp
    then show ?thesis using w2(2) s fd Close_open_fds(1) [of w2 s] by (simp add: same_fds_def)
  next
    case (Err e')
    then show ?thesis using assms(1) op1 OpenNetlinkSocket_Err [of _ w e' w1] by (simp add: NewDpif_def)
  qed (use assms(1) op1 in \<open>simp_all add: NewDpif_def\<close>)
qed

section \<open>Families found and not found\<close>

lemma netlink_error_ENOENT: "netlink_error (- 2) = NetlinkError ENOENT"
  by (simp add: netlink_error_def ENOENT_def)

definition enoent_reply :: "u16 \<Rightarrow> u32 \<Rightarrow> u32 \<Rightarrow> bytes \<Rightarrow> recv_answer" where
  "enoent_reply fl seq pid rest =
     Datagram (nlmsg_bytes NLMSG_ERROR fl seq pid (enc_word 4 (- 2 :: i32) @ rest)) (NetlinkAddr 0)"

lemma answers_enoent:
  assumes "inbox_of s w = enoent_reply fl q (PortId s w) rest # as" "20 + length rest \<le> RECV_BUF"
  shows "answers s w NLMSG_ERROR fl q (enc_word 4 (- 2 :: i32) @ rest)"
proof -
  have "inbox_of s w = Datagram (nlmsg_bytes NLMSG_ERROR fl q (PortId s w) (enc_word 4 (- 2 :: i32) @ rest) @ [])
      (NetlinkAddr 0) # as" using assms(1) by (simp add: enoent_reply_def)
  moreover have "16 + length (enc_word 4 (- 2 :: i32) @ rest) + length ([] :: bytes) \<le> RECV_BUF"
    using assms(2) by simp
  ultimately show ?thesis unfolding answers_def by blast
qed

lemma load_sel [simp]:
  "sends (loadOpenvswitchModule w) = sends w" "fuel (loadOpenvswitchModule w) = fuel w"
  "nextSeqNo (loadOpenvswitchModule w) = nextSeqNo w" "PortId s (loadOpenvswitchModule w) = PortId s w"
  "inbox_of s (loadOpenvswitchModule w) = inbox_of s w" "triedLoad (loadOpenvswitchModule w)"
  by (auto simp: loadOpenvswitchModule_def sys_close_def PortId_def inbox_of_def
      split: list.split sum.split)

lemma lookupFamily_twice:
  assumes "sends w = []" "fuel w > 0" "20 + length rest \<le> RECV_BUF" "20 + length rest' \<le> RECV_BUF"
    "inbox_of s w = enoent_reply fl (nextSeqNo w + 1) (PortId s w) rest #
       enoent_reply fl' (nextSeqNo w + 2) (PortId s w) rest' # as"
  shows "lookupFamily rng s name w = (Err (FamilyUnavailable name),
    exchanged s GENL_ID_CTRL (family_request name) (loadOpenvswitchModule (exchanged s GENL_ID_CTRL (family_request name) w)))"
proof -
  let ?v = "loadOpenvswitchModule (exchanged s GENL_ID_CTRL (family_request name) w)"
  have "LookupGenlFamily rng s name w = (Err (netlink_error (- 2)), exchanged s GENL_ID_CTRL (family_request name) w)"
    using assms(1,2) answers_enoent [OF assms(5,3)] by (intro LookupGenlFamily_error) simp_all
  moreover have "nextSeqNo ?v + 1 = nextSeqNo w + 2" by simp
  then have "answers s ?v NLMSG_ERROR fl' (nextSeqNo ?v + 1) (enc_word 4 (- 2 :: i32) @ rest')"
    using assms(4,5) by (intro answers_enoent [of _ _ _ _ _ as]) (simp_all add: add.commute)
  then have "LookupGenlFamily rng s name ?v = (Err (netlink_error (- 2)), exchanged s GENL_ID_CTRL (family_request name) ?v)"
    using assms(1,2) by (intro LookupGenlFamily_error) simp_all
  ultimately show ?thesis unfolding netlink_error_ENOENT by (simp add: lookupFamily_def)
qed

text \<open>A reply that describes a family: its name, identifier and multicast groups.\<close>

record family_desc =
  fd_id :: u16
  fd_name :: string
  fd_groups :: groups

definition family_of :: "family_desc \<Rightarrow> GenlFamily" where
  "family_of d = \<lparr>fam_id = fd_id d, mcGroups = map_of (map snd (fd_groups d))\<rparr>"

definition family_reply_body :: "family_desc \<Rightarrow> bytes" where
  "family_reply_body d = genl_hdr CTRL_CMD_NEWFAMILY 2 @
     enc_nlas (family_trees (fd_id d) (fd_name d) (fd_groups d))"

definition family_reply :: "u32 \<Rightarrow> u32 \<Rightarrow> family_desc \<Rightarrow> recv_answer" where
  "family_reply seq pid d =
     Datagram (nlmsg_bytes GENL_ID_CTRL 0 seq pid (family_reply_body d)) (NetlinkAddr 0)"

definition desc_ok :: "family_desc \<Rightarrow> bool" where
  "desc_ok d \<longleftrightarrow> distinct (map fst (fd_groups d)) \<and> distinct (map (fst \<circ> snd) (fd_groups d)) \<and>
     list_all fits (family_trees (fd_id d) (fd_name d) (fd_groups d)) \<and>
     16 + length (family_reply_body d) \<le> RECV_BUF"

lemma lookupFamily_found:
  assumes "sends w = []" "fuel w > 0" "range_ok rng" "desc_ok d"
    "inbox_of s w = family_reply (nextSeqNo w + 1) (PortId s w) d # as"
  shows "lookupFamily rng s name w = (Ok (family_of d), exchanged s GENL_ID_CTRL (family_request name) w)"
proof -
  have "inbox_of s w = Datagram (nlmsg_bytes GENL_ID_CTRL 0 (nextSeqNo w + 1) (PortId s w)
      (family_reply_body d) @ []) (NetlinkAddr 0) # as" using assms(5) by (simp add: family_reply_def)
  then have "answers s w GENL_ID_CTRL 0 (nextSeqNo w + 1) (family_reply_body d)"
    using assms(4) unfolding answers_def desc_ok_def by fastforce
  then have "LookupGenlFamily rng s name w =
      (parse_family rng (Some \<lparr>pdata = nlmsg_bytes GENL_ID_CTRL 0 (nextSeqNo w + 1) (PortId s w)
        (family_reply_body d), ppos = 0\<rparr>), exchanged s GENL_ID_CTRL (family_request name) w)"
    using assms(1,2) by (intro LookupGenlFamily_reply) (simp_all add: NLMSG_ERROR_def)
  moreover have "parse_family rng (Some \<lparr>pdata = nlmsg_bytes GENL_ID_CTRL 0 (nextSeqNo w + 1) (PortId s w)
        (family_reply_body d), ppos = 0\<rparr>) = Ok (family_of d)"
    unfolding family_of_def family_reply_body_def using assms(3,4)
    by (intro parse_family_reply) (auto simp: desc_ok_def)
  ultimately show ?thesis by (simp add: lookupFamily_def)
qed

lemma lookup_families_found:
  assumes "sends w = []" "fuel w > 0" "range_ok rng" "list_all desc_ok ds" "length names = length ds"
    "inbox_of s w = map (\<lambda>i. family_reply (nextSeqNo w + 1 + of_nat i) (PortId s w) (ds ! i)) [0..<length ds] @ as"
  shows "lookup_families rng s names fams w = (Ok (fams @ map family_of ds),
    fold (\<lambda>name. exchanged s GENL_ID_CTRL (family_request name)) names w)"
  using assms
proof (induction ds arbitrary: names fams w)
  case (Cons d ds)
  obtain name names' where names: "names = name # names'" using Cons.prems(5) by (cases names) auto
  let ?w = "exchanged s GENL_ID_CTRL (family_request name) w"
  have upt: "[0..<length (d # ds)] = 0 # map Suc [0..<length ds]"
    unfolding map_Suc_upt list.size by (subst upt_conv_Cons) simp_all
  have inbox: "inbox_of s w = family_reply (nextSeqNo w + 1) (PortId s w) d #
      (map (\<lambda>i. family_reply (nextSeqNo w + 2 + of_nat i) (PortId s w) (ds ! i)) [0..<length ds] @ as)"
    using Cons.prems(6) unfolding upt by (simp add: o_def add.assoc)
  have "lookupFamily rng s name w = (Ok (family_of d), ?w)"
    using Cons.prems(1-4) inbox by (intro lookupFamily_found) simp_all
  moreover have "lookup_families rng s names' (fams @ [family_of d]) ?w =
      (Ok ((fams @ [family_of d]) @ map family_of ds),
       fold (\<lambda>name. exchanged s GENL_ID_CTRL (family_request name)) names' ?w)"
    using Cons.prems names inbox by (intro Cons.IH) (simp_all add: add.assoc)
  ultimately show ?case by (simp add: names)
qed simp

section \<open>Properties\<close>

text \<open>The system calls of one request to the control family.\<close>

definition family_calls :: "int \<Rightarrow> u32 \<Rightarrow> string \<Rightarrow> syscall list" where
  "family_calls fd seq name =
     [SysSendto fd (nlmsg_bytes GENL_ID_CTRL RequestFlags seq 0 (family_request name)), SysRecvfrom fd]"

lemma exchanged_family_trace:
  "trace (exchanged s GENL_ID_CTRL (family_request name) w) =
     trace w @ family_calls (sock_fd (sockets w s)) (nextSeqNo w + 1) name"
  by (simp add: exchanged_def sent_state_def recvd_state_def log_def Let_def family_calls_def)


text \<open>A kernel in which the identifier of a family depends on its name.\<close>

definition demo_kernel :: "string \<Rightarrow> family_desc" where
  "demo_kernel name =
     (let n = take 15 name in \<lparr>fd_id = 20 + of_nat (length n), fd_name = n, fd_groups = [(1, ''g'', 5)]\<rparr>)"

definition demo_open :: "recv_answer list \<Rightarrow> sys" where
  "demo_open as = (idle_sys as)\<lparr>opens := [\<lparr>oa_socket = Inr 4, oa_setsockopt = None, oa_bind = None,
     oa_name = Inr (NetlinkAddr 7)\<rparr>]\<rparr>"

lemma demo_kernel_ok: "desc_ok (demo_kernel name)"
proof -
  have "min (length name) 15 \<le> 15" by simp
  then have "min (length name) 15 < 65531" "(8 + min (length name) 15) div 4 \<le> 16371" by linarith+
  then show ?thesis
    by (simp add: desc_ok_def demo_kernel_def Let_def family_trees_def group_nla_def fits_def family_reply_body_def
        nla_frame_def align4 RECV_BUF_def)
qed


text \<open>
  Property C17: \<^verbatim>\<open>NewDpif\<close> does not leak a descriptor.  On success the only new open descriptor is
  that of the returned handle, which has all four families; on any error, in opening the socket
  or in any of the lookups, everything opened has been closed again.
\<close>

theorem NewDpif_descriptors:
  assumes "good_fds w" "NewDpif rng w = (r, w')"
  shows "(\<forall>d. r = Ok d \<longrightarrow> length (families d) = FAMILY_COUNT \<and>
      open_fds w' = sock_fd (sockets w' (dpif_sock d)) # open_fds w) \<and>
    (\<forall>e. r = Err e \<longrightarrow> open_fds w' = open_fds w)"
proof (intro conjI allI impI)
  fix d assume "r = Ok d"
  note ok = assms(2) [unfolded this]
  show "length (families d) = FAMILY_COUNT" "open_fds w' = sock_fd (sockets w' (dpif_sock d)) # open_fds w"
    by (rule NewDpif_Ok [OF ok], simp)+
next
  fix e assume "r = Err e"
  then show "open_fds w' = open_fds w" using NewDpif_Err assms by blast
qed

definition bad_bind :: open_answer where
  "bad_bind = \<lparr>oa_socket = Inr 4, oa_setsockopt = None, oa_bind = Some 98, oa_name = Inr OtherAddr\<rparr>"

theorem NewDpif_descriptors_witness:
  "\<exists>w'. NewDpif ascending ((idle_sys [])\<lparr>opens := [bad_bind]\<rparr>) = (Err (Errno 98), w') \<and> open_fds w' = []"
proof -
  let ?w = "(idle_sys [])\<lparr>opens := [bad_bind]\<rparr>"
  have "good_fds ?w" "open_fds ?w = []" by (simp_all add: good_fds_def bad_bind_def)
  moreover obtain w' where "NewDpif ascending ?w = (Err (Errno 98), w')"
    by (simp add: NewDpif_def OpenNetlinkSocket_def bad_bind_def Let_def)
  ultimately show ?thesis using NewDpif_descriptors [of ?w ascending "Err (Errno 98)" w'] by simp
qed

text \<open>
  Property C29: when the kernel twice answers that a family does not exist, the lookup returns the
  error that \<^verbatim>\<open>IsKernelLacksODPError\<close> recognises, with the name of the family, and asks no third time.
  Between the two requests the kernel module is loaded, if the program has not tried to before: a
  socket is opened, the ioctl that provokes the loading is issued on it, and it is closed again; when the
  socket is refused, nothing more is tried.  These are all the system calls made.
\<close>

theorem family_unavailable:
  assumes "sends w = []" "fuel w > 0" "20 + length rest \<le> RECV_BUF" "20 + length rest' \<le> RECV_BUF"
    "inbox_of s w = enoent_reply fl (nextSeqNo w + 1) (PortId s w) rest #
       enoent_reply fl' (nextSeqNo w + 2) (PortId s w) rest' # as"
  shows "\<exists>e w'. lookupFamily rng s name w = (Err e, w') \<and> IsKernelLacksODPError e \<and> e = FamilyUnavailable name \<and>
    triedLoad w' \<and> inbox_of s w' = as \<and>
    trace w' = trace w @ family_calls (sock_fd (sockets w s)) (nextSeqNo w + 1) name @
      (if triedLoad w then []
       else case dgrams w of
           Inr d # _ \<Rightarrow> [SysSocket 0 (Inr d), SysIoctl d ''openvswitch'', SysClose d]
         | Inl err # _ \<Rightarrow> [SysSocket 0 (Inl err)]
         | [] \<Rightarrow> [SysSocket 0 (Inl EMFILE)]) @
      family_calls (sock_fd (sockets w s)) (nextSeqNo w + 2) name"
proof -
  let ?v = "exchanged s GENL_ID_CTRL (family_request name) w"
  have "trace (loadOpenvswitchModule ?v) = trace ?v @
      (if triedLoad w then []
       else case dgrams w of
           Inr d # _ \<Rightarrow> [SysSocket 0 (Inr d), SysIoctl d ''openvswitch'', SysClose d]
         | Inl err # _ \<Rightarrow> [SysSocket 0 (Inl err)]
         | [] \<Rightarrow> [SysSocket 0 (Inl EMFILE)])" (is "_ = _ @ ?load")
    by (simp add: loadOpenvswitchModule_def exchanged_def sent_state_def recvd_state_def Let_def sys_close_def log_def
        split: list.split sum.split)
  moreover have "sockets (loadOpenvswitchModule ?v) = sockets w" using load_same_fds [of ?v] by (simp add: same_fds_def)
  ultimately have "trace (exchanged s GENL_ID_CTRL (family_request name) (loadOpenvswitchModule ?v)) =
      trace w @ family_calls (sock_fd (sockets w s)) (nextSeqNo w + 1) name @ ?load @
        family_calls (sock_fd (sockets w s)) (nextSeqNo w + 2) name"
    unfolding exchanged_family_trace by (simp add: add.assoc)
  then show ?thesis
    using lookupFamily_twice [OF assms, of rng name] assms(5)
    by (simp add: IsKernelLacksODPError_def)
qed

theorem family_unavailable_witness:
  "\<exists>e w'. lookupFamily ascending 0 ''ovs_flow''
      ((idle_sys [enoent_reply 0 42 7 [], enoent_reply 0 43 7 []])\<lparr>dgrams := [Inr 5]\<rparr>) = (Err e, w') \<and>
     IsKernelLacksODPError e \<and>
     trace w' = family_calls 3 42 ''ovs_flow'' @ [SysSocket 0 (Inr 5), SysIoctl 5 ''openvswitch'', SysClose 5] @
       family_calls 3 43 ''ovs_flow''"
  using family_unavailable [where w = "(idle_sys [enoent_reply 0 42 7 [], enoent_reply 0 43 7 []])\<lparr>dgrams := [Inr 5]\<rparr>"
      and rest = "[]" and rest' = "[]" and fl = 0 and fl' = 0 and s = 0 and as = "[]" and rng = ascending
      and name = "''ovs_flow''"]
  by (auto simp: RECV_BUF_def idle_sys_def inbox_of_def PortId_def)

end
