(* ===== verification/Datapath.thy ===== *)
theory Datapath
  imports Dpif
begin

text \<open>
  Model of \<^verbatim>\<open>odp/datapath.go\<close>: creating, looking up, listing and deleting datapaths, and the
  header check of a datapath handle.

  Every request opens with the same calls (a new builder for the family, the generic
  header, the Open vSwitch header), so they are factored into \<open>ovs_call\<close> and \<open>ovs_dump\<close>.
\<close>

section \<open>Requests on a family\<close>

definition build_msg ::
    "Dpif \<Rightarrow> nat \<Rightarrow> u16 \<Rightarrow> u8 \<Rightarrow> u8 \<Rightarrow> i32 \<Rightarrow> generator \<Rightarrow> sys \<Rightarrow> (NlMsgBuilder, sys) outcome" where
  "build_msg dpif family flags cmd version ifindex gen w =
     and_then (new_msg flags (fam_id (families dpif ! family)) w) (\<lambda>req w.
       (ovs_request cmd version ifindex gen req, w))"

definition ovs_call ::
    "Dpif \<Rightarrow> nat \<Rightarrow> u8 \<Rightarrow> u8 \<Rightarrow> i32 \<Rightarrow> generator \<Rightarrow> sys \<Rightarrow> (NlMsgParser option, sys) outcome" where
  "ovs_call dpif family cmd version ifindex gen w =
     and_then (build_msg dpif family RequestFlags cmd version ifindex gen w) (\<lambda>req w.
       Request (dpif_sock dpif) req w)"

definition ovs_dump ::
    "Dpif \<Rightarrow> nat \<Rightarrow> u8 \<Rightarrow> u8 \<Rightarrow> i32 \<Rightarrow> 's handler \<Rightarrow> 's \<Rightarrow> sys \<Rightarrow> ('s, sys) outcome" where
  "ovs_dump dpif family cmd version ifindex h s w =
     and_then (build_msg dpif family DumpFlags cmd version ifindex skip_gen w) (\<lambda>req w.
       case RequestMulti (dpif_sock dpif) req h (s, w) of
         (r, (s, w)) \<Rightarrow> (map_res (\<lambda>_. s) r, w))"

section \<open>Datapaths\<close>

record datapathInfo =
  di_ifindex :: i32
  di_name :: string

record DatapathHandle =
  dp_dpif :: Dpif
  dp_ifindex :: i32

record Datapath =
  Handle :: DatapathHandle
  Name :: string

definition parseDatapathInfo :: "Dpif \<Rightarrow> NlMsgParser \<Rightarrow> int \<Rightarrow> datapathInfo res" where
  "parseDatapathInfo dpif msg cmd =
     res_bind (checkNlMsgHeaders dpif msg DATAPATH cmd) (\<lambda>(_, ovshdr, msg).
     res_bind (TakeAttrs msg) (\<lambda>(attrs, _).
     res_bind (GetString attrs OVS_DP_ATTR_NAME) (\<lambda>name.
     Ok \<lparr>di_ifindex = datapathID ovshdr, di_name = name\<rparr>)))"

definition dp_Reopen :: "DatapathHandle \<Rightarrow> sys \<Rightarrow> (DatapathHandle, sys) outcome" where
  "dp_Reopen dp w =
     and_then (Reopen (dp_dpif dp) w) (\<lambda>dpif w. (Ok \<lparr>dp_dpif = dpif, dp_ifindex = dp_ifindex dp\<rparr>, w))"

definition CreateDatapath :: "Dpif \<Rightarrow> string \<Rightarrow> sys \<Rightarrow> (DatapathHandle, sys) outcome" where
  "CreateDatapath dpif name w =
     (let features = OVS_DP_F_UNALIGNED OR OVS_DP_F_VPORT_PIDS in
      and_then (ovs_call dpif DATAPATH OVS_DP_CMD_NEW OVS_DATAPATH_VERSION 0
        (seq_gens [PutStringAttr OVS_DP_ATTR_NAME name, PutUint32Attr OVS_DP_ATTR_UPCALL_PID 0,
           PutUint32Attr OVS_DP_ATTR_USER_FEATURES features]) w) (\<lambda>resp w.
      (res_bind (deref resp) (\<lambda>resp.
       res_bind (parseDatapathInfo dpif resp (uint OVS_DP_CMD_NEW)) (\<lambda>dpi.
       Ok \<lparr>dp_dpif = dpif, dp_ifindex = di_ifindex dpi\<rparr>)), w)))"

definition IsDatapathNameAlreadyExistsError :: "error \<Rightarrow> bool" where
  "IsDatapathNameAlreadyExistsError err = (err = NetlinkError EEXIST)"

definition LookupDatapath :: "Dpif \<Rightarrow> string \<Rightarrow> sys \<Rightarrow> (DatapathHandle, sys) outcome" where
  "LookupDatapath dpif name w =
     and_then (ovs_call dpif DATAPATH OVS_DP_CMD_GET OVS_DATAPATH_VERSION 0
        (PutStringAttr OVS_DP_ATTR_NAME name) w) (\<lambda>resp w.
     (res_bind (deref resp) (\<lambda>resp.
      res_bind (parseDatapathInfo dpif resp (uint OVS_DP_CMD_GET)) (\<lambda>dpi.
      Ok \<lparr>dp_dpif = dpif, dp_ifindex = di_ifindex dpi\<rparr>)), w))"

definition LookupDatapathByID :: "Dpif \<Rightarrow> i32 \<Rightarrow> sys \<Rightarrow> (Datapath, sys) outcome" where
  "LookupDatapathByID dpif ifindex w =
     and_then (ovs_call dpif DATAPATH OVS_DP_CMD_GET OVS_DATAPATH_VERSION ifindex skip_gen w) (\<lambda>resp w.
     (res_bind (deref resp) (\<lambda>resp.
      res_bind (parseDatapathInfo dpif resp (uint OVS_DP_CMD_GET)) (\<lambda>dpi.
      Ok \<lparr>Handle = \<lparr>dp_dpif = dpif, dp_ifindex = ifindex\<rparr>, Name = di_name dpi\<rparr>)), w))"

definition IsNoSuchDatapathError :: "error \<Rightarrow> bool" where
  "IsNoSuchDatapathError err = (err = NetlinkError ENODEV)"

definition enum_datapath_handler :: "Dpif \<Rightarrow> (string \<rightharpoonup> DatapathHandle) handler" where
  "enum_datapath_handler dpif resp st =
     and_then (parseDatapathInfo dpif resp (uint OVS_DP_CMD_GET), st) (\<lambda>dpi (res, w).
       (Ok (), (res(di_name dpi \<mapsto> \<lparr>dp_dpif = dpif, dp_ifindex = di_ifindex dpi\<rparr>), w)))"

definition EnumerateDatapaths :: "Dpif \<Rightarrow> sys \<Rightarrow> (string \<rightharpoonup> DatapathHandle, sys) outcome" where
  "EnumerateDatapaths dpif w =
     ovs_dump dpif DATAPATH OVS_DP_CMD_GET OVS_DATAPATH_VERSION 0
       (enum_datapath_handler dpif) Map.empty w"

text \<open>The assignments after the request are to a copy of the handle and have no effect.\<close>

definition Delete :: "DatapathHandle \<Rightarrow> sys \<Rightarrow> (unit, sys) outcome" where
  "Delete dp w =
     and_then (ovs_call (dp_dpif dp) DATAPATH OVS_DP_CMD_DEL OVS_DATAPATH_VERSION (dp_ifindex dp)
       skip_gen w) (\<lambda>_ w. (Ok (), w))"

definition dp_checkNlMsgHeaders ::
    "DatapathHandle \<Rightarrow> NlMsgParser \<Rightarrow> nat \<Rightarrow> int \<Rightarrow> NlMsgParser res" where
  "dp_checkNlMsgHeaders dp msg family cmd =
     res_bind (checkNlMsgHeaders (dp_dpif dp) msg family cmd) (\<lambda>(_, ovshdr, msg).
       if datapathID ovshdr \<noteq> dp_ifindex dp
       then Err (WrongIfindex (datapathID ovshdr) (dp_ifindex dp)) else Ok msg)"

section \<open>Requests and replies\<close>

lemma build_msg_spec:
  assumes "attr_emitter gen ts"
  obtains m where "build_msg dpif family flags cmd version ifindex gen w =
      (Ok m, w\<lparr>heaps := (\<lambda>i. heaps w (Suc i))\<rparr>)" "builder_ok m"
    "mbytes m = draft_bytes (fam_id (families dpif ! family)) flags (ovs_body cmd version ifindex ts)"
proof -
  let ?t = "fam_id (families dpif ! family)"
  obtain m w' where m: "new_msg flags ?t w = (Ok m, w')" "builder_ok m" "mbytes m = draft_bytes ?t flags []"
    "w' = w\<lparr>heaps := (\<lambda>i. heaps w (Suc i))\<rparr>" by (rule new_msg_spec)
  obtain m' where "ovs_request cmd version ifindex gen m = Ok m'" "builder_ok m'"
    "mbytes m' = draft_bytes ?t flags (ovs_body cmd version ifindex ts)"
    by (rule ovs_request_emits [OF m(2,3) assms])
  then show thesis using that [of m'] m(1,4) by (simp add: build_msg_def)
qed

lemma ovs_call_reply:
  assumes "attr_emitter gen ts" "answer (sends w) = Ok ()" "fuel w > 0" "u \<noteq> NLMSG_ERROR"
    "answers (dpif_sock dpif) w u fl (nextSeqNo w + 1) body"
  shows "ovs_call dpif family cmd version ifindex gen w =
    (Ok (Some \<lparr>pdata = nlmsg_bytes u fl (nextSeqNo w + 1) (PortId (dpif_sock dpif) w) body, ppos = 0\<rparr>),
     exchanged (dpif_sock dpif) (fam_id (families dpif ! family)) (ovs_body cmd version ifindex ts) w)"
proof (rule build_msg_spec [OF assms(1), of dpif family RequestFlags cmd version ifindex w])
  fix m
  assume b: "build_msg dpif family RequestFlags cmd version ifindex gen w =
      (Ok m, w\<lparr>heaps := (\<lambda>i. heaps w (Suc i))\<rparr>)"
    and m: "builder_ok m" "mbytes m = draft_bytes (fam_id (families dpif ! family)) RequestFlags
      (ovs_body cmd version ifindex ts)"
  show ?thesis
    using Request_reply [OF m, of "w\<lparr>heaps := (\<lambda>i. heaps w (Suc i))\<rparr>" "dpif_sock dpif" u fl body] assms(2-) b
    by (simp add: ovs_call_def exchanged_def)
qed

lemma ovs_call_error:
  assumes "attr_emitter gen ts" "answer (sends w) = Ok ()" "fuel w > 0" "e \<noteq> 0"
    "answers (dpif_sock dpif) w NLMSG_ERROR fl (nextSeqNo w + 1) (enc_word 4 (e :: i32) @ rest)"
  shows "ovs_call dpif family cmd version ifindex gen w =
    (Err (netlink_error e),
     exchanged (dpif_sock dpif) (fam_id (families dpif ! family)) (ovs_body cmd version ifindex ts) w)"
proof (rule build_msg_spec [OF assms(1), of dpif family RequestFlags cmd version ifindex w])
  fix m
  assume b: "build_msg dpif family RequestFlags cmd version ifindex gen w =
      (Ok m, w\<lparr>heaps := (\<lambda>i. heaps w (Suc i))\<rparr>)"
    and m: "builder_ok m" "mbytes m = draft_bytes (fam_id (families dpif ! family)) RequestFlags
      (ovs_body cmd version ifindex ts)"
  show ?thesis
    using Request_error [OF m, of "w\<lparr>heaps := (\<lambda>i. heaps w (Suc i))\<rparr>" "dpif_sock dpif" fl e rest] assms(2-) b
    by (simp add: ovs_call_def exchanged_def)
qed

text \<open>A reply that belongs to another request leaves the caller with a nil response.\<close>

lemma ovs_call_stale:
  assumes "attr_emitter gen ts" "answer (sends w) = Ok ()" "fuel w > 0" "q \<noteq> nextSeqNo w + 1"
    "answers (dpif_sock dpif) w u fl q body"
  shows "ovs_call dpif family cmd version ifindex gen w =
    (Ok None, exchanged (dpif_sock dpif) (fam_id (families dpif ! family)) (ovs_body cmd version ifindex ts) w)"
proof (rule build_msg_spec [OF assms(1), of dpif family RequestFlags cmd version ifindex w])
  fix m
  assume b: "build_msg dpif family RequestFlags cmd version ifindex gen w =
      (Ok m, w\<lparr>heaps := (\<lambda>i. heaps w (Suc i))\<rparr>)"
    and m: "builder_ok m" "mbytes m = draft_bytes (fam_id (families dpif ! family)) RequestFlags
      (ovs_body cmd version ifindex ts)"
  show ?thesis
    using Request_stale [OF m, of "w\<lparr>heaps := (\<lambda>i. heaps w (Suc i))\<rparr>" "dpif_sock dpif" u fl q body] assms(2-) b
    by (simp add: ovs_call_def exchanged_def)
qed

lemma ovs_dump_result:
  assumes h: "dump_handler h f good (nextSeqNo w + 1) (PortId (dpif_sock dpif) w)"
    and ok: "answer (sends w) = Ok ()"
    and ds: "dump_of good (nextSeqNo w + 1) (PortId (dpif_sock dpif) w) ds"
    and inbox: "inbox_of (dpif_sock dpif) w = map (\<lambda>d. Datagram (dgram (nextSeqNo w + 1)
        (PortId (dpif_sock dpif) w) d) (NetlinkAddr 0)) ds @ as"
    and fuel: "\<forall>d \<in> set ds. length d \<le> fuel w" "length ds \<le> fuel w"
  obtains w' where "ovs_dump dpif family cmd version ifindex h s w = (Ok (fold f (dump_items ds) s), w')"
    "w' = (recvd_state (dpif_sock dpif) ^^ length ds)
       (sent_state (dpif_sock dpif) (fam_id (families dpif ! family)) DumpFlags
          (ovs_body cmd version ifindex []) (w\<lparr>heaps := (\<lambda>i. heaps w (Suc i))\<rparr>))"
proof (rule build_msg_spec [OF skip_gen_emits, of dpif family DumpFlags cmd version ifindex w])
  let ?w = "w\<lparr>heaps := (\<lambda>i. heaps w (Suc i))\<rparr>" and ?s = "dpif_sock dpif"
  fix m
  assume b: "build_msg dpif family DumpFlags cmd version ifindex skip_gen w = (Ok m, ?w)"
    and m: "builder_ok m" "mbytes m = draft_bytes (fam_id (families dpif ! family)) DumpFlags
      (ovs_body cmd version ifindex [])"
  have "RequestMulti ?s m h (s, ?w) = (Ok (), (fold f (dump_items ds) s, (recvd_state ?s ^^ length ds)
      (sent_state ?s (fam_id (families dpif ! family)) DumpFlags (ovs_body cmd version ifindex []) ?w)))"
    using assms by (intro dump_handler.RequestMulti_dump [OF h m]) simp_all
  then show thesis using that b by (simp add: ovs_dump_def)
qed

section \<open>Datapaths on the wire\<close>

text \<open>A message of the datapath family that names a datapath.\<close>

definition dp_msg_ok :: "Dpif \<Rightarrow> wmsg \<Rightarrow> i32 \<Rightarrow> string \<Rightarrow> int \<Rightarrow> bool" where
  "dp_msg_ok dpif m ifindex name cmd \<longleftrightarrow>
     fst m = fam_id (families dpif ! DATAPATH) \<and>
     (\<exists>c v ts. snd (snd m) = ovs_body c v ifindex ts \<and> cmd_accepted DATAPATH cmd c \<and> list_all fits ts \<and>
        GetString (attrs_of ts) OVS_DP_ATTR_NAME = Ok name)"

lemma parseDatapathInfo_msg:
  assumes "dp_msg_ok dpif m ifindex name cmd" "4 dvd length pre"
  shows "parseDatapathInfo dpif \<lparr>pdata = pre @ wire seq pid m, ppos = length pre\<rparr> cmd =
    Ok \<lparr>di_ifindex = ifindex, di_name = name\<rparr>"
proof -
  obtain c v ts where m: "fst m = fam_id (families dpif ! DATAPATH)" "snd (snd m) = ovs_body c v ifindex ts"
    "cmd_accepted DATAPATH cmd c" "list_all fits ts" "GetString (attrs_of ts) OVS_DP_ATTR_NAME = Ok name"
    using assms(1) by (auto simp: dp_msg_ok_def)
  have w: "wire seq pid m = nlmsg_bytes (fst m) (fst (snd m)) seq pid (ovs_body c v ifindex ts)"
    using m(2) by (simp add: wire_msg)
  obtain q where "TakeAttrs \<lparr>pdata = pre @ wire seq pid m, ppos = length pre + 24\<rparr> = Ok (attrs_of ts, q)"
    by (rule TakeAttrs_msg [OF assms(2) w m(4)])
  then show ?thesis
    using checkNlMsgHeaders_msg [OF assms(2) w, of dpif DATAPATH cmd] m
    by (simp add: parseDatapathInfo_def datapathID_def)
qed

lemma deref_Some [simp]: "deref (Some x) = Ok x" "deref None = Crash NilDereference"
  by (simp_all add: deref_def)

text \<open>The attributes of the two requests that name a datapath.\<close>

definition create_dp_trees :: "string \<Rightarrow> nla list" where
  "create_dp_trees name =
     [Raw OVS_DP_ATTR_NAME (string_bytes name @ [0]), Raw OVS_DP_ATTR_UPCALL_PID (enc_word 4 (0 :: u32)),
      Raw OVS_DP_ATTR_USER_FEATURES (enc_word 4 (OVS_DP_F_UNALIGNED OR OVS_DP_F_VPORT_PIDS))]"

lemma create_dp_emits:
  "attr_emitter (seq_gens [PutStringAttr OVS_DP_ATTR_NAME name, PutUint32Attr OVS_DP_ATTR_UPCALL_PID 0,
     PutUint32Attr OVS_DP_ATTR_USER_FEATURES (OVS_DP_F_UNALIGNED OR OVS_DP_F_VPORT_PIDS)])
   (create_dp_trees name)"
  unfolding create_dp_trees_def
  using seq_gens_emits [of "[PutStringAttr OVS_DP_ATTR_NAME name, PutUint32Attr OVS_DP_ATTR_UPCALL_PID 0,
     PutUint32Attr OVS_DP_ATTR_USER_FEATURES (OVS_DP_F_UNALIGNED OR OVS_DP_F_VPORT_PIDS)]"
     "[[Raw OVS_DP_ATTR_NAME (string_bytes name @ [0])], [Raw OVS_DP_ATTR_UPCALL_PID (enc_word 4 (0 :: u32))],
      [Raw OVS_DP_ATTR_USER_FEATURES (enc_word 4 (OVS_DP_F_UNALIGNED OR OVS_DP_F_VPORT_PIDS))]]"] put_emits
  by (simp del: ovs_consts seq_gens.simps)

lemma CreateDatapath_reply:
  assumes "answer (sends w) = Ok ()" "fuel w > 0" "fst m \<noteq> NLMSG_ERROR"
    "answers (dpif_sock dpif) w (fst m) (fst (snd m)) (nextSeqNo w + 1) (snd (snd m))"
    "dp_msg_ok dpif m ifindex name' (uint OVS_DP_CMD_NEW)"
  shows "CreateDatapath dpif name w = (Ok \<lparr>dp_dpif = dpif, dp_ifindex = ifindex\<rparr>,
    exchanged (dpif_sock dpif) (fam_id (families dpif ! DATAPATH))
      (ovs_body OVS_DP_CMD_NEW OVS_DATAPATH_VERSION 0 (create_dp_trees name)) w)"
  using ovs_call_reply [OF create_dp_emits assms(1,2,3,4), of DATAPATH OVS_DP_CMD_NEW OVS_DATAPATH_VERSION 0 name]
    parseDatapathInfo_msg [OF assms(5), of "[]" "nextSeqNo w + 1" "PortId (dpif_sock dpif) w"]
  by (simp add: CreateDatapath_def Let_def wire_msg del: ovs_consts seq_gens.simps)

lemma LookupDatapath_reply:
  assumes "answer (sends w) = Ok ()" "fuel w > 0" "fst m \<noteq> NLMSG_ERROR"
    "answers (dpif_sock dpif) w (fst m) (fst (snd m)) (nextSeqNo w + 1) (snd (snd m))"
    "dp_msg_ok dpif m ifindex name' (uint OVS_DP_CMD_GET)"
  shows "LookupDatapath dpif name w = (Ok \<lparr>dp_dpif = dpif, dp_ifindex = ifindex\<rparr>,
    exchanged (dpif_sock dpif) (fam_id (families dpif ! DATAPATH))
      (ovs_body OVS_DP_CMD_GET OVS_DATAPATH_VERSION 0 [Raw OVS_DP_ATTR_NAME (string_bytes name @ [0])]) w)"
  using ovs_call_reply [OF put_string.attr_emitter_axioms assms(1,2,3,4), of DATAPATH OVS_DP_CMD_GET
      OVS_DATAPATH_VERSION 0 OVS_DP_ATTR_NAME name]
    parseDatapathInfo_msg [OF assms(5), of "[]" "nextSeqNo w + 1" "PortId (dpif_sock dpif) w"]
  by (simp add: LookupDatapath_def wire_msg del: ovs_consts)

section \<open>Listing datapaths\<close>

definition dp_listed :: "Dpif \<Rightarrow> wmsg \<Rightarrow> bool" where
  "dp_listed dpif m \<longleftrightarrow> fst m \<noteq> NLMSG_ERROR \<and> fst m \<noteq> NLMSG_DONE \<and>
     (\<exists>ifindex name. dp_msg_ok dpif m ifindex name (uint OVS_DP_CMD_GET))"

text \<open>What one message contributes to the result.\<close>

definition dp_entry :: "Dpif \<Rightarrow> wmsg \<Rightarrow> (string \<rightharpoonup> DatapathHandle) \<Rightarrow> (string \<rightharpoonup> DatapathHandle)" where
  "dp_entry dpif m res =
     (case parseDatapathInfo dpif \<lparr>pdata = wire 0 0 m, ppos = 0\<rparr> (uint OVS_DP_CMD_GET) of
        Ok dpi \<Rightarrow> res(di_name dpi \<mapsto> \<lparr>dp_dpif = dpif, dp_ifindex = di_ifindex dpi\<rparr>)
      | _ \<Rightarrow> res)"

interpretation datapath_dump: dump_handler "enum_datapath_handler dpif" "dp_entry dpif" "dp_listed dpif" seq pid
  for dpif seq pid
proof
  fix m pre s w
  assume good: "dp_listed dpif m" and pre: "4 dvd length (pre :: bytes)"
  then obtain ifindex name where m: "dp_msg_ok dpif m ifindex name (uint OVS_DP_CMD_GET)"
    by (auto simp: dp_listed_def)
  show "enum_datapath_handler dpif \<lparr>pdata = pre @ wire seq pid m, ppos = length pre\<rparr> (s, w) =
      (Ok (), (dp_entry dpif m s, w))"
    using parseDatapathInfo_msg [OF m pre, of seq pid] parseDatapathInfo_msg [OF m, of "[]" 0 0]
    by (simp add: enum_datapath_handler_def dp_entry_def)
next
  fix m assume "dp_listed dpif m"
  then show "fst m \<noteq> NLMSG_ERROR \<and> fst m \<noteq> NLMSG_DONE" by (simp add: dp_listed_def)
qed

section \<open>Properties\<close>

text \<open>
  \<^verbatim>\<open>EnumerateDatapaths\<close> returns what the dump lists.  However the messages are
  distributed over datagrams, the result maps the name of each listed datapath to a handle with
  its index (the last one, should a name come twice), and the dump is read to its end.
\<close>

theorem EnumerateDatapaths_lists:
  fixes dpif w
  defines "s \<equiv> dpif_sock dpif" and "q \<equiv> nextSeqNo w + 1"
  assumes "answer (sends w) = Ok ()" "dump_of (dp_listed dpif) q (PortId s w) ds"
    "inbox_of s w = map (\<lambda>d. Datagram (dgram q (PortId s w) d) (NetlinkAddr 0)) ds @ as"
    "\<forall>d \<in> set ds. length d \<le> fuel w" "length ds \<le> fuel w"
    "list_all2 (\<lambda>m (i, name). dp_msg_ok dpif m i name (uint OVS_DP_CMD_GET)) (dump_items ds) items"
  shows "\<exists>w'. EnumerateDatapaths dpif w =
    (Ok (fold (\<lambda>(i, name) res. res(name \<mapsto> \<lparr>dp_dpif = dpif, dp_ifindex = i\<rparr>)) items Map.empty), w')"
proof -
  obtain w' where w': "EnumerateDatapaths dpif w = (Ok (fold (dp_entry dpif) (dump_items ds) Map.empty), w')"
    unfolding EnumerateDatapaths_def
    by (rule ovs_dump_result [OF datapath_dump.dump_handler_axioms assms(3-7) [unfolded s_def q_def]])
  have entry: "dp_entry dpif m res = res(name \<mapsto> \<lparr>dp_dpif = dpif, dp_ifindex = i\<rparr>)"
    if "dp_msg_ok dpif m i name (uint OVS_DP_CMD_GET)" for m i name res
    using parseDatapathInfo_msg [OF that, of "[]" 0 0] by (simp add: dp_entry_def)
  have "fold (dp_entry dpif) ms res =
      fold (\<lambda>(i, name) res. res(name \<mapsto> \<lparr>dp_dpif = dpif, dp_ifindex = i\<rparr>)) is res"
    if "list_all2 (\<lambda>m (i, name). dp_msg_ok dpif m i name (uint OVS_DP_CMD_GET)) ms is" for ms "is" res
    using that by (induction ms "is" arbitrary: res rule: list_all2_induct) (auto simp: entry)
  from this [OF assms(8)] w' show ?thesis by simp
qed

definition demo_dpif :: Dpif where
  "demo_dpif = \<lparr>dpif_sock = 0, families = map (\<lambda>i. \<lparr>fam_id = i, mcGroups = [''ovs_vport'' \<mapsto> 33]\<rparr>) [21, 22, 23, 24]\<rparr>"

definition done_msg :: wmsg where
  "done_msg = (NLMSG_DONE, 2, enc_word 4 (0 :: i32))"

definition demo_dp_msg :: wmsg where
  "demo_dp_msg = (21, 2, ovs_body OVS_DP_CMD_NEW 2 6 [Raw OVS_DP_ATTR_NAME (string_bytes ''dp'' @ [0])])"

lemma demo_dp_msg_ok: "dp_msg_ok demo_dpif demo_dp_msg 6 ''dp'' (uint OVS_DP_CMD_GET)"
  unfolding dp_msg_ok_def
proof (intro conjI exI)
  show "snd (snd demo_dp_msg) = ovs_body OVS_DP_CMD_NEW 2 6 [Raw OVS_DP_ATTR_NAME (string_bytes ''dp'' @ [0])]"
    by (simp add: demo_dp_msg_def)
qed (simp_all add: cmd_accepted_def fallback_cmd_def getter_defs attrs_of_def nth_append fits_def
       demo_dpif_def demo_dp_msg_def DATAPATH_def)

lemma done_msg_ok: "done_ok done_msg" "is_done done_msg"
  by (simp_all add: done_msg_def is_done_def)

theorem EnumerateDatapaths_lists_witness:
  "\<exists>w'. EnumerateDatapaths demo_dpif (idle_sys [Datagram (dgram 42 7 [demo_dp_msg, done_msg]) (NetlinkAddr 0)]) =
     (Ok (fold (\<lambda>(i, name) res. res(name \<mapsto> \<lparr>dp_dpif = demo_dpif, dp_ifindex = i\<rparr>)) [(6, ''dp'')] Map.empty), w')"
proof -
  have good: "dp_listed demo_dpif demo_dp_msg"
    using demo_dp_msg_ok by (auto simp: dp_listed_def) (simp_all add: demo_dp_msg_def NLMSG_ERROR_def NLMSG_DONE_def)
  have nd: "\<not> is_done demo_dp_msg" by (simp add: is_done_def demo_dp_msg_def NLMSG_DONE_def)
  have "length (dgram 42 7 [demo_dp_msg, done_msg]) \<le> RECV_BUF"
    by (simp add: demo_dp_msg_def done_msg_def ovs_body_def nla_frame_def align4 RECV_BUF_def)
  then have "dump_of (dp_listed demo_dpif) 42 7 [[demo_dp_msg, done_msg]]"
    using good done_msg_ok by (simp add: dump_of_def)
  moreover have "dump_items [[demo_dp_msg, done_msg]] = [demo_dp_msg]"
    using nd done_msg_ok by (simp add: dump_items_def)
  ultimately show ?thesis
    using EnumerateDatapaths_lists [where dpif = demo_dpif and ds = "[[demo_dp_msg, done_msg]]" and as = "[]"
        and w = "idle_sys [Datagram (dgram 42 7 [demo_dp_msg, done_msg]) (NetlinkAddr 0)]" and items = "[(6, ''dp'')]"]
      demo_dp_msg_ok by (simp del: ovs_consts dgram_Cons)
qed

text \<open>
  Creating a datapath sends one message, the documented request with the name, no
  upcall port and the two user features, and the handle returned has the index from the
  header of the reply.
\<close>

theorem CreateDatapath_exchange:
  assumes "answer (sends w) = Ok ()" "fuel w > 0" "fst m \<noteq> NLMSG_ERROR"
    "answers (dpif_sock dpif) w (fst m) (fst (snd m)) (nextSeqNo w + 1) (snd (snd m))"
    "dp_msg_ok dpif m ifindex name' (uint OVS_DP_CMD_NEW)"
  shows "\<exists>w'. CreateDatapath dpif name w = (Ok \<lparr>dp_dpif = dpif, dp_ifindex = ifindex\<rparr>, w') \<and>
    trace w' = trace w @
      [SysSendto (sock_fd (sockets w (dpif_sock dpif)))
         (nlmsg_bytes (fam_id (families dpif ! DATAPATH)) RequestFlags (nextSeqNo w + 1) 0
            (ovs_body OVS_DP_CMD_NEW OVS_DATAPATH_VERSION 0 (create_dp_trees name))),
       SysRecvfrom (sock_fd (sockets w (dpif_sock dpif)))]"
  using CreateDatapath_reply [OF assms, of name]
  by (simp add: exchanged_def sent_state_def recvd_state_def log_def Let_def del: ovs_consts)

theorem CreateDatapath_exchange_witness:
  "\<exists>w'. CreateDatapath demo_dpif ''dp'' (idle_sys [Datagram (wire 42 7 demo_dp_msg) (NetlinkAddr 0)]) =
     (Ok \<lparr>dp_dpif = demo_dpif, dp_ifindex = 6\<rparr>, w')"
proof -
  let ?w = "idle_sys [Datagram (wire 42 7 demo_dp_msg) (NetlinkAddr 0)]"
  have "dp_msg_ok demo_dpif demo_dp_msg 6 ''dp'' (uint OVS_DP_CMD_NEW)"
    using demo_dp_msg_ok unfolding dp_msg_ok_def by (auto simp: cmd_accepted_def demo_dp_msg_def ovs_body_def genl_hdr_def)
  moreover have "fst demo_dp_msg \<noteq> NLMSG_ERROR" by (simp add: demo_dp_msg_def NLMSG_ERROR_def)
  moreover have "answers 0 ?w (fst demo_dp_msg) (fst (snd demo_dp_msg)) 42 (snd (snd demo_dp_msg))"
    unfolding answers_def
    by (intro exI [of _ "[]"] conjI exI)
      (simp add: wire_msg, simp add: demo_dp_msg_def ovs_body_def nla_frame_def RECV_BUF_def)
  moreover have "dpif_sock demo_dpif = 0" by (simp add: demo_dpif_def)
  ultimately show ?thesis
    using CreateDatapath_exchange [of ?w demo_dp_msg demo_dpif 6 "''dp''" "''dp''"] by auto
qed

end
