(* ===== verification/Vport.thy ===== *)
theory Vport
  imports Datapath
begin

text \<open>
  Model of \<^verbatim>\<open>odp/vport.go\<close>: the kinds of vport, their encoding and parsing, the requests that
  create, look up, list and delete vports, and the consumer of vport events.
\<close>

section \<open>Vport specifications\<close>

datatype VportSpec =
    SimpleVportSpec string u32 string
  | GreVportSpec string
  | VxlanVportSpec string u16
  | GeneveVportSpec string u16

fun TypeName :: "VportSpec \<Rightarrow> string" where
  "TypeName (SimpleVportSpec name t typeName) = typeName"
| "TypeName (GreVportSpec name) = ''gre''"
| "TypeName (VxlanVportSpec name port) = ''vxlan''"
| "TypeName (GeneveVportSpec name port) = ''geneve''"

fun spec_Name :: "VportSpec \<Rightarrow> string" where
  "spec_Name (SimpleVportSpec name t typeName) = name"
| "spec_Name (GreVportSpec name) = name"
| "spec_Name (VxlanVportSpec name port) = name"
| "spec_Name (GeneveVportSpec name port) = name"

fun spec_typeId :: "VportSpec \<Rightarrow> u32" where
  "spec_typeId (SimpleVportSpec name t typeName) = t"
| "spec_typeId (GreVportSpec name) = OVS_VPORT_TYPE_GRE"
| "spec_typeId (VxlanVportSpec name port) = OVS_VPORT_TYPE_VXLAN"
| "spec_typeId (GeneveVportSpec name port) = OVS_VPORT_TYPE_GENEVE"

fun optionNlAttrs :: "VportSpec \<Rightarrow> generator" where
  "optionNlAttrs (SimpleVportSpec name t typeName) = skip_gen"
| "optionNlAttrs (GreVportSpec name) = skip_gen"
| "optionNlAttrs (VxlanVportSpec name port) = PutUint16Attr OVS_TUNNEL_ATTR_DST_PORT port"
| "optionNlAttrs (GeneveVportSpec name port) = PutUint16Attr OVS_TUNNEL_ATTR_DST_PORT port"

definition NewNetdevVportSpec :: "string \<Rightarrow> VportSpec" where
  "NewNetdevVportSpec name = SimpleVportSpec name OVS_VPORT_TYPE_NETDEV ''netdev''"

definition NewInternalVportSpec :: "string \<Rightarrow> VportSpec" where
  "NewInternalVportSpec name = SimpleVportSpec name OVS_VPORT_TYPE_INTERNAL ''internal''"

definition NewGreVportSpec :: "string \<Rightarrow> VportSpec" where
  "NewGreVportSpec name = GreVportSpec name"

definition NewVxlanVportSpec :: "string \<Rightarrow> u16 \<Rightarrow> VportSpec" where
  "NewVxlanVportSpec name port = VxlanVportSpec name port"

definition NewGeneveVportSpec :: "string \<Rightarrow> u16 \<Rightarrow> VportSpec" where
  "NewGeneveVportSpec name port = GeneveVportSpec name port"

section \<open>Parsing\<close>

definition parseUdpVportSpec :: "string \<Rightarrow> Attrs \<Rightarrow> (string \<times> u16) res" where
  "parseUdpVportSpec name opts =
     res_bind (GetUint16 opts OVS_TUNNEL_ATTR_DST_PORT) (\<lambda>port. Ok (name, port))"

text \<open>
  In the two cases that parse a port, the error is assigned to a variable of the inner scope
  and lost: the specification stays nil (\<open>None\<close>) and no error is returned.
\<close>

definition udp_spec :: "(string \<Rightarrow> u16 \<Rightarrow> VportSpec) \<Rightarrow> (string \<times> u16) res \<Rightarrow> VportSpec option res" where
  "udp_spec mk r = (case r of Ok (name, port) \<Rightarrow> Ok (Some (mk name port)) | Err _ \<Rightarrow> Ok None
     | Crash c \<Rightarrow> Crash c | Blocked b \<Rightarrow> Blocked b)"

definition parseVport :: "NlMsgParser \<Rightarrow> (u32 \<times> VportSpec option) res" where
  "parseVport msg =
     res_bind (TakeAttrs msg) (\<lambda>(attrs, _).
     res_bind (GetUint32 attrs OVS_VPORT_ATTR_PORT_NO) (\<lambda>vid.
     res_bind (GetUint32 attrs OVS_VPORT_ATTR_TYPE) (\<lambda>t.
     res_bind (GetString attrs OVS_VPORT_ATTR_NAME) (\<lambda>name.
     res_bind (GetNestedAttrs attrs OVS_VPORT_ATTR_OPTIONS True) (\<lambda>opts.
     let opts = (case opts of None \<Rightarrow> Map.empty | Some os \<Rightarrow> os) in
     res_bind
       (if t = OVS_VPORT_TYPE_NETDEV then Ok (Some (NewNetdevVportSpec name))
        else if t = OVS_VPORT_TYPE_INTERNAL then Ok (Some (NewInternalVportSpec name))
        else if t = OVS_VPORT_TYPE_GRE then Ok (Some (NewGreVportSpec name))
        else if t = OVS_VPORT_TYPE_VXLAN then udp_spec VxlanVportSpec (parseUdpVportSpec name opts)
        else if t = OVS_VPORT_TYPE_GENEVE then udp_spec GeneveVportSpec (parseUdpVportSpec name opts)
        else Err (UnsupportedVportType t)) (\<lambda>s.
     Ok (vid, s)))))))"

section \<open>Requests\<close>

definition CreateVport :: "DatapathHandle \<Rightarrow> VportSpec \<Rightarrow> sys \<Rightarrow> (u32, sys) outcome" where
  "CreateVport dp spec w =
     and_then (ovs_call (dp_dpif dp) VPORT OVS_VPORT_CMD_NEW OVS_VPORT_VERSION (dp_ifindex dp)
       (seq_gens [PutStringAttr OVS_VPORT_ATTR_NAME (spec_Name spec),
          PutUint32Attr OVS_VPORT_ATTR_TYPE (spec_typeId spec),
          PutNestedAttrs OVS_VPORT_ATTR_OPTIONS (optionNlAttrs spec),
          PutUint32Attr OVS_VPORT_ATTR_UPCALL_PID 0]) w) (\<lambda>resp w.
     (res_bind (deref resp) (\<lambda>resp.
      res_bind (checkNlMsgHeaders (dp_dpif dp) resp VPORT (uint OVS_VPORT_CMD_NEW)) (\<lambda>(_, _, resp).
      res_bind (parseVport resp) (\<lambda>(vid, _). Ok vid))), w))"

definition IsNoSuchVportError :: "error \<Rightarrow> bool" where
  "IsNoSuchVportError err = (err = NetlinkError ENODEV)"

record Vport =
  vp_ID :: u32
  vp_Spec :: "VportSpec option"

definition lookupVport :: "Dpif \<Rightarrow> i32 \<Rightarrow> string \<Rightarrow> sys \<Rightarrow> (i32 \<times> Vport, sys) outcome" where
  "lookupVport dpif dpifindex name w =
     and_then (ovs_call dpif VPORT OVS_VPORT_CMD_GET OVS_VPORT_VERSION dpifindex
       (PutStringAttr OVS_VPORT_ATTR_NAME name) w) (\<lambda>resp w.
     (res_bind (deref resp) (\<lambda>resp.
      res_bind (checkNlMsgHeaders dpif resp VPORT (uint OVS_VPORT_CMD_GET)) (\<lambda>(_, ovshdr, resp).
      res_bind (parseVport resp) (\<lambda>(vid, s).
      Ok (datapathID ovshdr, \<lparr>vp_ID = vid, vp_Spec = s\<rparr>)))), w))"

definition LookupVportByName :: "Dpif \<Rightarrow> string \<Rightarrow> sys \<Rightarrow> (DatapathHandle \<times> Vport, sys) outcome" where
  "LookupVportByName dpif name w =
     and_then (lookupVport dpif 0 name w) (\<lambda>(dpifindex, vport) w.
       (Ok (\<lparr>dp_dpif = dpif, dp_ifindex = dpifindex\<rparr>, vport), w))"

definition dp_LookupVportByName :: "DatapathHandle \<Rightarrow> string \<Rightarrow> sys \<Rightarrow> (Vport, sys) outcome" where
  "dp_LookupVportByName dp name w =
     and_then (lookupVport (dp_dpif dp) (dp_ifindex dp) name w) (\<lambda>(_, vport) w. (Ok vport, w))"

definition LookupVport :: "DatapathHandle \<Rightarrow> u32 \<Rightarrow> sys \<Rightarrow> (Vport, sys) outcome" where
  "LookupVport dp vid w =
     and_then (ovs_call (dp_dpif dp) VPORT OVS_VPORT_CMD_GET OVS_VPORT_VERSION (dp_ifindex dp)
       (PutUint32Attr OVS_VPORT_ATTR_PORT_NO vid) w) (\<lambda>resp w.
     (res_bind (deref resp) (\<lambda>resp.
      res_bind (dp_checkNlMsgHeaders dp resp VPORT (uint OVS_VPORT_CMD_GET)) (\<lambda>resp.
      res_bind (parseVport resp) (\<lambda>(vid, s). Ok \<lparr>vp_ID = vid, vp_Spec = s\<rparr>))), w))"

text \<open>The name of a vport; a missing vport is shown as \<^verbatim>\<open>%d:%d\<close>.\<close>

definition LookupVportName :: "DatapathHandle \<Rightarrow> u32 \<Rightarrow> sys \<Rightarrow> (string, sys) outcome" where
  "LookupVportName dp vid w =
     (case LookupVport dp vid w of
        (Err e, w) \<Rightarrow>
          (if \<not> IsNoSuchVportError e then Err e
           else Ok (show_int (sint (dp_ifindex dp)) @ '':'' @ show_nat (unat vid)), w)
      | (Ok vport, w) \<Rightarrow> (res_bind (deref (vp_Spec vport)) (\<lambda>s. Ok (spec_Name s)), w)
      | (Crash c, w) \<Rightarrow> (Crash c, w)
      | (Blocked b, w) \<Rightarrow> (Blocked b, w))"

definition enum_vport_handler :: "DatapathHandle \<Rightarrow> Vport list handler" where
  "enum_vport_handler dp resp st =
     and_then (res_bind (dp_checkNlMsgHeaders dp resp VPORT (uint OVS_VPORT_CMD_GET)) parseVport, st)
       (\<lambda>(vid, spec) (res, w). (Ok (), (res @ [\<lparr>vp_ID = vid, vp_Spec = spec\<rparr>], w)))"

definition EnumerateVports :: "DatapathHandle \<Rightarrow> sys \<Rightarrow> (Vport list, sys) outcome" where
  "EnumerateVports dp w =
     ovs_dump (dp_dpif dp) VPORT OVS_VPORT_CMD_GET OVS_VPORT_VERSION (dp_ifindex dp)
       (enum_vport_handler dp) [] w"

definition DeleteVport :: "DatapathHandle \<Rightarrow> u32 \<Rightarrow> sys \<Rightarrow> (unit, sys) outcome" where
  "DeleteVport dp vid w =
     and_then (ovs_call (dp_dpif dp) VPORT OVS_VPORT_CMD_DEL OVS_VPORT_VERSION (dp_ifindex dp)
       (PutUint32Attr OVS_VPORT_ATTR_PORT_NO vid) w) (\<lambda>_ w. (Ok (), w))"

definition setVportUpcallPortId :: "DatapathHandle \<Rightarrow> u32 \<Rightarrow> u32 \<Rightarrow> sys \<Rightarrow> (unit, sys) outcome" where
  "setVportUpcallPortId dp vid pid w =
     and_then (ovs_call (dp_dpif dp) VPORT OVS_VPORT_CMD_SET OVS_VPORT_VERSION (dp_ifindex dp)
       (seq_gens [PutUint32Attr OVS_VPORT_ATTR_PORT_NO vid,
          PutUint32Attr OVS_VPORT_ATTR_UPCALL_PID pid]) w) (\<lambda>_ w. (Ok (), w))"

section \<open>Vport events\<close>

text \<open>The consumer's methods are parameters; they may use the system.\<close>

record 's VportEventsConsumer =
  VportCreated :: "i32 \<Rightarrow> Vport \<Rightarrow> 's \<times> sys \<Rightarrow> (unit, 's \<times> sys) outcome"
  VportDeleted :: "i32 \<Rightarrow> Vport \<Rightarrow> 's \<times> sys \<Rightarrow> (unit, 's \<times> sys) outcome"
  vport_Error :: "error \<Rightarrow> bool \<Rightarrow> 's \<Rightarrow> 's"

definition vport_event_handler :: "Dpif \<Rightarrow> 's VportEventsConsumer \<Rightarrow> i32 \<Rightarrow> 's handler" where
  "vport_event_handler dpif consumer ifindex msg st =
     and_then (checkNlMsgHeaders dpif msg VPORT (- 1), st) (\<lambda>(genlhdr, ovshdr, msg) st.
       if sint ifindex \<ge> 0 \<and> datapathID ovshdr \<noteq> ifindex then (Ok (), st)
       else and_then (parseVport msg, st) (\<lambda>(vid, spec) st.
         let vport = \<lparr>vp_ID = vid, vp_Spec = spec\<rparr> in
         if Cmd genlhdr = OVS_VPORT_CMD_NEW then VportCreated consumer (datapathID ovshdr) vport st
         else if Cmd genlhdr = OVS_VPORT_CMD_DEL then VportDeleted consumer (datapathID ovshdr) vport st
         else (Ok (), st)))"

definition consumeVportEvents ::
    "Dpif \<Rightarrow> 's VportEventsConsumer \<Rightarrow> i32 \<Rightarrow> 's \<times> sys \<Rightarrow> (unit, 's \<times> sys) outcome" where
  "consumeVportEvents dpif consumer ifindex st =
     consume (dpif_sock dpif) (vport_Error consumer) (vport_event_handler dpif consumer ifindex) st"

text \<open>
  The call subscribes a new socket and starts \<open>consumeVportEvents\<close> on the returned handle in
  another goroutine.
\<close>

definition ConsumeVportEvents :: "DatapathHandle \<Rightarrow> sys \<Rightarrow> (Dpif, sys) outcome" where
  "ConsumeVportEvents dp w =
     and_then (getMCGroup (dp_dpif dp) VPORT ''ovs_vport'', w) (\<lambda>mcGroup w.
     and_then (Reopen (dp_dpif dp) w) (\<lambda>consumeDpif w.
       let fd = sock_fd (sockets w (dpif_sock consumeDpif));
           r = answer (joins w);
           w = log (SysSetsockopt fd NETLINK_ADD_MEMBERSHIP (uint mcGroup)) (w\<lparr>joins := tl (joins w)\<rparr>)
       in case r of
            Err e \<Rightarrow> (Err e, snd (Dpif_Close consumeDpif w))
          | _ \<Rightarrow> (Ok consumeDpif, w)))"

definition dpif_ConsumeVportEvents :: "Dpif \<Rightarrow> sys \<Rightarrow> (Dpif, sys) outcome" where
  "dpif_ConsumeVportEvents dpif w = ConsumeVportEvents \<lparr>dp_dpif = dpif, dp_ifindex = - 1\<rparr> w"

section \<open>Vports on the wire\<close>

fun opt_nlas :: "VportSpec \<Rightarrow> nla list" where
  "opt_nlas (SimpleVportSpec name t typeName) = []"
| "opt_nlas (GreVportSpec name) = []"
| "opt_nlas (VxlanVportSpec name port) = [Raw OVS_TUNNEL_ATTR_DST_PORT (enc_word 2 port)]"
| "opt_nlas (GeneveVportSpec name port) = [Raw OVS_TUNNEL_ATTR_DST_PORT (enc_word 2 port)]"

interpretation put_options: attr_emitter "optionNlAttrs spec" "opt_nlas spec" for spec
  by (cases spec) (simp_all add: put_emits skip_gen_emits)

text \<open>The specifications the constructors build.\<close>

fun spec_ok :: "VportSpec \<Rightarrow> bool" where
  "spec_ok (SimpleVportSpec name t typeName) \<longleftrightarrow>
     (t = OVS_VPORT_TYPE_NETDEV \<and> typeName = ''netdev'') \<or>
     (t = OVS_VPORT_TYPE_INTERNAL \<and> typeName = ''internal'')"
| "spec_ok _ = True"

definition create_vport_trees :: "VportSpec \<Rightarrow> nla list" where
  "create_vport_trees spec =
     [Raw OVS_VPORT_ATTR_NAME (string_bytes (spec_Name spec) @ [0]),
      Raw OVS_VPORT_ATTR_TYPE (enc_word 4 (spec_typeId spec)),
      Nested OVS_VPORT_ATTR_OPTIONS (opt_nlas spec),
      Raw OVS_VPORT_ATTR_UPCALL_PID (enc_word 4 (0 :: u32))]"

lemma create_vport_emits:
  "attr_emitter (seq_gens [PutStringAttr OVS_VPORT_ATTR_NAME (spec_Name spec),
      PutUint32Attr OVS_VPORT_ATTR_TYPE (spec_typeId spec),
      PutNestedAttrs OVS_VPORT_ATTR_OPTIONS (optionNlAttrs spec),
      PutUint32Attr OVS_VPORT_ATTR_UPCALL_PID 0]) (create_vport_trees spec)"
  using seq_gens_emits [of "[PutStringAttr OVS_VPORT_ATTR_NAME (spec_Name spec),
      PutUint32Attr OVS_VPORT_ATTR_TYPE (spec_typeId spec),
      PutNestedAttrs OVS_VPORT_ATTR_OPTIONS (optionNlAttrs spec),
      PutUint32Attr OVS_VPORT_ATTR_UPCALL_PID 0]" "map (\<lambda>a. [a]) (create_vport_trees spec)"]
    put_emits PutNestedAttrs_emits [OF put_options.attr_emitter_axioms]
  by (simp add: create_vport_trees_def del: ovs_consts seq_gens.simps)

text \<open>
  Attributes that describe vport \<open>vid\<close> with specification \<open>spec\<close>, in any order and among any
  others.  The options hold at least what the vport was created with, and may be missing when
  that is nothing.
\<close>

definition describes_options :: "bytes option \<Rightarrow> VportSpec \<Rightarrow> bool" where
  "describes_options opts spec \<longleftrightarrow>
     (case opts of None \<Rightarrow> opt_nlas spec = []
      | Some b \<Rightarrow> \<exists>ts. b = pad4 (enc_nlas ts) \<and> list_all fits ts \<and> attrs_of (opt_nlas spec) \<subseteq>\<^sub>m attrs_of ts)"

definition describes_vport :: "Attrs \<Rightarrow> u32 \<Rightarrow> VportSpec \<Rightarrow> bool" where
  "describes_vport attrs vid spec \<longleftrightarrow>
     attrs OVS_VPORT_ATTR_PORT_NO = Some (enc_word 4 vid) \<and>
     attrs OVS_VPORT_ATTR_TYPE = Some (enc_word 4 (spec_typeId spec)) \<and>
     attrs OVS_VPORT_ATTR_NAME = Some (string_bytes (spec_Name spec) @ [0]) \<and>
     describes_options (attrs OVS_VPORT_ATTR_OPTIONS) spec"

lemma opt_nlas_fits: "list_all fits (opt_nlas spec)"
  by (cases spec) (simp_all add: fits_def)

lemma GetString_zero: "attrs t = Some (string_bytes name @ [0]) \<Longrightarrow> GetString attrs t = Ok name"
  by (simp add: getter_defs nth_append)

lemma describes_getters:
  assumes "describes_vport attrs vid spec"
  shows "GetUint32 attrs OVS_VPORT_ATTR_PORT_NO = Ok vid"
    "GetUint32 attrs OVS_VPORT_ATTR_TYPE = Ok (spec_typeId spec)"
    "GetString attrs OVS_VPORT_ATTR_NAME = Ok (spec_Name spec)"
  using assms by (simp_all add: describes_vport_def GetString_zero) (simp_all add: getter_defs)

lemma describes_own_options: "describes_options (Some (pad4 (enc_nlas (opt_nlas spec)))) spec"
  using opt_nlas_fits [of spec] by (auto simp: describes_options_def)

lemma describes_options_get:
  assumes "describes_options (attrs OVS_VPORT_ATTR_OPTIONS) spec"
  obtains os om where "GetNestedAttrs attrs OVS_VPORT_ATTR_OPTIONS True = Ok os"
    "om = (case os of None \<Rightarrow> Map.empty | Some m \<Rightarrow> m)"
    "\<forall>t v. attrs_of (opt_nlas spec) t = Some v \<longrightarrow> om t = Some v"
proof (cases "attrs OVS_VPORT_ATTR_OPTIONS")
  case None
  moreover from this have "GetNestedAttrs attrs OVS_VPORT_ATTR_OPTIONS True = Ok None"
    by (simp add: GetNestedAttrs_def getter_defs)
  ultimately show thesis using assms that [of None Map.empty] by (simp add: describes_options_def attrs_of_def)
next
  case (Some b)
  then obtain ts where ts: "b = pad4 (enc_nlas ts)" "list_all fits ts" "attrs_of (opt_nlas spec) \<subseteq>\<^sub>m attrs_of ts"
    using assms by (auto simp: describes_options_def)
  have "GetNestedAttrs attrs OVS_VPORT_ATTR_OPTIONS True = Ok (Some (attrs_of ts))"
    using GetNestedAttrs_enc [OF ts(2)] Some ts(1) by simp
  with ts(3) show thesis using that [of "Some (attrs_of ts)" "attrs_of ts"] by (simp add: map_le_def dom_def)
qed

lemma parseVport_describes:
  assumes "TakeAttrs msg = Ok (attrs, q)" "describes_vport attrs vid spec" "spec_ok spec"
  shows "parseVport msg = Ok (vid, Some spec)"
proof -
  have "describes_options (attrs OVS_VPORT_ATTR_OPTIONS) spec" using assms(2) by (simp add: describes_vport_def)
  then obtain os om where os: "GetNestedAttrs attrs OVS_VPORT_ATTR_OPTIONS True = Ok os"
    "om = (case os of None \<Rightarrow> Map.empty | Some m \<Rightarrow> m)" "\<forall>t v. attrs_of (opt_nlas spec) t = Some v \<longrightarrow> om t = Some v"
    by (rule describes_options_get)
  have "parseVport msg =
     res_bind
       (if spec_typeId spec = OVS_VPORT_TYPE_NETDEV then Ok (Some (NewNetdevVportSpec (spec_Name spec)))
        else if spec_typeId spec = OVS_VPORT_TYPE_INTERNAL then Ok (Some (NewInternalVportSpec (spec_Name spec)))
        else if spec_typeId spec = OVS_VPORT_TYPE_GRE then Ok (Some (NewGreVportSpec (spec_Name spec)))
        else if spec_typeId spec = OVS_VPORT_TYPE_VXLAN
        then udp_spec VxlanVportSpec (parseUdpVportSpec (spec_Name spec) om)
        else if spec_typeId spec = OVS_VPORT_TYPE_GENEVE
        then udp_spec GeneveVportSpec (parseUdpVportSpec (spec_Name spec) om)
        else Err (UnsupportedVportType (spec_typeId spec))) (\<lambda>s. Ok (vid, s))"
    using assms(1) os(1,2) describes_getters [OF assms(2)] by (simp add: parseVport_def Let_def del: ovs_consts)
  also have "\<dots> = Ok (vid, Some spec)"
    using assms(3) spec [OF os(3), of OVS_TUNNEL_ATTR_DST_PORT]
    by (cases spec) (auto simp: NewNetdevVportSpec_def NewInternalVportSpec_def NewGreVportSpec_def
        udp_spec_def parseUdpVportSpec_def getter_defs attrs_of_def)
  finally show ?thesis .
qed

definition vp_msg_ok :: "Dpif \<Rightarrow> wmsg \<Rightarrow> u8 \<Rightarrow> i32 \<Rightarrow> u32 \<Rightarrow> VportSpec \<Rightarrow> bool" where
  "vp_msg_ok dpif m c ifindex vid spec \<longleftrightarrow>
     fst m = fam_id (families dpif ! VPORT) \<and> spec_ok spec \<and>
     (\<exists>v ts. snd (snd m) = ovs_body c v ifindex ts \<and> list_all fits ts \<and>
        describes_vport (attrs_of ts) vid spec)"

text \<open>A message about a VXLAN or Geneve vport that has no options, and so no port.\<close>

definition portless_msg :: "Dpif \<Rightarrow> wmsg \<Rightarrow> u8 \<Rightarrow> i32 \<Rightarrow> u32 \<Rightarrow> bool" where
  "portless_msg dpif m c ifindex vid \<longleftrightarrow>
     fst m = fam_id (families dpif ! VPORT) \<and>
     (\<exists>v ts t name. snd (snd m) = ovs_body c v ifindex ts \<and> list_all fits ts \<and>
        t \<in> {OVS_VPORT_TYPE_VXLAN, OVS_VPORT_TYPE_GENEVE} \<and>
        attrs_of ts OVS_VPORT_ATTR_PORT_NO = Some (enc_word 4 vid) \<and>
        attrs_of ts OVS_VPORT_ATTR_TYPE = Some (enc_word 4 t) \<and>
        attrs_of ts OVS_VPORT_ATTR_NAME = Some (string_bytes name @ [0]) \<and>
        attrs_of ts OVS_VPORT_ATTR_OPTIONS = None)"

lemma parseVport_portless:
  assumes "TakeAttrs msg = Ok (attrs, q)" "GetUint32 attrs OVS_VPORT_ATTR_PORT_NO = Ok vid"
    "GetString attrs OVS_VPORT_ATTR_NAME = Ok name" "attrs OVS_VPORT_ATTR_OPTIONS = None"
    "GetUint32 attrs OVS_VPORT_ATTR_TYPE = Ok t" "t \<in> {OVS_VPORT_TYPE_VXLAN, OVS_VPORT_TYPE_GENEVE}"
  shows "parseVport msg = Ok (vid, None)"
proof -
  have "GetNestedAttrs attrs OVS_VPORT_ATTR_OPTIONS True = Ok None"
    using assms(4) by (simp add: GetNestedAttrs_def getter_defs)
  moreover have "parseUdpVportSpec name Map.empty = Err (MissingAttr OVS_TUNNEL_ATTR_DST_PORT)"
    by (simp add: parseUdpVportSpec_def getter_defs)
  ultimately show ?thesis using assms by (auto simp: parseVport_def Let_def udp_spec_def)
qed

lemma dp_portless_msg:
  assumes "portless_msg (dp_dpif dp) m c (dp_ifindex dp) vid" "cmd_accepted VPORT cmd c" "4 dvd length pre"
  shows "res_bind (dp_checkNlMsgHeaders dp \<lparr>pdata = pre @ wire seq pid m, ppos = length pre\<rparr> VPORT cmd)
    parseVport = Ok (vid, None)"
proof -
  obtain v ts t name where m: "fst m = fam_id (families (dp_dpif dp) ! VPORT)"
    "snd (snd m) = ovs_body c v (dp_ifindex dp) ts" "list_all fits ts"
    "t \<in> {OVS_VPORT_TYPE_VXLAN, OVS_VPORT_TYPE_GENEVE}"
    "attrs_of ts OVS_VPORT_ATTR_PORT_NO = Some (enc_word 4 vid)"
    "attrs_of ts OVS_VPORT_ATTR_TYPE = Some (enc_word 4 t)"
    "attrs_of ts OVS_VPORT_ATTR_NAME = Some (string_bytes name @ [0])"
    "attrs_of ts OVS_VPORT_ATTR_OPTIONS = None"
    using assms(1) unfolding portless_msg_def by blast
  have w: "wire seq pid m = nlmsg_bytes (fst m) (fst (snd m)) seq pid (ovs_body c v (dp_ifindex dp) ts)"
    using m(2) by (simp add: wire_msg)
  obtain q where q: "TakeAttrs \<lparr>pdata = pre @ wire seq pid m, ppos = length pre + 24\<rparr> = Ok (attrs_of ts, q)"
    by (rule TakeAttrs_msg [OF assms(3) w m(3)])
  have "GetUint32 (attrs_of ts) OVS_VPORT_ATTR_PORT_NO = Ok vid" "GetUint32 (attrs_of ts) OVS_VPORT_ATTR_TYPE = Ok t"
    using m(5,6) by (simp_all add: getter_defs del: ovs_consts)
  from parseVport_portless [OF q this(1) GetString_zero [of "attrs_of ts" OVS_VPORT_ATTR_NAME name, OF m(7)] m(8) this(2) m(4)]
  show ?thesis
    using checkNlMsgHeaders_msg [OF assms(3) w, of "dp_dpif dp" VPORT cmd] m(1) assms(2)
    by (simp add: dp_checkNlMsgHeaders_def datapathID_def)
qed

lemma vp_msg:
  assumes "vp_msg_ok dpif m c ifindex vid spec" "4 dvd length pre"
  obtains v where "\<And>cmd. cmd_accepted VPORT cmd c \<Longrightarrow>
      checkNlMsgHeaders dpif \<lparr>pdata = pre @ wire seq pid m, ppos = length pre\<rparr> VPORT cmd =
        Ok (\<lparr>Cmd = c, Version = v, Reserved = 0\<rparr>, \<lparr>DpIfIndex = ifindex\<rparr>,
            \<lparr>pdata = pre @ wire seq pid m, ppos = length pre + 24\<rparr>)"
    "parseVport \<lparr>pdata = pre @ wire seq pid m, ppos = length pre + 24\<rparr> = Ok (vid, Some spec)"
proof -
  obtain v ts where m: "fst m = fam_id (families dpif ! VPORT)" "spec_ok spec"
    "snd (snd m) = ovs_body c v ifindex ts" "list_all fits ts" "describes_vport (attrs_of ts) vid spec"
    using assms(1) by (auto simp: vp_msg_ok_def)
  have w: "wire seq pid m = nlmsg_bytes (fst m) (fst (snd m)) seq pid (ovs_body c v ifindex ts)"
    using m(3) by (simp add: wire_msg)
  obtain q where "TakeAttrs \<lparr>pdata = pre @ wire seq pid m, ppos = length pre + 24\<rparr> = Ok (attrs_of ts, q)"
    by (rule TakeAttrs_msg [OF assms(2) w m(4)])
  from parseVport_describes [OF this m(5,2)] show thesis
    using that [of v] checkNlMsgHeaders_msg [OF assms(2) w, of dpif VPORT] m(1) by simp
qed

lemma dp_vp_msg:
  assumes "vp_msg_ok (dp_dpif dp) m c (dp_ifindex dp) vid spec" "cmd_accepted VPORT cmd c" "4 dvd length pre"
  shows "res_bind (dp_checkNlMsgHeaders dp \<lparr>pdata = pre @ wire seq pid m, ppos = length pre\<rparr> VPORT cmd)
    parseVport = Ok (vid, Some spec)"
proof (rule vp_msg [OF assms(1,3)])
  fix v
  assume "\<And>cmd. cmd_accepted VPORT cmd c \<Longrightarrow>
      checkNlMsgHeaders (dp_dpif dp) \<lparr>pdata = pre @ wire seq pid m, ppos = length pre\<rparr> VPORT cmd =
        Ok (\<lparr>Cmd = c, Version = v, Reserved = 0\<rparr>, \<lparr>DpIfIndex = dp_ifindex dp\<rparr>,
            \<lparr>pdata = pre @ wire seq pid m, ppos = length pre + 24\<rparr>)"
    "parseVport \<lparr>pdata = pre @ wire seq pid m, ppos = length pre + 24\<rparr> = Ok (vid, Some spec)"
  then show ?thesis using assms(2) by (simp add: dp_checkNlMsgHeaders_def datapathID_def)
qed

section \<open>Creating and looking up\<close>

lemma CreateVport_reply:
  assumes "answer (sends w) = Ok ()" "fuel w > 0" "fst m \<noteq> NLMSG_ERROR"
    "answers (dpif_sock (dp_dpif dp)) w (fst m) (fst (snd m)) (nextSeqNo w + 1) (snd (snd m))"
    "vp_msg_ok (dp_dpif dp) m OVS_VPORT_CMD_NEW ifindex vid spec'"
  shows "CreateVport dp spec w = (Ok vid,
    exchanged (dpif_sock (dp_dpif dp)) (fam_id (families (dp_dpif dp) ! VPORT))
      (ovs_body OVS_VPORT_CMD_NEW OVS_VPORT_VERSION (dp_ifindex dp) (create_vport_trees spec)) w)"
proof (rule vp_msg [OF assms(5), of "[]" "nextSeqNo w + 1" "PortId (dpif_sock (dp_dpif dp)) w"])
  let ?p = "\<lambda>n. \<lparr>pdata = [] @ wire (nextSeqNo w + 1) (PortId (dpif_sock (dp_dpif dp)) w) m, ppos = n\<rparr>"
  fix v
  assume p: "\<And>cmd. cmd_accepted VPORT cmd OVS_VPORT_CMD_NEW \<Longrightarrow>
      checkNlMsgHeaders (dp_dpif dp) (?p (length [])) VPORT cmd =
        Ok (\<lparr>Cmd = OVS_VPORT_CMD_NEW, Version = v, Reserved = 0\<rparr>, \<lparr>DpIfIndex = ifindex\<rparr>, ?p (length [] + 24))"
    "parseVport (?p (length [] + 24)) = Ok (vid, Some spec')"
  have "cmd_accepted VPORT (uint OVS_VPORT_CMD_NEW) OVS_VPORT_CMD_NEW" by (simp add: cmd_accepted_def)
  from p(1) [OF this] p(2) show ?thesis
    using ovs_call_reply [OF create_vport_emits assms(1-4), of VPORT OVS_VPORT_CMD_NEW OVS_VPORT_VERSION
        "dp_ifindex dp" spec]
    by (simp add: CreateVport_def wire_msg del: ovs_consts seq_gens.simps)
qed simp

lemma LookupVport_reply:
  assumes "answer (sends w) = Ok ()" "fuel w > 0" "fst m \<noteq> NLMSG_ERROR"
    "answers (dpif_sock (dp_dpif dp)) w (fst m) (fst (snd m)) (nextSeqNo w + 1) (snd (snd m))"
    "vp_msg_ok (dp_dpif dp) m c (dp_ifindex dp) vid' spec" "cmd_accepted VPORT (uint OVS_VPORT_CMD_GET) c"
  shows "LookupVport dp vid w = (Ok \<lparr>vp_ID = vid', vp_Spec = Some spec\<rparr>,
    exchanged (dpif_sock (dp_dpif dp)) (fam_id (families (dp_dpif dp) ! VPORT))
      (ovs_body OVS_VPORT_CMD_GET OVS_VPORT_VERSION (dp_ifindex dp)
         [Raw OVS_VPORT_ATTR_PORT_NO (enc_word 4 vid)]) w)"
proof -
  let ?p = "\<lparr>pdata = wire (nextSeqNo w + 1) (PortId (dpif_sock (dp_dpif dp)) w) m, ppos = 0\<rparr>"
  obtain q where "dp_checkNlMsgHeaders dp ?p VPORT (uint OVS_VPORT_CMD_GET) = Ok q" "parseVport q = Ok (vid', Some spec)"
    using dp_vp_msg [OF assms(5,6), of "[]" "nextSeqNo w + 1" "PortId (dpif_sock (dp_dpif dp)) w"]
    by (auto simp: res_bind_eq_Ok simp del: ovs_consts)
  then show ?thesis
    using ovs_call_reply [OF put_uint32.attr_emitter_axioms assms(1-4), of VPORT OVS_VPORT_CMD_GET
        OVS_VPORT_VERSION "dp_ifindex dp" OVS_VPORT_ATTR_PORT_NO vid]
    by (simp add: LookupVport_def wire_msg del: ovs_consts)
qed

lemma lookupVport_reply:
  assumes "answer (sends w) = Ok ()" "fuel w > 0" "fst m \<noteq> NLMSG_ERROR"
    "answers (dpif_sock dpif) w (fst m) (fst (snd m)) (nextSeqNo w + 1) (snd (snd m))"
    "vp_msg_ok dpif m c ifindex vid spec" "cmd_accepted VPORT (uint OVS_VPORT_CMD_GET) c"
  shows "lookupVport dpif i name w = (Ok (ifindex, \<lparr>vp_ID = vid, vp_Spec = Some spec\<rparr>),
    exchanged (dpif_sock dpif) (fam_id (families dpif ! VPORT))
      (ovs_body OVS_VPORT_CMD_GET OVS_VPORT_VERSION i [Raw OVS_VPORT_ATTR_NAME (string_bytes name @ [0])]) w)"
proof (rule vp_msg [OF assms(5), of "[]" "nextSeqNo w + 1" "PortId (dpif_sock dpif) w"])
  let ?p = "\<lambda>n. \<lparr>pdata = [] @ wire (nextSeqNo w + 1) (PortId (dpif_sock dpif) w) m, ppos = n\<rparr>"
  fix v
  assume p: "\<And>cmd. cmd_accepted VPORT cmd c \<Longrightarrow>
      checkNlMsgHeaders dpif (?p (length [])) VPORT cmd =
        Ok (\<lparr>Cmd = c, Version = v, Reserved = 0\<rparr>, \<lparr>DpIfIndex = ifindex\<rparr>, ?p (length [] + 24))"
    "parseVport (?p (length [] + 24)) = Ok (vid, Some spec)"
  from p(1) [OF assms(6)] p(2) show ?thesis
    using ovs_call_reply [OF put_string.attr_emitter_axioms assms(1-4), of VPORT OVS_VPORT_CMD_GET OVS_VPORT_VERSION i
        OVS_VPORT_ATTR_NAME name]
    by (simp add: lookupVport_def datapathID_def wire_msg del: ovs_consts)
qed simp

lemma netlink_error_ENODEV: "netlink_error (- 19) = NetlinkError ENODEV"
  by (simp add: netlink_error_def ENODEV_def)

lemma netlink_error_inject: "netlink_error a = netlink_error b \<longleftrightarrow> a = b"
proof -
  have "scast (scast x :: u64) = x" for x :: i32 by (rule scast_up_scast_id) (simp add: is_up)
  then have "inj (scast :: i32 \<Rightarrow> u64)" by (metis injI)
  then show ?thesis by (simp add: netlink_error_def inj_eq)
qed

lemma LookupVport_error:
  assumes "answer (sends w) = Ok ()" "fuel w > 0" "e \<noteq> 0"
    "answers (dpif_sock (dp_dpif dp)) w NLMSG_ERROR fl (nextSeqNo w + 1) (enc_word 4 (e :: i32) @ rest)"
  shows "LookupVport dp vid w = (Err (netlink_error e),
    exchanged (dpif_sock (dp_dpif dp)) (fam_id (families (dp_dpif dp) ! VPORT))
      (ovs_body OVS_VPORT_CMD_GET OVS_VPORT_VERSION (dp_ifindex dp)
         [Raw OVS_VPORT_ATTR_PORT_NO (enc_word 4 vid)]) w)"
  using ovs_call_error [OF put_uint32.attr_emitter_axioms assms, of VPORT OVS_VPORT_CMD_GET
      OVS_VPORT_VERSION "dp_ifindex dp" OVS_VPORT_ATTR_PORT_NO vid]
  by (simp add: LookupVport_def del: ovs_consts)

section \<open>Listing vports\<close>

text \<open>
  What a message of a dump says: a vport with its specification, or one whose specification the
  parser leaves nil.  The kernel answers with the command of the request or with
  \<^verbatim>\<open>OVS_VPORT_CMD_NEW\<close>.
\<close>

definition vp_says :: "DatapathHandle \<Rightarrow> wmsg \<Rightarrow> u32 \<Rightarrow> VportSpec option \<Rightarrow> bool" where
  "vp_says dp m vid s \<longleftrightarrow>
     (\<exists>c. (c = OVS_VPORT_CMD_GET \<or> c = OVS_VPORT_CMD_NEW) \<and>
        (case s of Some spec \<Rightarrow> vp_msg_ok (dp_dpif dp) m c (dp_ifindex dp) vid spec
         | None \<Rightarrow> portless_msg (dp_dpif dp) m c (dp_ifindex dp) vid))"

definition vp_listed :: "DatapathHandle \<Rightarrow> wmsg \<Rightarrow> bool" where
  "vp_listed dp m \<longleftrightarrow> fst m \<noteq> NLMSG_ERROR \<and> fst m \<noteq> NLMSG_DONE \<and> (\<exists>vid s. vp_says dp m vid s)"

definition vp_entry :: "DatapathHandle \<Rightarrow> wmsg \<Rightarrow> Vport list \<Rightarrow> Vport list" where
  "vp_entry dp m res =
     (case res_bind (dp_checkNlMsgHeaders dp \<lparr>pdata = wire 0 0 m, ppos = 0\<rparr> VPORT (uint OVS_VPORT_CMD_GET))
        parseVport of
        Ok (vid, spec) \<Rightarrow> res @ [\<lparr>vp_ID = vid, vp_Spec = spec\<rparr>]
      | _ \<Rightarrow> res)"

lemma get_reply_accepted:
  "c = OVS_VPORT_CMD_GET \<or> c = OVS_VPORT_CMD_NEW \<Longrightarrow> cmd_accepted VPORT (uint OVS_VPORT_CMD_GET) c"
  by (auto simp: cmd_accepted_def fallback_cmd_def VPORT_def)

lemma vp_says_parsed:
  assumes "vp_says dp m vid s" "4 dvd length pre"
  shows "res_bind (dp_checkNlMsgHeaders dp \<lparr>pdata = pre @ wire seq pid m, ppos = length pre\<rparr> VPORT (uint OVS_VPORT_CMD_GET))
    parseVport = Ok (vid, s)"
proof -
  obtain c where c: "c = OVS_VPORT_CMD_GET \<or> c = OVS_VPORT_CMD_NEW"
    "case s of Some spec \<Rightarrow> vp_msg_ok (dp_dpif dp) m c (dp_ifindex dp) vid spec
     | None \<Rightarrow> portless_msg (dp_dpif dp) m c (dp_ifindex dp) vid"
    using assms(1) unfolding vp_says_def by blast
  note ok = get_reply_accepted [OF c(1)]
  show ?thesis
  proof (cases s)
    case None
    then show ?thesis using dp_portless_msg [OF _ ok assms(2)] c(2) by simp
  next
    case (Some spec)
    then show ?thesis using dp_vp_msg [OF _ ok assms(2)] c(2) by simp
  qed
qed

lemma vp_entry_msg: "vp_says dp m vid s \<Longrightarrow> vp_entry dp m res = res @ [\<lparr>vp_ID = vid, vp_Spec = s\<rparr>]"
  using vp_says_parsed [of dp m vid s "[]" 0 0] by (simp add: vp_entry_def)

interpretation vport_dump: dump_handler "enum_vport_handler dp" "vp_entry dp" "vp_listed dp" seq pid
  for dp seq pid
proof
  fix m pre s w
  assume "vp_listed dp m" and pre: "4 dvd length (pre :: bytes)"
  then obtain vid spec where m: "vp_says dp m vid spec" by (auto simp: vp_listed_def)
  show "enum_vport_handler dp \<lparr>pdata = pre @ wire seq pid m, ppos = length pre\<rparr> (s, w) =
      (Ok (), (vp_entry dp m s, w))"
    using vp_says_parsed [OF m pre, of seq pid] by (simp add: enum_vport_handler_def vp_entry_msg [OF m])
next
  fix m assume "vp_listed dp m"
  then show "fst m \<noteq> NLMSG_ERROR \<and> fst m \<noteq> NLMSG_DONE" by (simp add: vp_listed_def)
qed

lemma fold_vp_entries:
  assumes "list_all2 (\<lambda>m (vid, s). vp_says dp m vid s) ms vs"
  shows "fold (vp_entry dp) ms res = res @ map (\<lambda>(vid, s). \<lparr>vp_ID = vid, vp_Spec = s\<rparr>) vs"
  using assms
  by (induction ms vs arbitrary: res rule: list_all2_induct) (auto simp: vp_entry_msg simp del: ovs_consts)

lemma vp_entry_extends: "\<exists>vs. vp_entry dp m res = res @ vs"
  by (auto simp: vp_entry_def split: res.split)

lemma fold_vp_entry_keeps: "v \<in> set res \<Longrightarrow> v \<in> set (fold (vp_entry dp) ms res)"
proof (induction ms arbitrary: res)
  case (Cons m ms)
  obtain vs where "vp_entry dp m res = res @ vs" using vp_entry_extends by blast
  then show ?case using Cons.IH [of "res @ vs"] Cons.prems by simp
qed simp

lemma vp_entries_member:
  assumes "m \<in> set ms" "vp_says dp m vid s"
  shows "\<lparr>vp_ID = vid, vp_Spec = s\<rparr> \<in> set (fold (vp_entry dp) ms res)"
proof -
  obtain ms1 ms2 where ms: "ms = ms1 @ m # ms2" using split_list [OF assms(1)] by blast
  show ?thesis by (simp add: ms vp_entry_msg [OF assms(2)] fold_vp_entry_keeps)
qed

section \<open>Events\<close>

lemma vport_event_dispatch:
  assumes "vp_msg_ok dpif m c ifindex' vid spec" "4 dvd length pre"
  shows "vport_event_handler dpif consumer ifindex \<lparr>pdata = pre @ wire seq pid m, ppos = length pre\<rparr> st =
    (if sint ifindex \<ge> 0 \<and> ifindex' \<noteq> ifindex then (Ok (), st)
     else if c = OVS_VPORT_CMD_NEW then VportCreated consumer ifindex' \<lparr>vp_ID = vid, vp_Spec = Some spec\<rparr> st
     else if c = OVS_VPORT_CMD_DEL then VportDeleted consumer ifindex' \<lparr>vp_ID = vid, vp_Spec = Some spec\<rparr> st
     else (Ok (), st))"
proof (rule vp_msg [OF assms, of seq pid])
  let ?p = "\<lambda>n. \<lparr>pdata = pre @ wire seq pid m, ppos = n\<rparr>"
  fix v
  assume p: "\<And>cmd. cmd_accepted VPORT cmd c \<Longrightarrow> checkNlMsgHeaders dpif (?p (length pre)) VPORT cmd =
        Ok (\<lparr>Cmd = c, Version = v, Reserved = 0\<rparr>, \<lparr>DpIfIndex = ifindex'\<rparr>, ?p (length pre + 24))"
    "parseVport (?p (length pre + 24)) = Ok (vid, Some spec)"
  have "cmd_accepted VPORT (- 1) c" by (simp add: cmd_accepted_def)
  from p(1) [OF this] p(2) show ?thesis
    by (simp add: vport_event_handler_def datapathID_def Let_def del: ovs_consts)
qed

section \<open>Reopening a handle\<close>

lemma Reopen_Ok:
  assumes "Reopen dpif w = (Ok d, w')"
  obtains fd pid where "dpif_sock d = nsockets w" "families d = families dpif"
    "sockets w' = (sockets w)(dpif_sock d := \<lparr>sock_fd = fd, sock_pid = pid\<rparr>)" "open_fds w' = fd # open_fds w"
    "nsockets w' = nsockets w + 1"
proof -
  obtain s where op1: "OpenNetlinkSocket NETLINK_GENERIC w = (Ok s, w')"
    and d: "d = \<lparr>dpif_sock = s, families = families dpif\<rparr>"
    using assms
    by (cases "OpenNetlinkSocket NETLINK_GENERIC w"; cases "fst (OpenNetlinkSocket NETLINK_GENERIC w)")
      (auto simp: Reopen_def)
  show thesis by (rule OpenNetlinkSocket_Ok [OF op1]) (use d in \<open>auto intro: that\<close>)
qed

lemma Reopen_Err:
  assumes "Reopen dpif w = (Err e, w')"
  shows "open_fds w' = open_fds w"
proof (cases "OpenNetlinkSocket NETLINK_GENERIC w")
  case (Pair r v)
  then have "r = Err e" "v = w'" using assms by (cases r, auto simp: Reopen_def)+
  then show ?thesis using OpenNetlinkSocket_Err Pair by blast
qed

lemma Reopen_good_fd:
  assumes "Reopen dpif w = (Ok d, w')" "good_fds w"
  shows "0 \<le> sock_fd (sockets w' (dpif_sock d))"
  using assms
  by (auto simp: Reopen_def OpenNetlinkSocket_def Let_def good_fds_def
      split: list.splits sum.splits option.splits sockaddr.splits)

section \<open>Properties\<close>

text \<open>A vport message of a kernel that lists the attributes of the creating request and the number.\<close>

definition demo_vport_trees :: "u32 \<Rightarrow> VportSpec \<Rightarrow> nla list" where
  "demo_vport_trees vid spec = Raw OVS_VPORT_ATTR_PORT_NO (enc_word 4 vid) # create_vport_trees spec"

definition demo_vport_msg :: "u8 \<Rightarrow> u32 \<Rightarrow> VportSpec \<Rightarrow> wmsg" where
  "demo_vport_msg c vid spec = (22, 2, ovs_body c 1 6 (demo_vport_trees vid spec))"

definition demo_vxlan :: VportSpec where
  "demo_vxlan = NewVxlanVportSpec ''vx'' 4789"

definition demo_datapath :: DatapathHandle where
  "demo_datapath = \<lparr>dp_dpif = demo_dpif, dp_ifindex = 6\<rparr>"

lemma demo_vport_msg_ok: "vp_msg_ok demo_dpif (demo_vport_msg c 3 demo_vxlan) c 6 3 demo_vxlan"
  unfolding vp_msg_ok_def
proof (intro conjI exI)
  show "snd (snd (demo_vport_msg c 3 demo_vxlan)) = ovs_body c 1 6 (demo_vport_trees 3 demo_vxlan)"
    by (simp add: demo_vport_msg_def)
  have "attrs_of (demo_vport_trees 3 demo_vxlan) OVS_VPORT_ATTR_OPTIONS = Some (pad4 (enc_nlas (opt_nlas demo_vxlan)))"
    by (simp add: demo_vport_trees_def create_vport_trees_def attrs_of_def)
  then show "describes_vport (attrs_of (demo_vport_trees 3 demo_vxlan)) 3 demo_vxlan"
    using describes_own_options [of demo_vxlan] unfolding describes_vport_def
    by (simp del: ovs_consts) (simp add: demo_vport_trees_def create_vport_trees_def attrs_of_def)
qed (simp_all add: demo_vport_msg_def demo_dpif_def VPORT_def demo_vxlan_def NewVxlanVportSpec_def
      demo_vport_trees_def create_vport_trees_def fits_def align4)

lemma demo_vport_length: "length (wire q p (demo_vport_msg c 3 demo_vxlan)) = 68"
  by (simp add: wire_msg demo_vport_msg_def ovs_body_def demo_vport_trees_def create_vport_trees_def align4
      demo_vxlan_def NewVxlanVportSpec_def)

text \<open>
  Creating a vport sends one message with the name, the type, the nested options
  (the port of a VXLAN or Geneve vport) and a zero upcall port, and the result is the number
  in the reply.
\<close>

theorem CreateVport_exchange:
  fixes dp w
  defines "s \<equiv> dpif_sock (dp_dpif dp)" and "fd \<equiv> sock_fd (sockets w (dpif_sock (dp_dpif dp)))"
  assumes "answer (sends w) = Ok ()" "fuel w > 0" "fst m \<noteq> NLMSG_ERROR"
    "answers s w (fst m) (fst (snd m)) (nextSeqNo w + 1) (snd (snd m))"
    "vp_msg_ok (dp_dpif dp) m OVS_VPORT_CMD_NEW ifindex vid spec'"
  shows "\<exists>w'. CreateVport dp spec w = (Ok vid, w') \<and>
    trace w' = trace w @
      [SysSendto fd (nlmsg_bytes (fam_id (families (dp_dpif dp) ! VPORT)) RequestFlags (nextSeqNo w + 1) 0
         (ovs_body OVS_VPORT_CMD_NEW OVS_VPORT_VERSION (dp_ifindex dp) (create_vport_trees spec))),
       SysRecvfrom fd]"
  using CreateVport_reply [OF assms(3-) [unfolded s_def], of spec]
  by (simp add: fd_def exchanged_def sent_state_def recvd_state_def log_def Let_def del: ovs_consts)

theorem CreateVport_exchange_witness:
  "\<exists>w'. CreateVport demo_datapath demo_vxlan
     (idle_sys [Datagram (wire 42 7 (demo_vport_msg OVS_VPORT_CMD_NEW 3 demo_vxlan)) (NetlinkAddr 0)]) = (Ok 3, w')"
proof -
  let ?m = "demo_vport_msg OVS_VPORT_CMD_NEW 3 demo_vxlan"
  let ?w = "idle_sys [Datagram (wire 42 7 ?m) (NetlinkAddr 0)]"
  have "answers 0 ?w (fst ?m) (fst (snd ?m)) 42 (snd (snd ?m))"
    unfolding answers_def
    by (intro exI [of _ "[]"] conjI exI)
      (simp add: wire_msg, use demo_vport_length [of 42 7] in \<open>simp add: wire_msg RECV_BUF_def del: ovs_consts\<close>)
  moreover have "dpif_sock (dp_dpif demo_datapath) = 0" by (simp add: demo_datapath_def demo_dpif_def)
  moreover have "vp_msg_ok (dp_dpif demo_datapath) ?m OVS_VPORT_CMD_NEW 6 3 demo_vxlan"
    using demo_vport_msg_ok by (simp add: demo_datapath_def)
  moreover have "fst ?m \<noteq> NLMSG_ERROR" by (simp add: demo_vport_msg_def NLMSG_ERROR_def)
  ultimately show ?thesis
    using CreateVport_exchange [of ?w ?m demo_datapath 6 3 demo_vxlan demo_vxlan] by (auto simp del: ovs_consts)
qed

text \<open>
  \<^verbatim>\<open>EnumerateVports\<close> returns the vports of the dump in order, each with its number
  and the specification it was created with, or nil for a tunnel vport without a port, however
  the dump is cut into datagrams.
\<close>

theorem EnumerateVports_lists:
  fixes dp w
  defines "s \<equiv> dpif_sock (dp_dpif dp)" and "q \<equiv> nextSeqNo w + 1"
  assumes "answer (sends w) = Ok ()" "dump_of (vp_listed dp) q (PortId s w) ds"
    "inbox_of s w = map (\<lambda>d. Datagram (dgram q (PortId s w) d) (NetlinkAddr 0)) ds @ as"
    "\<forall>d \<in> set ds. length d \<le> fuel w" "length ds \<le> fuel w"
    "list_all2 (\<lambda>m (vid, s). vp_says dp m vid s) (dump_items ds) items"
  shows "\<exists>w'. EnumerateVports dp w = (Ok (map (\<lambda>(vid, s). \<lparr>vp_ID = vid, vp_Spec = s\<rparr>) items), w')"
proof -
  obtain w' where w': "EnumerateVports dp w = (Ok (fold (vp_entry dp) (dump_items ds) []), w')"
    unfolding EnumerateVports_def
    by (rule ovs_dump_result [OF vport_dump.dump_handler_axioms assms(3-7) [unfolded s_def q_def]])
  with fold_vp_entries [OF assms(8), of "[]"] show ?thesis by simp
qed

lemma demo_vport_says: "vp_says demo_datapath (demo_vport_msg OVS_VPORT_CMD_GET 3 demo_vxlan) 3 (Some demo_vxlan)"
  unfolding vp_says_def using demo_vport_msg_ok [of OVS_VPORT_CMD_GET]
  by (intro exI [of _ OVS_VPORT_CMD_GET]) (simp add: demo_datapath_def del: ovs_consts)

definition demo_portless_msg :: wmsg where
  "demo_portless_msg = (22, 2, ovs_body OVS_VPORT_CMD_GET 1 6 [Raw OVS_VPORT_ATTR_PORT_NO (enc_word 4 (4 :: u32)),
     Raw OVS_VPORT_ATTR_TYPE (enc_word 4 OVS_VPORT_TYPE_VXLAN), Raw OVS_VPORT_ATTR_NAME (string_bytes ''v4'' @ [0])])"

lemma demo_portless_says: "vp_says demo_datapath demo_portless_msg 4 None"
proof -
  let ?ts = "[Raw OVS_VPORT_ATTR_PORT_NO (enc_word 4 (4 :: u32)),
     Raw OVS_VPORT_ATTR_TYPE (enc_word 4 OVS_VPORT_TYPE_VXLAN), Raw OVS_VPORT_ATTR_NAME (string_bytes ''v4'' @ [0])]"
  have "list_all fits ?ts" "attrs_of ?ts OVS_VPORT_ATTR_PORT_NO = Some (enc_word 4 (4 :: u32))"
    "attrs_of ?ts OVS_VPORT_ATTR_TYPE = Some (enc_word 4 OVS_VPORT_TYPE_VXLAN)"
    "attrs_of ?ts OVS_VPORT_ATTR_NAME = Some (string_bytes ''v4'' @ [0])" "attrs_of ?ts OVS_VPORT_ATTR_OPTIONS = None"
    by (simp_all add: fits_def attrs_of_def)
  then have "portless_msg demo_dpif demo_portless_msg OVS_VPORT_CMD_GET 6 4"
    unfolding portless_msg_def demo_portless_msg_def fst_conv snd_conv
    by (intro conjI exI [of _ "1 :: u8"] exI [of _ ?ts] exI [of _ OVS_VPORT_TYPE_VXLAN] exI [of _ "''v4''"])
      (simp_all add: demo_dpif_def VPORT_def del: ovs_consts)
  then show ?thesis unfolding vp_says_def by (auto simp: demo_datapath_def simp del: ovs_consts)
qed

text \<open>A dump of both in two datagrams.\<close>

definition demo_vport_dump :: "wmsg list list" where
  "demo_vport_dump = [[demo_vport_msg OVS_VPORT_CMD_GET 3 demo_vxlan, demo_portless_msg], [done_msg]]"

lemma demo_vport_dump_ok:
  "dump_of (vp_listed demo_datapath) 42 7 demo_vport_dump"
  "dump_items demo_vport_dump = [demo_vport_msg OVS_VPORT_CMD_GET 3 demo_vxlan, demo_portless_msg]"
proof -
  let ?m = "demo_vport_msg OVS_VPORT_CMD_GET 3 demo_vxlan"
  have t: "fst ?m = 22" "fst demo_portless_msg = 22" by (simp_all add: demo_vport_msg_def demo_portless_msg_def)
  then have "vp_listed demo_datapath ?m" "vp_listed demo_datapath demo_portless_msg"
    unfolding vp_listed_def t using demo_vport_says demo_portless_says
    by (auto simp: NLMSG_ERROR_def NLMSG_DONE_def simp del: ovs_consts)
  moreover have "length (dgram 42 7 [?m, demo_portless_msg]) \<le> RECV_BUF" "length (dgram 42 7 [done_msg]) \<le> RECV_BUF"
    using demo_vport_length [of 42 7]
    by (simp_all add: dgram_def align4 RECV_BUF_def done_msg_def wire_msg demo_portless_msg_def ovs_body_def del: ovs_consts)
  moreover have nd: "\<not> is_done ?m" "\<not> is_done demo_portless_msg" using t by (simp_all add: is_done_def NLMSG_DONE_def del: ovs_consts)
  ultimately show "dump_of (vp_listed demo_datapath) 42 7 demo_vport_dump"
    using done_msg_ok by (simp add: dump_of_def demo_vport_dump_def del: dgram_Cons ovs_consts)
  show "dump_items demo_vport_dump = [?m, demo_portless_msg]"
    using nd done_msg_ok by (simp add: dump_items_def demo_vport_dump_def)
qed

definition demo_vport_dump_sys :: sys where
  "demo_vport_dump_sys = idle_sys (map (\<lambda>d. Datagram (dgram 42 7 d) (NetlinkAddr 0)) demo_vport_dump)"

theorem EnumerateVports_lists_witness:
  "\<exists>w'. EnumerateVports demo_datapath demo_vport_dump_sys =
     (Ok [\<lparr>vp_ID = 3, vp_Spec = Some demo_vxlan\<rparr>, \<lparr>vp_ID = 4, vp_Spec = None\<rparr>], w')"
  using EnumerateVports_lists [of demo_vport_dump_sys demo_datapath demo_vport_dump "[]" "[(3, Some demo_vxlan), (4, None)]"]
    demo_vport_dump_ok demo_vport_says demo_portless_says
  by (simp add: demo_vport_dump_sys_def demo_datapath_def) (simp add: demo_vport_dump_def)

text \<open>
  \<^verbatim>\<open>LookupVportName\<close> always produces a name for a kernel that answers: the name in the
  reply, or, when the kernel says the vport does not exist, the index of the datapath and the
  number of the vport in decimal, separated by a colon.  Any other kernel error is returned.
\<close>

theorem LookupVportName_cases:
  fixes dp w
  defines "s \<equiv> dpif_sock (dp_dpif dp)" and "q \<equiv> nextSeqNo w + 1"
  assumes "answer (sends w) = Ok ()" "fuel w > 0"
  shows "(\<forall>m vid' spec. fst m \<noteq> NLMSG_ERROR \<longrightarrow> answers s w (fst m) (fst (snd m)) q (snd (snd m)) \<longrightarrow>
      vp_msg_ok (dp_dpif dp) m OVS_VPORT_CMD_NEW (dp_ifindex dp) vid' spec \<longrightarrow>
      fst (LookupVportName dp vid w) = Ok (spec_Name spec)) \<and>
    (\<forall>e fl rest. (e :: i32) \<noteq> 0 \<longrightarrow> answers s w NLMSG_ERROR fl q (enc_word 4 e @ rest) \<longrightarrow>
      fst (LookupVportName dp vid w) =
        (if e = - 19 then Ok (show_int (sint (dp_ifindex dp)) @ '':'' @ show_nat (unat vid))
         else Err (netlink_error e)))"
proof (intro conjI allI impI)
  fix m :: wmsg and vid' spec
  assume a: "fst m \<noteq> NLMSG_ERROR" "answers s w (fst m) (fst (snd m)) q (snd (snd m))"
    "vp_msg_ok (dp_dpif dp) m OVS_VPORT_CMD_NEW (dp_ifindex dp) vid' spec"
  have "cmd_accepted VPORT (uint OVS_VPORT_CMD_GET) OVS_VPORT_CMD_NEW"
    by (simp add: cmd_accepted_def fallback_cmd_def VPORT_def)
  from LookupVport_reply [OF assms(3,4) a(1) a(2) [unfolded s_def q_def] a(3) this]
  show "fst (LookupVportName dp vid w) = Ok (spec_Name spec)" by (simp add: LookupVportName_def del: ovs_consts)
next
  fix e :: i32 and fl rest
  assume a: "e \<noteq> 0" "answers s w NLMSG_ERROR fl q (enc_word 4 e @ rest)"
  have "netlink_error e = NetlinkError ENODEV \<longleftrightarrow> e = - 19"
    using netlink_error_inject [of e "- 19"] by (simp add: netlink_error_ENODEV)
  with LookupVport_error [OF assms(3,4) a(1) a(2) [unfolded s_def q_def]]
  show "fst (LookupVportName dp vid w) =
      (if e = - 19 then Ok (show_int (sint (dp_ifindex dp)) @ '':'' @ show_nat (unat vid)) else Err (netlink_error e))"
    by (simp add: LookupVportName_def IsNoSuchVportError_def del: ovs_consts)
qed

theorem LookupVportName_cases_witness:
  "fst (LookupVportName demo_datapath 11
     (idle_sys [Datagram (nlmsg_bytes NLMSG_ERROR 0 42 7 (enc_word 4 (- 19 :: i32))) (NetlinkAddr 0)])) = Ok ''6:11''"
proof -
  let ?w = "idle_sys [Datagram (nlmsg_bytes NLMSG_ERROR 0 42 7 (enc_word 4 (- 19 :: i32))) (NetlinkAddr 0)]"
  have "answers (dpif_sock (dp_dpif demo_datapath)) ?w NLMSG_ERROR 0 42 (enc_word 4 (- 19 :: i32) @ [])"
    unfolding answers_def by (intro exI [of _ "[]"] conjI exI) (simp, simp add: RECV_BUF_def)
  moreover have "show_int (sint (dp_ifindex demo_datapath)) @ '':'' @ show_nat (unat (11 :: u32)) = ''6:11''"
    by (simp add: demo_datapath_def) code_simp
  ultimately show ?thesis
    using LookupVportName_cases [of ?w demo_datapath 11, THEN conjunct2, rule_format, of "- 19" 0 "[]"]
    by (simp del: ovs_consts)
qed

text \<open>
  An event subscription on a datapath delivers its events and no others.  A
  creation or deletion reported for another datapath leaves the consumer alone; with a
  negative index (the subscription of a \<^verbatim>\<open>Dpif\<close>) the events of every datapath are delivered.
\<close>

theorem vport_events_filtered:
  assumes "vp_msg_ok dpif m c ifindex' vid spec" "4 dvd length pre"
  shows "vport_event_handler dpif consumer ifindex \<lparr>pdata = pre @ wire seq pid m, ppos = length pre\<rparr> st =
    (if (0 \<le> sint ifindex \<and> ifindex' \<noteq> ifindex) \<or> c \<notin> {OVS_VPORT_CMD_NEW, OVS_VPORT_CMD_DEL} then (Ok (), st)
     else (if c = OVS_VPORT_CMD_NEW then VportCreated consumer else VportDeleted consumer)
       ifindex' \<lparr>vp_ID = vid, vp_Spec = Some spec\<rparr> st)"
  using vport_event_dispatch [OF assms, of consumer ifindex seq pid st] by simp

definition recorder :: "(i32 \<times> u32) list VportEventsConsumer" where
  "recorder = \<lparr>VportCreated = (\<lambda>i v (l, w). (Ok (), (l @ [(i, vp_ID v)], w))),
     VportDeleted = (\<lambda>i v (l, w). (Ok (), (filter (\<lambda>e. e \<noteq> (i, vp_ID v)) l, w))),
     vport_Error = (\<lambda>_ _ l. l)\<rparr>"

theorem vport_events_filtered_witness:
  "vport_event_handler demo_dpif recorder 5
     \<lparr>pdata = wire 0 7 (demo_vport_msg OVS_VPORT_CMD_NEW 3 demo_vxlan), ppos = 0\<rparr> ([], idle_sys []) =
     (Ok (), ([], idle_sys [])) \<and>
   vport_event_handler demo_dpif recorder (- 1)
     \<lparr>pdata = wire 0 7 (demo_vport_msg OVS_VPORT_CMD_NEW 3 demo_vxlan), ppos = 0\<rparr> ([], idle_sys []) =
     (Ok (), ([(6, 3)], idle_sys []))"
  using vport_events_filtered [OF demo_vport_msg_ok [of OVS_VPORT_CMD_NEW], of "[]" recorder 5 0 7 "([], idle_sys [])"]
    vport_events_filtered [OF demo_vport_msg_ok [of OVS_VPORT_CMD_NEW], of "[]" recorder "- 1" 0 7 "([], idle_sys [])"]
  by (simp add: recorder_def)

text \<open>
  Property C36: a VXLAN or Geneve vport reported without a port is accepted with no specification.
  The error of \<^verbatim>\<open>parseUdpVportSpec\<close> is lost in a shadowed variable, so that \<^verbatim>\<open>LookupVport\<close>
  succeeds with a nil specification and \<^verbatim>\<open>LookupVportName\<close> dereferences it.
\<close>

theorem udp_vport_without_port:
  assumes "TakeAttrs msg = Ok (attrs, q)" "GetUint32 attrs OVS_VPORT_ATTR_PORT_NO = Ok vid"
    "GetString attrs OVS_VPORT_ATTR_NAME = Ok name" "attrs OVS_VPORT_ATTR_OPTIONS = None"
    "GetUint32 attrs OVS_VPORT_ATTR_TYPE = Ok t" "t \<in> {OVS_VPORT_TYPE_VXLAN, OVS_VPORT_TYPE_GENEVE}"
  shows "parseVport msg = Ok (vid, None) \<and>
    (LookupVport dp vid w = (Ok \<lparr>vp_ID = vid, vp_Spec = None\<rparr>, w') \<longrightarrow>
      LookupVportName dp vid w = (Crash NilDereference, w'))"
  using parseVport_portless [OF assms] by (simp add: LookupVportName_def del: ovs_consts)

theorem udp_vport_without_port_witness:
  "parseVport \<lparr>pdata = enc_nlas [Raw OVS_VPORT_ATTR_PORT_NO (enc_word 4 (1 :: u32)),
      Raw OVS_VPORT_ATTR_NAME (string_bytes ''v'' @ [0]), Raw OVS_VPORT_ATTR_TYPE (enc_word 4 OVS_VPORT_TYPE_VXLAN)],
      ppos = 0\<rparr> = Ok (1, None)"
proof -
  let ?ts = "[Raw OVS_VPORT_ATTR_PORT_NO (enc_word 4 (1 :: u32)),
      Raw OVS_VPORT_ATTR_NAME (string_bytes ''v'' @ [0]), Raw OVS_VPORT_ATTR_TYPE (enc_word 4 OVS_VPORT_TYPE_VXLAN)]"
  have "map_res fst (TakeAttrs \<lparr>pdata = enc_nlas ?ts, ppos = 0\<rparr>) = Ok (attrs_of ?ts)"
    by (rule TakeAttrs_enc [of _ "[]"]) (simp_all add: fits_def)
  then obtain q where q: "TakeAttrs \<lparr>pdata = enc_nlas ?ts, ppos = 0\<rparr> = Ok (attrs_of ?ts, q)"
    by (auto simp: map_res_eq_Ok)
  have get: "attrs_of ?ts OVS_VPORT_ATTR_PORT_NO = Some (enc_word 4 (1 :: u32))"
    "attrs_of ?ts OVS_VPORT_ATTR_NAME = Some (string_bytes ''v'' @ [0])" "attrs_of ?ts OVS_VPORT_ATTR_OPTIONS = None"
    "attrs_of ?ts OVS_VPORT_ATTR_TYPE = Some (enc_word 4 OVS_VPORT_TYPE_VXLAN)"
    by (simp_all add: attrs_of_def)
  show ?thesis
    using udp_vport_without_port [OF q, of 1 "''v''" OVS_VPORT_TYPE_VXLAN] get
    by (simp add: GetString_zero del: ovs_consts) (simp add: getter_defs)
qed

end
