(* ===== verification/Flow_Ops.thy ===== *)
theory Flow_Ops
  imports Datapath
begin

text \<open>
  Model of the flow requests of \<^verbatim>\<open>odp/flow.go\<close>: \<^verbatim>\<open>CreateFlow\<close>, \<^verbatim>\<open>DeleteFlow\<close>, \<^verbatim>\<open>ClearFlow\<close> and
  \<^verbatim>\<open>EnumerateFlows\<close>.  The list arguments are the orders of the loops over the key set.
\<close>

section \<open>The requests\<close>

definition parseFlowMsg :: "DatapathHandle \<Rightarrow> NlMsgParser \<Rightarrow> int \<Rightarrow> Attrs res" where
  "parseFlowMsg dp msg cmd =
     res_bind (dp_checkNlMsgHeaders dp msg FLOW cmd) (\<lambda>msg. map_res fst (TakeAttrs msg))"

definition CreateFlow ::
    "u16 list \<Rightarrow> u16 list \<Rightarrow> DatapathHandle \<Rightarrow> FlowSpec \<Rightarrow> sys \<Rightarrow> (unit, sys) outcome" where
  "CreateFlow ordK ordM dp f w =
     and_then (ovs_call (dp_dpif dp) FLOW OVS_FLOW_CMD_NEW OVS_FLOW_VERSION (dp_ifindex dp)
       (FlowSpec_toNlAttrs ordK ordM f) w) (\<lambda>_ w. (Ok (), w))"

definition DeleteFlow ::
    "u16 list \<Rightarrow> u16 list \<Rightarrow> DatapathHandle \<Rightarrow> FlowKeys \<Rightarrow> sys \<Rightarrow> (unit, sys) outcome" where
  "DeleteFlow ordK ordM dp fks w =
     and_then (ovs_call (dp_dpif dp) FLOW OVS_FLOW_CMD_DEL OVS_FLOW_VERSION (dp_ifindex dp)
       (FlowKeys_toNlAttrs ordK ordM fks) w) (\<lambda>_ w. (Ok (), w))"

definition ClearFlow ::
    "u16 list \<Rightarrow> u16 list \<Rightarrow> DatapathHandle \<Rightarrow> FlowSpec \<Rightarrow> sys \<Rightarrow> (unit, sys) outcome" where
  "ClearFlow ordK ordM dp f w =
     and_then (ovs_call (dp_dpif dp) FLOW OVS_FLOW_CMD_SET OVS_FLOW_VERSION (dp_ifindex dp)
       (seq_gen (FlowSpec_toNlAttrs ordK ordM f) (PutEmptyAttr OVS_FLOW_ATTR_CLEAR)) w)
       (\<lambda>_ w. (Ok (), w))"

definition IsNoSuchFlowError :: "error \<Rightarrow> bool" where
  "IsNoSuchFlowError err = (err = NetlinkError ENOENT)"

definition enum_flow_handler :: "rangers \<Rightarrow> DatapathHandle \<Rightarrow> FlowInfo list handler" where
  "enum_flow_handler rng dp resp st =
     and_then (res_bind (parseFlowMsg dp resp (uint OVS_FLOW_CMD_GET)) (parseFlowInfo rng), st)
       (\<lambda>fi (res, w). (Ok (), (res @ [fi], w)))"

definition EnumerateFlows :: "rangers \<Rightarrow> DatapathHandle \<Rightarrow> sys \<Rightarrow> (FlowInfo list, sys) outcome" where
  "EnumerateFlows rng dp w =
     ovs_dump (dp_dpif dp) FLOW OVS_FLOW_CMD_GET OVS_FLOW_VERSION (dp_ifindex dp)
       (enum_flow_handler rng dp) [] w"

section \<open>What the requests send\<close>

lemma ovs_call_ack:
  assumes "attr_emitter gen ts" "answer (sends w) = Ok ()" "fuel w > 0"
    "answers (dpif_sock dpif) w u fl (nextSeqNo w + 1) body" "u \<noteq> NLMSG_ERROR"
  shows "and_then (ovs_call dpif family cmd version ifindex gen w) (\<lambda>_ w. (Ok (), w)) =
    (Ok (), exchanged (dpif_sock dpif) (fam_id (families dpif ! family)) (ovs_body cmd version ifindex ts) w)"
  using ovs_call_reply [OF assms(1-3,5,4), of family cmd version ifindex] by simp

lemma CreateFlow_sends:
  assumes "serializable (flow_keys f)" "range_order ordM (flow_keys f)"
    "answer (sends w) = Ok ()" "fuel w > 0"
    "answers (dpif_sock (dp_dpif dp)) w u fl (nextSeqNo w + 1) body" "u \<noteq> NLMSG_ERROR"
  shows "CreateFlow ordK ordM dp f w = (Ok (),
    exchanged (dpif_sock (dp_dpif dp)) (fam_id (families (dp_dpif dp) ! FLOW))
      (ovs_body OVS_FLOW_CMD_NEW OVS_FLOW_VERSION (dp_ifindex dp) (flow_trees ordK ordM f)) w)"
  unfolding CreateFlow_def using assms by (intro ovs_call_ack FlowSpec_toNlAttrs_emits)

lemma DeleteFlow_sends:
  assumes "serializable fks" "range_order ordM fks"
    "answer (sends w) = Ok ()" "fuel w > 0"
    "answers (dpif_sock (dp_dpif dp)) w u fl (nextSeqNo w + 1) body" "u \<noteq> NLMSG_ERROR"
  shows "DeleteFlow ordK ordM dp fks w = (Ok (),
    exchanged (dpif_sock (dp_dpif dp)) (fam_id (families (dp_dpif dp) ! FLOW))
      (ovs_body OVS_FLOW_CMD_DEL OVS_FLOW_VERSION (dp_ifindex dp) (key_set_trees ordK ordM fks)) w)"
  unfolding DeleteFlow_def using assms by (intro ovs_call_ack FlowKeys_toNlAttrs_emits)

lemma ClearFlow_sends:
  assumes "serializable (flow_keys f)" "range_order ordM (flow_keys f)"
    "answer (sends w) = Ok ()" "fuel w > 0"
    "answers (dpif_sock (dp_dpif dp)) w u fl (nextSeqNo w + 1) body" "u \<noteq> NLMSG_ERROR"
  shows "ClearFlow ordK ordM dp f w = (Ok (),
    exchanged (dpif_sock (dp_dpif dp)) (fam_id (families (dp_dpif dp) ! FLOW))
      (ovs_body OVS_FLOW_CMD_SET OVS_FLOW_VERSION (dp_ifindex dp)
         (flow_trees ordK ordM f @ [Raw OVS_FLOW_ATTR_CLEAR []])) w)"
  unfolding ClearFlow_def using assms
  by (intro ovs_call_ack seq_gen_emits FlowSpec_toNlAttrs_emits put_empty.attr_emitter_axioms)

text \<open>A key that cannot be encoded stops the request before anything is sent.\<close>

lemma build_msg_fails:
  assumes "\<And>m. builder_ok m \<Longrightarrow> \<exists>e. gen m = Err e"
  shows "\<exists>e. ovs_call dpif family cmd version ifindex gen w =
    (Err e, w\<lparr>heaps := (\<lambda>i. heaps w (Suc i))\<rparr>)"
proof (rule new_msg_spec [of RequestFlags "fam_id (families dpif ! family)" w])
  fix m w'
  assume m: "new_msg RequestFlags (fam_id (families dpif ! family)) w = (Ok m, w')" "builder_ok m"
    "mbytes m = draft_bytes (fam_id (families dpif ! family)) RequestFlags []"
    "w' = w\<lparr>heaps := (\<lambda>i. heaps w (Suc i))\<rparr>"
  obtain m1 where "ovs_request cmd version ifindex gen m = gen m1" "builder_ok m1"
    by (rule ovs_request_ok [OF m(2,3)])
  moreover from assms [OF this(2)] obtain e where "gen m1 = Err e" by blast
  ultimately show ?thesis using m(1,4) by (simp add: ovs_call_def build_msg_def)
qed

lemma CreateFlow_unserializable:
  assumes "range_order ordM (flow_keys f)" "flow_keys f t = Some k" "exact_unknown k"
  shows "\<exists>e. CreateFlow ordK ordM dp f w = (Err e, w\<lparr>heaps := (\<lambda>i. heaps w (Suc i))\<rparr>)"
proof -
  have "\<exists>e. FlowSpec_toNlAttrs ordK ordM f m = Err e" if "builder_ok m" for m
    using FlowKeys_toNlAttrs_fails [OF that assms, of ordK] by (auto simp: FlowSpec_toNlAttrs_def)
  then obtain e where "ovs_call (dp_dpif dp) FLOW OVS_FLOW_CMD_NEW OVS_FLOW_VERSION (dp_ifindex dp)
      (FlowSpec_toNlAttrs ordK ordM f) w = (Err e, w\<lparr>heaps := (\<lambda>i. heaps w (Suc i))\<rparr>)"
    using build_msg_fails [of "FlowSpec_toNlAttrs ordK ordM f"] by blast
  then show ?thesis by (simp add: CreateFlow_def del: ovs_consts)
qed

section \<open>Listing flows\<close>

definition flow_msg_ok :: "rangers \<Rightarrow> DatapathHandle \<Rightarrow> wmsg \<Rightarrow> FlowInfo \<Rightarrow> bool" where
  "flow_msg_ok rng dp m fi \<longleftrightarrow>
     fst m = fam_id (families (dp_dpif dp) ! FLOW) \<and>
     (\<exists>c v ts. snd (snd m) = ovs_body c v (dp_ifindex dp) ts \<and>
        cmd_accepted FLOW (uint OVS_FLOW_CMD_GET) c \<and> list_all fits ts \<and>
        parseFlowInfo rng (attrs_of ts) = Ok fi)"

lemma flow_msg:
  assumes "flow_msg_ok rng dp m fi" "4 dvd length pre"
  shows "res_bind (parseFlowMsg dp \<lparr>pdata = pre @ wire seq pid m, ppos = length pre\<rparr> (uint OVS_FLOW_CMD_GET))
    (parseFlowInfo rng) = Ok fi"
proof -
  obtain c v ts where m: "fst m = fam_id (families (dp_dpif dp) ! FLOW)"
    "snd (snd m) = ovs_body c v (dp_ifindex dp) ts" "cmd_accepted FLOW (uint OVS_FLOW_CMD_GET) c"
    "list_all fits ts" "parseFlowInfo rng (attrs_of ts) = Ok fi"
    using assms(1) by (auto simp: flow_msg_ok_def)
  have w: "wire seq pid m = nlmsg_bytes (fst m) (fst (snd m)) seq pid (ovs_body c v (dp_ifindex dp) ts)"
    using m(2) by (simp add: wire_msg)
  obtain q where "TakeAttrs \<lparr>pdata = pre @ wire seq pid m, ppos = length pre + 24\<rparr> = Ok (attrs_of ts, q)"
    by (rule TakeAttrs_msg [OF assms(2) w m(4)])
  then show ?thesis
    using checkNlMsgHeaders_msg [OF assms(2) w, of "dp_dpif dp" FLOW "uint OVS_FLOW_CMD_GET"] m
    by (simp add: parseFlowMsg_def dp_checkNlMsgHeaders_def datapathID_def)
qed

definition flow_listed :: "rangers \<Rightarrow> DatapathHandle \<Rightarrow> wmsg \<Rightarrow> bool" where
  "flow_listed rng dp m \<longleftrightarrow> fst m \<noteq> NLMSG_ERROR \<and> fst m \<noteq> NLMSG_DONE \<and> (\<exists>fi. flow_msg_ok rng dp m fi)"

definition flow_entry :: "rangers \<Rightarrow> DatapathHandle \<Rightarrow> wmsg \<Rightarrow> FlowInfo list \<Rightarrow> FlowInfo list" where
  "flow_entry rng dp m res =
     (case res_bind (parseFlowMsg dp \<lparr>pdata = wire 0 0 m, ppos = 0\<rparr> (uint OVS_FLOW_CMD_GET)) (parseFlowInfo rng) of
        Ok fi \<Rightarrow> res @ [fi] | _ \<Rightarrow> res)"

lemma flow_entry_msg: "flow_msg_ok rng dp m fi \<Longrightarrow> flow_entry rng dp m res = res @ [fi]"
  using flow_msg [of rng dp m fi "[]" 0 0] by (simp add: flow_entry_def)

interpretation flow_dump: dump_handler "enum_flow_handler rng dp" "flow_entry rng dp" "flow_listed rng dp" seq pid
  for rng dp seq pid
proof
  fix m pre s w
  assume "flow_listed rng dp m" and pre: "4 dvd length (pre :: bytes)"
  then obtain fi where m: "flow_msg_ok rng dp m fi" by (auto simp: flow_listed_def)
  show "enum_flow_handler rng dp \<lparr>pdata = pre @ wire seq pid m, ppos = length pre\<rparr> (s, w) =
      (Ok (), (flow_entry rng dp m s, w))"
    using flow_msg [OF m pre, of seq pid] by (simp add: enum_flow_handler_def flow_entry_msg [OF m])
next
  fix m assume "flow_listed rng dp m"
  then show "fst m \<noteq> NLMSG_ERROR \<and> fst m \<noteq> NLMSG_DONE" by (simp add: flow_listed_def)
qed

text \<open>A reported flow is parsed to an equal one, with the statistics of the report if it has any.\<close>

lemma parseFlowInfo_reported:
  assumes f: "faithful_keys (flow_keys f)" "list_all action_wf (flow_actions f)"
    and rep: "reports_spec f attrs" and rng: "rangers_ok rng"
    and stats: "\<And>b. attrs OVS_FLOW_ATTR_STATS = Some b \<Longrightarrow> length b = SizeofOvsFlowStats"
    and used: "\<And>b. attrs OVS_FLOW_ATTR_USED = Some b \<Longrightarrow> length b = 8"
  obtains fi where "parseFlowInfo rng attrs = Ok fi" "flow_eq f (FlowSpec.truncate fi)"
proof -
  obtain f' where f': "parseFlowSpec rng attrs = Ok f'" "keys_eq (flow_keys f) (flow_keys f')"
    "list_all2 action_Equals (flow_actions f) (flow_actions f')"
    by (rule parseFlowSpec_reported [OF f rep rng])
  define fi where "fi = \<lparr>flow_keys = flow_keys f', flow_actions = flow_actions f', Packets = 0, Bytes = 0, Used = 0\<rparr>"
  obtain sb fi2 where fi2: "GetFixedBytes attrs OVS_FLOW_ATTR_STATS SizeofOvsFlowStats True = Ok sb"
    "(case sb of None \<Rightarrow> Ok fi
        | Some b \<Rightarrow> res_bind (ovsFlowStatsAt b 0) (\<lambda>stats. Ok (fi\<lparr>Packets := NPackets stats, Bytes := NBytes stats\<rparr>))) = Ok fi2"
    "FlowSpec.truncate fi2 = f'"
  proof (cases "attrs OVS_FLOW_ATTR_STATS")
    case None
    with that [of None fi] show thesis by (simp add: getter_defs fi_def FlowSpec.defs)
  next
    case (Some b)
    obtain st where "ovsFlowStatsAt b 0 = Ok st" using stats [OF Some] by (simp add: ovsFlowStatsAt_def peek_def)
    with that [of "Some b" "fi\<lparr>Packets := NPackets st, Bytes := NBytes st\<rparr>"] Some stats [OF Some]
    show thesis by (simp add: getter_defs fi_def FlowSpec.defs)
  qed
  obtain u h where "GetOptionalUint64 attrs OVS_FLOW_ATTR_USED = Ok (u, h)"
    using used by (cases "attrs OVS_FLOW_ATTR_USED") (auto simp: getter_defs uint64At_def peek_def)
  then have "parseFlowInfo rng attrs = Ok (if h then fi2\<lparr>Used := u\<rparr> else fi2)"
    unfolding parseFlowInfo_def f'(1) res_bind.simps Let_def fi_def [symmetric] fi2(1,2) by simp
  moreover have "FlowSpec.truncate (if h then fi2\<lparr>Used := u\<rparr> else fi2) = f'" using fi2(3) by (simp add: FlowSpec.defs)
  ultimately show thesis using that f'(2,3) by (metis flow_eq_def)
qed

section \<open>Properties\<close>

text \<open>
  A message that reports the flow \<open>f\<close>, with the command of the request or, as in the first kernels,
  that of a notification.  Keys and masks are in the form in which the kernel reports them, and
  there may be statistics, the time of the last use and attributes the library does not read.
\<close>

definition reports_flow :: "DatapathHandle \<Rightarrow> wmsg \<Rightarrow> FlowSpec \<Rightarrow> bool" where
  "reports_flow dp m f \<longleftrightarrow>
     fst m = fam_id (families (dp_dpif dp) ! FLOW) \<and>
     (\<exists>c v ts. (c = OVS_FLOW_CMD_GET \<or> c = OVS_FLOW_CMD_NEW) \<and>
        snd (snd m) = ovs_body c v (dp_ifindex dp) ts \<and> list_all fits ts \<and>
        reports_spec f (attrs_of ts) \<and>
        (\<forall>b. attrs_of ts OVS_FLOW_ATTR_STATS = Some b \<longrightarrow> length b = SizeofOvsFlowStats) \<and>
        (\<forall>b. attrs_of ts OVS_FLOW_ATTR_USED = Some b \<longrightarrow> length b = 8))"

text \<open>The flows that compare equal to what is read back.\<close>

definition faithful_flow :: "FlowSpec \<Rightarrow> bool" where
  "faithful_flow f \<longleftrightarrow> flow_wf f \<and> comparable_keys (flow_keys f) \<and>
     flow_keys f OVS_KEY_ATTR_ETHERNET \<noteq> None \<and> (\<forall>k \<in> ran (flow_keys f). fk_norm k = k)"

lemma faithful_flowD:
  "faithful_flow f \<Longrightarrow> faithful_keys (flow_keys f)" "faithful_flow f \<Longrightarrow> serializable (flow_keys f)"
  "faithful_flow f \<Longrightarrow> list_all action_wf (flow_actions f)"
  by (simp_all add: faithful_flow_def faithful_keys_def flow_wf_def)

text \<open>The message that creates a flow reports it, once its command is taken for a notification.\<close>

lemma created_reports_flow:
  assumes "faithful_flow f" "range_order ordK (flow_keys f)" "range_order ordM (flow_keys f)"
    "list_all fits (flow_trees ordK ordM f)"
  shows "reports_flow dp (fam_id (families (dp_dpif dp) ! FLOW), fl,
    ovs_body OVS_FLOW_CMD_NEW v (dp_ifindex dp) (flow_trees ordK ordM f)) f"
proof -
  have "attrs_of (flow_trees ordK ordM f) OVS_FLOW_ATTR_STATS = None"
    "attrs_of (flow_trees ordK ordM f) OVS_FLOW_ATTR_USED = None"
    by (simp_all add: flow_trees_def key_set_trees_def attrs_of_def)
  then show ?thesis
    unfolding reports_flow_def
    by (intro conjI exI [of _ OVS_FLOW_CMD_NEW] exI [of _ v] exI [of _ "flow_trees ordK ordM f"])
      (use assms(4) created_reports_spec [OF faithful_flowD [OF assms(1)] assms(2-4)] in simp_all)
qed

lemma reported_flow_equal:
  assumes "reports_flow dp m f" "faithful_flow f" "rangers_ok rng"
  obtains fi where "flow_msg_ok rng dp m fi" "flow_eq f (FlowSpec.truncate fi)"
proof -
  obtain c v ts where m: "fst m = fam_id (families (dp_dpif dp) ! FLOW)"
    "c = OVS_FLOW_CMD_GET \<or> c = OVS_FLOW_CMD_NEW" "snd (snd m) = ovs_body c v (dp_ifindex dp) ts"
    "list_all fits ts" "reports_spec f (attrs_of ts)"
    "\<And>b. attrs_of ts OVS_FLOW_ATTR_STATS = Some b \<Longrightarrow> length b = SizeofOvsFlowStats"
    "\<And>b. attrs_of ts OVS_FLOW_ATTR_USED = Some b \<Longrightarrow> length b = 8"
    using assms(1) unfolding reports_flow_def by blast
  obtain fi where fi: "parseFlowInfo rng (attrs_of ts) = Ok fi" "flow_eq f (FlowSpec.truncate fi)"
    by (rule parseFlowInfo_reported [OF faithful_flowD(1,3) [OF assms(2)] m(5) assms(3) m(6,7)])
  have "cmd_accepted FLOW (uint OVS_FLOW_CMD_GET) c"
    using m(2) by (auto simp: cmd_accepted_def fallback_cmd_def FLOW_def)
  then have "flow_msg_ok rng dp m fi" unfolding flow_msg_ok_def using m(1,3,4) fi(1) by blast
  with that fi(2) show thesis by blast
qed

lemma flow_entries_equal:
  assumes "list_all2 (reports_flow dp) ms gs" "list_all faithful_flow gs" "rangers_ok rng"
  shows "\<exists>fis. fold (flow_entry rng dp) ms res = res @ fis \<and>
    list_all2 (\<lambda>f fi. flow_eq f (FlowSpec.truncate fi)) gs fis"
  using assms(1,2)
proof (induction ms gs arbitrary: res rule: list_all2_induct)
  case (Cons m ms g gs)
  obtain fi where fi: "flow_msg_ok rng dp m fi" "flow_eq g (FlowSpec.truncate fi)"
    using Cons.prems by (auto intro: reported_flow_equal [OF Cons.hyps(1) _ assms(3)])
  obtain fis where "fold (flow_entry rng dp) ms (res @ [fi]) = (res @ [fi]) @ fis"
    "list_all2 (\<lambda>f fi. flow_eq f (FlowSpec.truncate fi)) gs fis"
    using Cons.IH [of "res @ [fi]"] Cons.prems by auto
  then show ?case using fi by (intro exI [of _ "fi # fis"]) (simp add: flow_entry_msg)
qed simp

text \<open>A flow that was read equals the created one, in whatever orders their maps are compared.\<close>

definition reads_as :: "FlowSpec \<Rightarrow> FlowInfo \<Rightarrow> bool" where
  "reads_as f fi \<longleftrightarrow> (\<forall>oa ob. range_order oa (flow_keys f) \<longrightarrow> range_order ob (flow_keys fi) \<longrightarrow>
     FlowSpec_Equals oa ob f (FlowSpec.truncate fi))"

lemma flow_eq_reads: "flow_eq f (FlowSpec.truncate fi) \<Longrightarrow> reads_as f fi"
  unfolding reads_as_def
  using FlowSpec_Equals_iff [of _ f _ "FlowSpec.truncate fi"] by (simp add: flow_eq_def FlowSpec.defs)

text \<open>
  Property C2: flows that were created come back from \<^verbatim>\<open>EnumerateFlows\<close>.  When the dump, over any
  number of datagrams, reports created flows, be it with the attributes they were created with or in
  the form \<open>reports_flow\<close> allows the kernel, the result lists one flow per report, in order, each equal
  to the created one by \<^verbatim>\<open>FlowSpec.Equals\<close>, whatever the iteration orders of any of the maps
  involved.
\<close>

theorem EnumerateFlows_returns_created:
  fixes dp w
  defines "s \<equiv> dpif_sock (dp_dpif dp)" and "q \<equiv> nextSeqNo w + 1"
  assumes "answer (sends w) = Ok ()" "dump_of (flow_listed rng dp) q (PortId s w) ds"
    "inbox_of s w = map (\<lambda>d. Datagram (dgram q (PortId s w) d) (NetlinkAddr 0)) ds @ as"
    "\<forall>d \<in> set ds. length d \<le> fuel w" "length ds \<le> fuel w"
    "list_all2 (reports_flow dp) (dump_items ds) fs" "list_all faithful_flow fs" "rangers_ok rng"
  shows "\<exists>fis w'. EnumerateFlows rng dp w = (Ok fis, w') \<and>
    list_all2 (\<lambda>f fi. \<forall>oa ob. range_order oa (flow_keys f) \<longrightarrow> range_order ob (flow_keys fi) \<longrightarrow>
      FlowSpec_Equals oa ob f (FlowSpec.truncate fi)) fs fis"
proof -
  obtain w' where w': "EnumerateFlows rng dp w = (Ok (fold (flow_entry rng dp) (dump_items ds) []), w')"
    unfolding EnumerateFlows_def
    by (rule ovs_dump_result [OF flow_dump.dump_handler_axioms assms(3-7) [unfolded s_def q_def]])
  obtain fis where fis: "fold (flow_entry rng dp) (dump_items ds) [] = fis"
    "list_all2 (\<lambda>f fi. flow_eq f (FlowSpec.truncate fi)) fs fis"
    using flow_entries_equal [OF assms(8-10), of "[]"] by auto
  have "list_all2 reads_as fs fis" using fis(2) flow_eq_reads by (rule list_all2_mono)
  with w' fis(1) show ?thesis unfolding reads_as_def by blast
qed

definition demo_dp :: DatapathHandle where
  "demo_dp = \<lparr>dp_dpif = demo_dpif, dp_ifindex = 6\<rparr>"

definition demo_rng :: rangers where
  "demo_rng = \<lparr>rngK = ascending, rngM = ascending, rngS = ascending\<rparr>"

definition demo_flow :: FlowSpec where
  "demo_flow = AddAction (NewOutputAction 1) (AddKey (FK_Ethernet NewEthernetFlowKey) NewFlowSpec)"

definition demo_flow_trees :: "nla list" where
  "demo_flow_trees = flow_trees [OVS_KEY_ATTR_ETHERNET] [OVS_KEY_ATTR_ETHERNET] demo_flow"

definition demo_flow_msg :: wmsg where
  "demo_flow_msg = (23, 2, ovs_body OVS_FLOW_CMD_NEW 1 6 demo_flow_trees)"

lemma demo_flow_sel:
  "flow_keys demo_flow = [OVS_KEY_ATTR_ETHERNET \<mapsto> FK_Ethernet NewEthernetFlowKey]"
  "flow_actions demo_flow = [OutputAction 1]"
  by (simp_all add: demo_flow_def AddAction_def AddKey_def NewFlowSpec_def FlowKeys_Add_def NewOutputAction_def
      NewEthernetFlowKey_def NewBlobFlowKey_def Let_def)

lemma demo_flow_trees:
  "demo_flow_trees =
     [Nested OVS_FLOW_ATTR_KEY [Raw OVS_KEY_ATTR_ETHERNET (replicate 12 0)],
      Nested OVS_FLOW_ATTR_MASK [Raw OVS_KEY_ATTR_ETHERNET (replicate 12 0xff)],
      Nested OVS_FLOW_ATTR_ACTIONS [Raw OVS_ACTION_ATTR_OUTPUT (enc_word 4 (1 :: u32))]]"
  by (simp add: demo_flow_trees_def flow_trees_def key_set_trees_def key_trees_def mask_trees_def sent_list_def
      active_def defaultEthernetFlowKey_def demo_flow_sel NewEthernetFlowKey_def NewBlobFlowKey_def blob_key_def
      blob_mask_def Let_def List.map_filter_def map_replicate_const
      del: ovs_consts) simp

lemma demo_flow_ok: "faithful_flow demo_flow"
  by (auto simp: faithful_flow_def flow_wf_def keys_wf_def serializable_def comparable_keys_def demo_flow_sel
      NewEthernetFlowKey_def NewBlobFlowKey_def Let_def blob_wf_def split: if_splits)

lemma demo_flow_msg_ok: "reports_flow demo_dp demo_flow_msg demo_flow"
proof -
  have "list_all fits (flow_trees [OVS_KEY_ATTR_ETHERNET] [OVS_KEY_ATTR_ETHERNET] demo_flow)"
    unfolding demo_flow_trees_def [symmetric] demo_flow_trees by (simp add: fits_def align4)
  from created_reports_flow [OF demo_flow_ok _ _ this, of demo_dp 2 1]
  show ?thesis
    by (simp add: range_order_def demo_flow_sel demo_flow_msg_def demo_flow_trees_def demo_dp_def demo_dpif_def FLOW_def
        del: ovs_consts)
qed

text \<open>
  The same flow as a later kernel reports it: an in-port that is not matched has a mask with the upper
  16 bits set, and there are statistics.
\<close>

definition demo_report_keys :: "nla list" where
  "demo_report_keys = [Raw OVS_KEY_ATTR_IN_PORT (enc_word 4 (9 :: u32)), Raw OVS_KEY_ATTR_ETHERNET (replicate 12 0)]"

definition demo_report_masks :: "nla list" where
  "demo_report_masks =
     [Raw OVS_KEY_ATTR_IN_PORT (enc_word 4 (0xffff0000 :: u32)), Raw OVS_KEY_ATTR_ETHERNET (replicate 12 0xff)]"

definition demo_report_trees :: "nla list" where
  "demo_report_trees =
     [Nested OVS_FLOW_ATTR_KEY demo_report_keys, Nested OVS_FLOW_ATTR_MASK demo_report_masks,
      Raw OVS_FLOW_ATTR_STATS (replicate 16 3),
      Nested OVS_FLOW_ATTR_ACTIONS [Raw OVS_ACTION_ATTR_OUTPUT (enc_word 4 (1 :: u32))]]"

definition demo_report_msg :: wmsg where
  "demo_report_msg = (23, 2, ovs_body OVS_FLOW_CMD_GET 1 6 demo_report_trees)"

lemma demo_report_keys_ok:
  "reports_keys (flow_keys demo_flow) (attrs_of demo_report_keys) (attrs_of demo_report_masks)"
  unfolding reports_keys_def
proof
  fix t
  have eth: "blob_mask NewEthernetFlowKey = replicate 12 0xff" "blob_key NewEthernetFlowKey = replicate 12 0"
    by (simp_all add: NewEthernetFlowKey_def NewBlobFlowKey_def blob_mask_def blob_key_def map_replicate_const Let_def)
  show "case sent_key (flow_keys demo_flow) t of
      Some k \<Rightarrow> reported_as k (attrs_of demo_report_keys t) (attrs_of demo_report_masks t)
    | None \<Rightarrow> wildcarded t (attrs_of demo_report_keys t) (attrs_of demo_report_masks t)"
    using eth by (auto simp: enc_word_def demo_flow_sel sent_key_def demo_report_keys_def demo_report_masks_def attrs_of_def
      wildcarded_def field_size_def)
qed

lemma demo_report_msg_ok: "reports_flow demo_dp demo_report_msg demo_flow"
proof -
  have "list_all fits demo_report_keys" "list_all fits demo_report_masks" "list_all fits demo_report_trees"
    by (simp_all add: demo_report_trees_def demo_report_keys_def demo_report_masks_def fits_def align4)
  moreover have "reports_spec demo_flow (attrs_of demo_report_trees)"
    unfolding reports_spec_def
    by (intro exI [of _ demo_report_keys] exI [of _ demo_report_masks] exI [of _ "[Raw OVS_ACTION_ATTR_OUTPUT (enc_word 4 (1 :: u32))]"])
      (use demo_report_keys_ok calculation(1,2) in \<open>simp add: demo_report_trees_def attrs_of_def demo_flow_sel fits_def\<close>)
  ultimately show ?thesis unfolding reports_flow_def
    by (intro conjI exI [of _ OVS_FLOW_CMD_GET] exI [of _ 1] exI [of _ demo_report_trees])
      (simp_all add: demo_report_msg_def demo_dp_def demo_dpif_def FLOW_def, simp_all add: demo_report_trees_def attrs_of_def)
qed

lemma demo_report_msg_length: "length (wire q p demo_report_msg) = 112" "fst demo_report_msg = 23"
  by (simp_all add: wire_msg demo_report_msg_def ovs_body_def demo_report_trees_def demo_report_keys_def
      demo_report_masks_def align4)

theorem EnumerateFlows_returns_created_witness:
  "\<exists>fis w'. EnumerateFlows demo_rng demo_dp
      (idle_sys [Datagram (dgram 42 7 [demo_flow_msg, demo_report_msg, done_msg]) (NetlinkAddr 0)]) = (Ok fis, w') \<and>
    list_all2 (\<lambda>f fi. \<forall>oa ob. range_order oa (flow_keys f) \<longrightarrow> range_order ob (flow_keys fi) \<longrightarrow>
      FlowSpec_Equals oa ob f (FlowSpec.truncate fi)) [demo_flow, demo_flow] fis"
proof -
  let ?ms = "[demo_flow_msg, demo_report_msg, done_msg]"
  have rng: "rangers_ok demo_rng" using ascending_ok by (simp add: rangers_ok_def demo_rng_def)
  have "flow_listed demo_rng demo_dp m" if "reports_flow demo_dp m demo_flow" "fst m = 23" for m
    using reported_flow_equal [OF that(1) demo_flow_ok rng] that(2) unfolding flow_listed_def
    by (auto simp: NLMSG_ERROR_def NLMSG_DONE_def)
  from this [OF demo_flow_msg_ok] this [OF demo_report_msg_ok]
  have "flow_listed demo_rng demo_dp demo_flow_msg" "flow_listed demo_rng demo_dp demo_report_msg"
    using demo_report_msg_length(2) by (simp_all add: demo_flow_msg_def)
  moreover have "length (dgram 42 7 ?ms) \<le> RECV_BUF"
    using demo_report_msg_length(1) [of 42 7]
    by (simp add: demo_flow_msg_def done_msg_def ovs_body_def demo_flow_trees align4 RECV_BUF_def)
  ultimately have "dump_of (flow_listed demo_rng demo_dp) 42 7 [?ms]"
    using done_msg_ok by (simp add: dump_of_def)
  moreover have "dump_items [?ms] = [demo_flow_msg, demo_report_msg]"
    using done_msg_ok demo_report_msg_length(2)
    by (simp add: dump_items_def) (simp add: is_done_def demo_flow_msg_def NLMSG_DONE_def)
  ultimately show ?thesis
    by (intro EnumerateFlows_returns_created [where ds = "[?ms]" and as = "[]"])
      (use rng demo_flow_ok demo_flow_msg_ok demo_report_msg_ok in \<open>simp_all del: ovs_consts dgram_Cons\<close>)
qed

text \<open>
  Property C15: \<^verbatim>\<open>CreateFlow\<close> sends all of a flow or nothing.  With keys that can be encoded, one
  message is sent, which carries the keys that are not ignored, their masks and the actions in
  order, and one is received.  With a key of unknown type that demands an exact match, an
  error is returned and no system call is made.
\<close>

theorem CreateFlow_all_or_nothing:
  fixes dp w
  defines "s \<equiv> dpif_sock (dp_dpif dp)" and "fd \<equiv> sock_fd (sockets w (dpif_sock (dp_dpif dp)))"
  assumes "range_order ordM (flow_keys f)"
  shows "(\<not> serializable (flow_keys f) \<longrightarrow>
      (\<exists>e w'. CreateFlow ordK ordM dp f w = (Err e, w') \<and> trace w' = trace w)) \<and>
    (serializable (flow_keys f) \<longrightarrow> answer (sends w) = Ok () \<longrightarrow> fuel w > 0 \<longrightarrow> u \<noteq> NLMSG_ERROR \<longrightarrow>
      answers s w u fl (nextSeqNo w + 1) body \<longrightarrow>
      (\<exists>w'. CreateFlow ordK ordM dp f w = (Ok (), w') \<and>
        trace w' = trace w @
          [SysSendto fd (nlmsg_bytes (fam_id (families (dp_dpif dp) ! FLOW)) RequestFlags (nextSeqNo w + 1) 0
             (ovs_body OVS_FLOW_CMD_NEW OVS_FLOW_VERSION (dp_ifindex dp) (flow_trees ordK ordM f))),
           SysRecvfrom fd]))"
proof (intro conjI impI)
  assume "\<not> serializable (flow_keys f)"
  then obtain t k where "flow_keys f t = Some k" "exact_unknown k" by (auto simp: serializable_def)
  from CreateFlow_unserializable [OF assms(3) this, of ordK dp w]
  show "\<exists>e w'. CreateFlow ordK ordM dp f w = (Err e, w') \<and> trace w' = trace w" by auto
next
  assume a: "serializable (flow_keys f)" "answer (sends w) = Ok ()" "fuel w > 0" "u \<noteq> NLMSG_ERROR"
    "answers s w u fl (nextSeqNo w + 1) body"
  show "\<exists>w'. CreateFlow ordK ordM dp f w = (Ok (), w') \<and>
        trace w' = trace w @
          [SysSendto fd (nlmsg_bytes (fam_id (families (dp_dpif dp) ! FLOW)) RequestFlags (nextSeqNo w + 1) 0
             (ovs_body OVS_FLOW_CMD_NEW OVS_FLOW_VERSION (dp_ifindex dp) (flow_trees ordK ordM f))),
           SysRecvfrom fd]"
    using CreateFlow_sends [OF a(1) assms(3) a(2,3) a(5) [unfolded s_def] a(4), of ordK]
    by (simp add: fd_def exchanged_def sent_state_def recvd_state_def log_def Let_def del: ovs_consts)
qed

theorem CreateFlow_all_or_nothing_witness:
  "\<exists>w'. CreateFlow [OVS_KEY_ATTR_ETHERNET] [OVS_KEY_ATTR_ETHERNET] demo_dp demo_flow
     (idle_sys [Datagram (wire 42 7 demo_flow_msg) (NetlinkAddr 0)]) = (Ok (), w') \<and> length (trace w') = 2"
proof -
  let ?w = "idle_sys [Datagram (wire 42 7 demo_flow_msg) (NetlinkAddr 0)]"
  have "serializable (flow_keys demo_flow)" using demo_flow_ok by (simp add: faithful_flow_def flow_wf_def)
  moreover have "range_order [OVS_KEY_ATTR_ETHERNET] (flow_keys demo_flow)"
    by (simp add: range_order_def demo_flow_sel)
  moreover have "answers 0 ?w 23 2 42 (ovs_body OVS_FLOW_CMD_NEW 1 6 demo_flow_trees)"
    unfolding answers_def
    by (intro exI [of _ "[]"] conjI exI)
      (simp add: wire_msg demo_flow_msg_def, simp add: ovs_body_def demo_flow_trees align4 RECV_BUF_def)
  moreover have "dpif_sock (dp_dpif demo_dp) = 0" "trace ?w = []"
    by (simp_all add: demo_dp_def demo_dpif_def idle_sys_def)
  ultimately show ?thesis
    using CreateFlow_all_or_nothing [of "[OVS_KEY_ATTR_ETHERNET]" demo_flow "[OVS_KEY_ATTR_ETHERNET]" demo_dp ?w 23 2
        "ovs_body OVS_FLOW_CMD_NEW 1 6 demo_flow_trees"]
    by (auto simp: NLMSG_ERROR_def simp del: ovs_consts)
qed

text \<open>
  Property C35: a stale reply is taken for success.  When the first message in the socket answers
  an earlier request (another sequence number), \<^verbatim>\<open>CreateFlow\<close> and \<^verbatim>\<open>DeleteFlow\<close> report success
  even if that message is a kernel error, and the reply to the request itself stays unread.
\<close>

theorem stale_reply_is_success:
  assumes "serializable (flow_keys f)" "range_order ordM (flow_keys f)"
    "answer (sends w) = Ok ()" "fuel w > 0" "q \<noteq> nextSeqNo w + 1"
    "answers (dpif_sock (dp_dpif dp)) w u fl q body"
  shows "fst (CreateFlow ordK ordM dp f w) = Ok () \<and> fst (DeleteFlow ordK ordM dp (flow_keys f) w) = Ok ()"
  using ovs_call_stale [OF FlowSpec_toNlAttrs_emits [OF assms(2,1)] assms(3-), of FLOW OVS_FLOW_CMD_NEW OVS_FLOW_VERSION
      "dp_ifindex dp" ordK]
    ovs_call_stale [OF FlowKeys_toNlAttrs_emits [OF assms(2,1)] assms(3-), of FLOW OVS_FLOW_CMD_DEL OVS_FLOW_VERSION
      "dp_ifindex dp" ordK]
  by (simp add: CreateFlow_def DeleteFlow_def del: ovs_consts)

theorem stale_reply_is_success_witness:
  "fst (CreateFlow [OVS_KEY_ATTR_ETHERNET] [OVS_KEY_ATTR_ETHERNET] demo_dp demo_flow
     (idle_sys [Datagram (nlmsg_bytes NLMSG_ERROR 0 41 7 (enc_word 4 (- 17 :: i32))) (NetlinkAddr 0)])) = Ok ()"
proof -
  let ?w = "idle_sys [Datagram (nlmsg_bytes NLMSG_ERROR 0 41 7 (enc_word 4 (- 17 :: i32))) (NetlinkAddr 0)]"
  have "serializable (flow_keys demo_flow)" using demo_flow_ok by (simp add: faithful_flow_def flow_wf_def)
  moreover have "range_order [OVS_KEY_ATTR_ETHERNET] (flow_keys demo_flow)"
    by (simp add: range_order_def demo_flow_sel)
  moreover have "answers (dpif_sock (dp_dpif demo_dp)) ?w NLMSG_ERROR 0 41 (enc_word 4 (- 17 :: i32))"
    unfolding answers_def by (intro exI [of _ "[]"] conjI exI) (simp, simp add: RECV_BUF_def)
  ultimately show ?thesis
    using stale_reply_is_success [of demo_flow "[OVS_KEY_ATTR_ETHERNET]" ?w 41 demo_dp NLMSG_ERROR 0
        "enc_word 4 (- 17 :: i32)" "[OVS_KEY_ATTR_ETHERNET]"]
    by (simp del: ovs_consts)
qed

end
