(* ===== verification/Packet.thy ===== *)
theory Packet
  imports Vport Flow_Ops
begin

text \<open>
  Model of \<^verbatim>\<open>odp/packet.go\<close>: consuming misses, executing packets, and the consumer of vport
  events that directs the upcalls of every vport to the miss socket.
\<close>

section \<open>The vport consumer of a miss session\<close>

text \<open>
  \<open>vportsDone\<close> is guarded by a mutex held during the whole of \<^verbatim>\<open>setVportUpcallPortId\<close>, the
  request included; each operation below is therefore one atomic step of its thread.
\<close>

record missVportConsumer =
  mv_dp :: DatapathHandle
  upcallPortId :: u32
  vportsDone :: "u32 set"

definition mv_setVportUpcallPortId ::
    "u32 \<Rightarrow> missVportConsumer \<times> sys \<Rightarrow> (unit, missVportConsumer \<times> sys) outcome" where
  "mv_setVportUpcallPortId vport st =
     (case st of (c, w) \<Rightarrow>
        if vport \<in> vportsDone c then (Ok (), (c, w))
        else (case setVportUpcallPortId (mv_dp c) vport (upcallPortId c) w of
            (Ok _, w) \<Rightarrow> (Ok (), (c\<lparr>vportsDone := insert vport (vportsDone c)\<rparr>, w))
          | (Err e, w) \<Rightarrow> (Err e, (c, w))
          | (Crash x, w) \<Rightarrow> (Crash x, (c, w))
          | (Blocked b, w) \<Rightarrow> (Blocked b, (c, w))))"

definition mv_VportDeleted :: "u32 \<Rightarrow> missVportConsumer \<Rightarrow> missVportConsumer" where
  "mv_VportDeleted vport c = c\<lparr>vportsDone := vportsDone c - {vport}\<rparr>"

text \<open>
  As a consumer of vport events.  The second component of the state is what the miss consumer
  supplied by the caller keeps; its \<^verbatim>\<open>Error\<close> method is a parameter.
\<close>

definition mv_consumer ::
    "(error \<Rightarrow> bool \<Rightarrow> 'm \<Rightarrow> 'm) \<Rightarrow> (missVportConsumer \<times> 'm) VportEventsConsumer" where
  "mv_consumer on_error =
     \<lparr>VportCreated = (\<lambda>dpid vport ((c, u), w).
        case mv_setVportUpcallPortId (vp_ID vport) (c, w) of (r, (c, w)) \<Rightarrow> (r, ((c, u), w))),
      VportDeleted = (\<lambda>dpid vport ((c, u), w). (Ok (), ((mv_VportDeleted (vp_ID vport) c, u), w))),
      vport_Error = (\<lambda>err stopped (c, u). (c, on_error err stopped u))\<rparr>"

section \<open>Starting a session\<close>

fun set_upcalls ::
    "Vport list \<Rightarrow> missVportConsumer \<times> sys \<Rightarrow> (unit, missVportConsumer \<times> sys) outcome" where
  "set_upcalls [] st = (Ok (), st)"
| "set_upcalls (v # vs) st =
     and_then (mv_setVportUpcallPortId (vp_ID v) st) (\<lambda>_ st. set_upcalls vs st)"

record miss_session =
  ms_miss :: DatapathHandle
  ms_consumer :: missVportConsumer
  ms_cancel :: Dpif

text \<open>Run the cleanups when the outcome is an error.\<close>

definition on_err :: "(sys \<Rightarrow> sys) \<Rightarrow> ('a, sys) outcome \<Rightarrow> ('a, sys) outcome" where
  "on_err cleanup r = (case r of (Err e, w) \<Rightarrow> (Err e, cleanup w) | _ \<Rightarrow> r)"

definition close_dp :: "DatapathHandle \<Rightarrow> sys \<Rightarrow> sys" where
  "close_dp dp w = snd (Dpif_Close (dp_dpif dp) w)"

definition ConsumeMisses :: "DatapathHandle \<Rightarrow> sys \<Rightarrow> (miss_session, sys) outcome" where
  "ConsumeMisses origDP w =
     and_then (dp_Reopen origDP w) (\<lambda>dp w.
     on_err (close_dp dp) (and_then (dp_Reopen origDP w) (\<lambda>missDP w.
     on_err (close_dp missDP)
       (let c = \<lparr>mv_dp = dp, upcallPortId = PortId (dpif_sock (dp_dpif missDP)) w, vportsDone = {}\<rparr> in
        and_then (ConsumeVportEvents origDP w) (\<lambda>vportCancel w.
        on_err (\<lambda>w. snd (Cancel vportCancel w)) (and_then (EnumerateVports origDP w) (\<lambda>vports w.
          case set_upcalls vports (c, w) of
            (Ok _, (c, w)) \<Rightarrow> (Ok \<lparr>ms_miss = missDP, ms_consumer = c, ms_cancel = vportCancel\<rparr>, w)
          | (Err e, (c, w)) \<Rightarrow> (Err e, w)
          | (Crash x, (c, w)) \<Rightarrow> (Crash x, w)
          | (Blocked b, (c, w)) \<Rightarrow> (Blocked b, w))))))))"

section \<open>Consuming misses\<close>

text \<open>The caller's methods \<^verbatim>\<open>Miss\<close> and \<^verbatim>\<open>Error\<close> are parameters.\<close>

record 'm MissConsumer =
  Miss :: "bytes option \<Rightarrow> FlowKeys \<Rightarrow> 'm \<times> sys \<Rightarrow> (unit, 'm \<times> sys) outcome"
  miss_Error :: "error \<Rightarrow> bool \<Rightarrow> 'm \<Rightarrow> 'm"

definition miss_handler :: "ranger \<Rightarrow> DatapathHandle \<Rightarrow> 'm MissConsumer \<Rightarrow> 'm handler" where
  "miss_handler rng dp consumer msg st =
     and_then (dp_checkNlMsgHeaders dp msg PACKET (uint OVS_PACKET_CMD_MISS), st) (\<lambda>msg st.
     and_then (TakeAttrs msg, st) (\<lambda>(attrs, _) st.
     and_then (GetNestedAttrs attrs OVS_PACKET_ATTR_KEY False, st) (\<lambda>fkattrs st.
     let fk = (case fkattrs of None \<Rightarrow> Map.empty | Some a \<Rightarrow> a) in
     and_then (ParseFlowKeys (rng fk) [] fk None, st) (\<lambda>fks st.
     Miss consumer (attrs OVS_PACKET_ATTR_PACKET) fks st))))"

text \<open>When the miss socket stops, the vport socket and the general socket are closed.\<close>

definition consumeMisses ::
    "ranger \<Rightarrow> 'm MissConsumer \<Rightarrow> miss_session \<Rightarrow> 'm \<times> sys \<Rightarrow> (unit, 'm \<times> sys) outcome" where
  "consumeMisses rng consumer ms st =
     and_then (consume (dpif_sock (dp_dpif (ms_miss ms))) (miss_Error consumer)
       (miss_handler rng (ms_miss ms) consumer) st) (\<lambda>_ (u, w).
     (Ok (), (u, close_dp (mv_dp (ms_consumer ms)) (snd (Cancel (ms_cancel ms) w)))))"

section \<open>Executing a packet\<close>

text \<open>The list \<open>ord\<close> is the order of the loop over the keys; no reply is awaited.\<close>

definition Execute ::
    "u16 list \<Rightarrow> DatapathHandle \<Rightarrow> bytes \<Rightarrow> FlowKeys \<Rightarrow> Action list \<Rightarrow> sys \<Rightarrow> (unit, sys) outcome" where
  "Execute ord dp packet keys actions w =
     and_then (build_msg (dp_dpif dp) PACKET RequestFlags OVS_PACKET_CMD_EXECUTE OVS_PACKET_VERSION
       (dp_ifindex dp)
       (seq_gens [PutSliceAttr OVS_PACKET_ATTR_PACKET packet,
          PutNestedAttrs OVS_PACKET_ATTR_KEY (seq_gens (map putKeyNlAttr (List.map_filter keys ord))),
          PutNestedAttrs OVS_PACKET_ATTR_ACTIONS (seq_gens (map action_toNlAttr actions))]) w) (\<lambda>req w.
     and_then (send (dpif_sock (dp_dpif dp)) req w) (\<lambda>_ w. (Ok (), w)))"

section \<open>What the operations leave alone\<close>

lemma build_msg_state: "snd (build_msg dpif family flags cmd version ifindex gen w) =
    w\<lparr>heaps := (\<lambda>i. heaps w (Suc i))\<rparr>"
  by (cases "NewNlMsgBuilder (heaps w 0) flags (fam_id (families dpif ! family))")
    (simp_all add: build_msg_def new_msg_def)

lemma heaps_same: "same_sockets (w\<lparr>heaps := h\<rparr>) w"
  by (simp add: same_sockets_def)

lemma and_then_state:
  assumes "snd r = v" "\<And>x. fst r = Ok x \<Longrightarrow> same_sockets (snd (f x v)) w" "same_sockets v w"
  shows "same_sockets (snd (and_then r f)) w"
  using assms by (cases r; cases "fst r") auto

lemma ovs_call_same: "same_sockets (snd (ovs_call dpif family cmd version ifindex gen w)) w"
  unfolding ovs_call_def
  by (rule and_then_state [OF build_msg_state])
    (auto intro: same_sockets_trans [OF Request_same heaps_same] heaps_same)

lemma RequestMulti_same:
  assumes "\<And>msg st. snd (snd (h msg st)) = snd st"
  shows "same_sockets (snd (snd (RequestMulti s m h (u, w)))) w"
proof -
  let ?Q = "\<lambda>st. same_sockets (snd st) w"
  have c: "?Q (snd (multi_consumer port seq h msg st))" if "?Q st" for port seq msg st
    using that assms [of msg st]
    by (cases "checkResponseHeader port seq msg"; cases "get_NlMsghdr msg"; cases "h msg st"; cases "fst (h msg st)")
      (auto simp: multi_consumer_def)
  have recv: "?Q (u', snd (recv s 0 v))" if "?Q (u', v)" for u' v
    using that same_sockets_trans [OF recv_same] by simp
  obtain r v where send: "send s m w = (r, v)" by (rule prod.exhaust)
  then have v: "same_sockets v w" using send_same [of s m w] by simp
  have "?Q (snd (receive_loop s k n (multi_consumer port seq h) (u, v)))" for k n port seq
    by (rule receive_loop_inv [of ?Q]) (use c recv v in auto)
  then show ?thesis using send v by (cases r) (simp_all add: RequestMulti_def Receive_def)
qed

lemma enum_vport_handler_state: "snd (snd (enum_vport_handler dp msg st)) = snd st"
  by (cases "res_bind (dp_checkNlMsgHeaders dp msg VPORT (uint OVS_VPORT_CMD_GET)) parseVport"; cases st)
    (auto simp: enum_vport_handler_def)

lemma ovs_dump_same:
  assumes "\<And>msg st. snd (snd (h msg st)) = snd st"
  shows "same_sockets (snd (ovs_dump dpif family cmd version ifindex h res w)) w"
proof -
  let ?w = "w\<lparr>heaps := (\<lambda>i. heaps w (Suc i))\<rparr>"
  have dump: "same_sockets (snd (case RequestMulti s m h (res, ?w) of (r, (x, v)) \<Rightarrow> (map_res (\<lambda>_. x) r, v))) w" for s m
  proof -
    obtain r x v where rxv: "RequestMulti s m h (res, ?w) = (r, (x, v))" by (metis prod.exhaust)
    then have "same_sockets v ?w" using RequestMulti_same [of h s m res ?w, OF assms] by simp
    then show ?thesis using same_sockets_trans [OF _ heaps_same] rxv by simp
  qed
  show ?thesis unfolding ovs_dump_def
    by (rule and_then_state [OF build_msg_state]) (rule dump heaps_same)+
qed

lemma EnumerateVports_same: "same_sockets (snd (EnumerateVports dp w)) w"
  unfolding EnumerateVports_def by (rule ovs_dump_same [OF enum_vport_handler_state])

lemma mv_set_same: "same_sockets (snd (snd (mv_setVportUpcallPortId v (c, w)))) w"
proof -
  obtain r w1 where s: "setVportUpcallPortId (mv_dp c) v (upcallPortId c) w = (r, w1)" by (rule prod.exhaust)
  obtain q w2 where q: "ovs_call (dp_dpif (mv_dp c)) VPORT OVS_VPORT_CMD_SET OVS_VPORT_VERSION (dp_ifindex (mv_dp c))
       (seq_gens [PutUint32Attr OVS_VPORT_ATTR_PORT_NO v, PutUint32Attr OVS_VPORT_ATTR_UPCALL_PID (upcallPortId c)]) w
       = (q, w2)" by (rule prod.exhaust)
  then have "same_sockets w2 w" using ovs_call_same by (metis snd_conv)
  moreover have "w1 = w2" using s q by (cases q) (simp_all add: setVportUpcallPortId_def del: ovs_consts seq_gens.simps)
  ultimately show ?thesis using s by (cases r) (simp_all add: mv_setVportUpcallPortId_def)
qed

lemma set_upcalls_same: "same_sockets (snd (snd (set_upcalls vs (c, w)))) w"
proof (induction vs arbitrary: c w)
  case (Cons v vs)
  obtain r c1 w1 where s: "mv_setVportUpcallPortId (vp_ID v) (c, w) = (r, (c1, w1))" by (metis prod.exhaust)
  then have "same_sockets w1 w" using mv_set_same by (metis snd_conv)
  with s Cons.IH [of c1 w1] show ?case by (cases r) (auto intro: same_sockets_trans)
qed simp

section \<open>A failed session leaks no descriptor\<close>

text \<open>The sockets a session opens get fresh references, so closing one leaves the others.\<close>

lemma dp_Reopen_Ok:
  assumes "dp_Reopen dp w = (Ok d, w')" "good_fds w"
  obtains fd pid where "dpif_sock (dp_dpif d) = nsockets w" "0 \<le> fd"
    "sockets w' = (sockets w)(nsockets w := \<lparr>sock_fd = fd, sock_pid = pid\<rparr>)" "open_fds w' = fd # open_fds w"
    "nsockets w' = nsockets w + 1" "good_fds w'"
proof -
  obtain q where re: "Reopen (dp_dpif dp) w = (Ok q, w')" and d: "dp_dpif d = q"
    using assms(1) by (cases "Reopen (dp_dpif dp) w"; cases "fst (Reopen (dp_dpif dp) w)")
      (auto simp: dp_Reopen_def)
  have "good_fds w'" using re assms(2)
    by (auto simp: Reopen_def OpenNetlinkSocket_def Let_def good_fds_def
        split: list.splits sum.splits option.splits sockaddr.splits)
  moreover obtain fd pid where "dpif_sock q = nsockets w"
    "sockets w' = (sockets w)(dpif_sock q := \<lparr>sock_fd = fd, sock_pid = pid\<rparr>)" "open_fds w' = fd # open_fds w"
    "nsockets w' = nsockets w + 1" by (rule Reopen_Ok [OF re])
  moreover have "0 \<le> fd" using Reopen_good_fd [OF re assms(2)] calculation(3) by simp
  ultimately show thesis using that d by simp
qed

lemma dp_Reopen_Err:
  assumes "dp_Reopen dp w = (Err e, w')"
  shows "open_fds w' = open_fds w \<and> sockets w' = sockets w"
  using assms OpenNetlinkSocket_Err [of NETLINK_GENERIC w e w']
  by (cases "OpenNetlinkSocket NETLINK_GENERIC w"; cases "fst (OpenNetlinkSocket NETLINK_GENERIC w)")
    (auto simp: dp_Reopen_def Reopen_def)

text \<open>\<open>holds ss w\<close>: the references \<open>ss\<close> hold open descriptors, the newest first.\<close>

definition holds :: "nat list \<Rightarrow> int list \<Rightarrow> sys \<Rightarrow> bool" where
  "holds ss F w \<longleftrightarrow> distinct ss \<and> (\<forall>s \<in> set ss. s < nsockets w \<and> 0 \<le> sock_fd (sockets w s)) \<and>
     open_fds w = map (\<lambda>s. sock_fd (sockets w s)) ss @ F"

lemma holds_same: "same_sockets v w \<Longrightarrow> holds ss F v = holds ss F w"
  by (simp add: holds_def same_sockets_def)

lemma holds_close:
  assumes "holds (s # ss) F w"
  shows "holds ss F (snd (Close s w))"
proof -
  let ?w = "snd (Close s w)"
  have s: "0 \<le> sock_fd (sockets w s)" "s \<notin> set ss" using assms by (auto simp: holds_def)
  have "sockets ?w = (sockets w)(s := (sockets w s)\<lparr>sock_fd := -1\<rparr>)" "nsockets ?w = nsockets w"
    using s(1) by (auto simp: Close_def sys_close_def)
  moreover have "open_fds ?w = remove1 (sock_fd (sockets w s)) (open_fds w)" by (rule Close_open_fds(1) [OF s(1)])
  moreover have "map (\<lambda>x. sock_fd (((sockets w)(s := y)) x)) ss = map (\<lambda>x. sock_fd (sockets w x)) ss" for y
    using s(2) by auto
  ultimately show ?thesis using assms s(2) unfolding holds_def by (auto simp del: fun_upd_apply)
qed

lemma holds_reopen:
  assumes "dp_Reopen dp w = (Ok d, w')" "good_fds w" "holds ss F w"
  shows "holds (dpif_sock (dp_dpif d) # ss) F w'" "good_fds w'"
proof -
  obtain fd pid where d: "dpif_sock (dp_dpif d) = nsockets w" "0 \<le> fd"
    "sockets w' = (sockets w)(nsockets w := \<lparr>sock_fd = fd, sock_pid = pid\<rparr>)" "open_fds w' = fd # open_fds w"
    "nsockets w' = nsockets w + 1" "good_fds w'"
    by (rule dp_Reopen_Ok [OF assms(1,2)])
  have "s \<noteq> nsockets w" if "s \<in> set ss" for s using that assms(3) by (auto simp: holds_def)
  with d assms(3) show "holds (dpif_sock (dp_dpif d) # ss) F w'" "good_fds w'"
    by (auto simp: holds_def)
qed

lemma ConsumeVportEvents_Ok:
  assumes "ConsumeVportEvents dp w = (Ok d, w')" "good_fds w" "holds ss F w"
  shows "holds (dpif_sock d # ss) F w'"
proof -
  obtain g w1 where g: "getMCGroup (dp_dpif dp) VPORT ''ovs_vport'' = Ok g"
    and re: "Reopen (dp_dpif dp) w = (Ok d, w1)"
    and w': "w' = log (SysSetsockopt (sock_fd (sockets w1 (dpif_sock d))) NETLINK_ADD_MEMBERSHIP (uint g))
      (w1\<lparr>joins := tl (joins w1)\<rparr>)"
    using assms(1) by (cases "getMCGroup (dp_dpif dp) VPORT ''ovs_vport''"; cases "Reopen (dp_dpif dp) w";
        cases "fst (Reopen (dp_dpif dp) w)") (auto simp: ConsumeVportEvents_def Let_def split: res.splits)
  have "dp_Reopen dp w = (Ok \<lparr>dp_dpif = d, dp_ifindex = dp_ifindex dp\<rparr>, w1)"
    using re by (simp add: dp_Reopen_def)
  from holds_reopen(1) [OF this assms(2,3)] show ?thesis
    using w' by (simp add: holds_def)
qed

lemma ConsumeVportEvents_Err_holds:
  assumes "ConsumeVportEvents dp w = (Err e, w')" "good_fds w" "holds ss F w"
  shows "holds ss F w'"
proof (cases "getMCGroup (dp_dpif dp) VPORT ''ovs_vport''")
  case (Ok g)
  obtain r w1 where re: "Reopen (dp_dpif dp) w = (r, w1)" by (rule prod.exhaust)
  show ?thesis
  proof (cases r)
    case r: (Ok d)
    have d1: "dp_Reopen dp w = (Ok \<lparr>dp_dpif = d, dp_ifindex = dp_ifindex dp\<rparr>, w1)"
      using re r by (simp add: dp_Reopen_def)
    have "holds (dpif_sock d # ss) F w1" using holds_reopen(1) [OF d1 assms(2,3)] by simp
    then have "holds (dpif_sock d # ss) F (log (SysSetsockopt (sock_fd (sockets w1 (dpif_sock d)))
        NETLINK_ADD_MEMBERSHIP (uint g)) (w1\<lparr>joins := tl (joins w1)\<rparr>))" by (simp add: holds_def)
    from holds_close [OF this] show ?thesis using assms(1) re r Ok
      by (auto simp: ConsumeVportEvents_def Let_def Dpif_Close_def split: res.splits)
  next
    case (Err e')
    then have "dp_Reopen dp w = (Err e', w1)" "w' = w1"
      using re assms(1) Ok by (simp_all add: dp_Reopen_def ConsumeVportEvents_def)
    moreover have "nsockets w1 = nsockets w" using re Err OpenNetlinkSocket_Err [of NETLINK_GENERIC w e' w1]
      by (cases "OpenNetlinkSocket NETLINK_GENERIC w"; cases "fst (OpenNetlinkSocket NETLINK_GENERIC w)")
        (auto simp: Reopen_def)
    ultimately show ?thesis using assms(3) dp_Reopen_Err [of dp w e' w1] by (simp add: holds_def)
  qed (use assms(1) re Ok in \<open>simp_all add: ConsumeVportEvents_def\<close>)
qed (use assms(1,3) in \<open>simp_all add: ConsumeVportEvents_def\<close>)

lemma on_err_holds:
  assumes "on_err close r = (Err e, w')" "\<And>v. r = (Err e, v) \<Longrightarrow> holds (s # ss) F v"
    "\<And>v. close v = snd (Close s v)"
  shows "holds ss F w'"
  using assms holds_close by (auto simp: on_err_def split: prod.splits res.splits)

lemma set_upcalls_holds:
  assumes "(case set_upcalls vports (c, v) of
       (Ok _, (c, w)) \<Rightarrow> (Ok (mk c), w)
     | (Err e, (c, w)) \<Rightarrow> (Err e, w)
     | (Crash x, (c, w)) \<Rightarrow> (Crash x, w)
     | (Blocked b, (c, w)) \<Rightarrow> (Blocked b, w)) = (r, w')" "holds ss F v"
  shows "holds ss F w'"
proof -
  obtain q c1 v1 where s: "set_upcalls vports (c, v) = (q, (c1, v1))" by (metis prod.exhaust)
  then have "same_sockets v1 v" using set_upcalls_same by (metis snd_conv)
  moreover have "w' = v1" using assms(1) s by (cases q) auto
  ultimately show ?thesis using assms(2) holds_same by blast
qed

text \<open>The three nested stages of \<^verbatim>\<open>ConsumeMisses\<close>, innermost first.\<close>

lemma enumerate_stage:
  assumes "and_then (EnumerateVports dp v) (\<lambda>vports w.
      case set_upcalls vports (c, w) of
        (Ok _, (c, w)) \<Rightarrow> (Ok (mk c), w)
      | (Err e, (c, w)) \<Rightarrow> (Err e, w)
      | (Crash x, (c, w)) \<Rightarrow> (Crash x, w)
      | (Blocked b, (c, w)) \<Rightarrow> (Blocked b, w)) = (r, w')" "holds ss F v"
  shows "holds ss F w'"
proof -
  obtain q v1 where e: "EnumerateVports dp v = (q, v1)" by (rule prod.exhaust)
  then have "same_sockets v1 v" using EnumerateVports_same [of dp v] by simp
  then have v1: "holds ss F v1" using assms(2) holds_same by blast
  show ?thesis
  proof (cases q)
    case (Ok vports)
    then show ?thesis using assms(1) e set_upcalls_holds [OF _ v1] by simp
  qed (use assms(1) e v1 in simp_all)
qed

lemma subscribe_stage:
  assumes "and_then (ConsumeVportEvents dp v) (\<lambda>vportCancel w.
      on_err (\<lambda>w. snd (Cancel vportCancel w)) (and_then (EnumerateVports dp w) (\<lambda>vports w.
        case set_upcalls vports (c, w) of
          (Ok _, (c, w)) \<Rightarrow> (Ok (mk vportCancel c), w)
        | (Err e, (c, w)) \<Rightarrow> (Err e, w)
        | (Crash x, (c, w)) \<Rightarrow> (Crash x, w)
        | (Blocked b, (c, w)) \<Rightarrow> (Blocked b, w)))) = (Err e, w')" "good_fds v" "holds ss F v"
  shows "holds ss F w'"
proof -
  obtain q v1 where s: "ConsumeVportEvents dp v = (q, v1)" by (rule prod.exhaust)
  show ?thesis
  proof (cases q)
    case (Ok d)
    note h = ConsumeVportEvents_Ok [OF s [unfolded Ok] assms(2,3)]
    from assms(1) s Ok have "on_err (\<lambda>w. snd (Cancel d w)) (and_then (EnumerateVports dp v1) (\<lambda>vports w.
        case set_upcalls vports (c, w) of
          (Ok _, (c, w)) \<Rightarrow> (Ok (mk d c), w)
        | (Err e, (c, w)) \<Rightarrow> (Err e, w)
        | (Crash x, (c, w)) \<Rightarrow> (Crash x, w)
        | (Blocked b, (c, w)) \<Rightarrow> (Blocked b, w))) = (Err e, w')" by simp
    then show ?thesis
      by (rule on_err_holds) (auto intro: enumerate_stage [OF _ h] simp: Cancel_def Dpif_Close_def)
  next
    case (Err e')
    then show ?thesis using assms(1) s ConsumeVportEvents_Err_holds [OF _ assms(2,3)] by simp
  qed (use assms(1) s in simp_all)
qed

lemma ConsumeMisses_Err_holds:
  assumes "ConsumeMisses dp w = (Err e, w')" "good_fds w" "holds ss F w"
  shows "holds ss F w'"
proof -
  have err: "holds ss F v" if "dp_Reopen dp u = (Err e', v)" "holds ss F u" for e' u v ss
  proof -
    have "nsockets v = nsockets u" using that(1) OpenNetlinkSocket_Err [of NETLINK_GENERIC u e' v]
      by (cases "OpenNetlinkSocket NETLINK_GENERIC u"; cases "fst (OpenNetlinkSocket NETLINK_GENERIC u)")
        (auto simp: dp_Reopen_def Reopen_def)
    then show ?thesis using dp_Reopen_Err [OF that(1)] that(2) by (simp add: holds_def)
  qed
  obtain r1 w1 where d1: "dp_Reopen dp w = (r1, w1)" by (rule prod.exhaust)
  show ?thesis
  proof (cases r1)
    case (Ok d)
    note h1 = holds_reopen [OF d1 [unfolded Ok] assms(2,3)]
    note on_err = assms(1) [unfolded ConsumeMisses_def d1 Ok and_then_simps]
    show ?thesis
    proof (rule on_err_holds [OF on_err])
      fix v
      assume inner: "and_then (dp_Reopen dp w1) (\<lambda>missDP w. on_err (close_dp missDP)
       (let c = \<lparr>mv_dp = d, upcallPortId = PortId (dpif_sock (dp_dpif missDP)) w, vportsDone = {}\<rparr> in
        and_then (ConsumeVportEvents dp w) (\<lambda>vportCancel w.
        on_err (\<lambda>w. snd (Cancel vportCancel w)) (and_then (EnumerateVports dp w) (\<lambda>vports w.
          case set_upcalls vports (c, w) of
            (Ok _, (c, w)) \<Rightarrow> (Ok \<lparr>ms_miss = missDP, ms_consumer = c, ms_cancel = vportCancel\<rparr>, w)
          | (Err e, (c, w)) \<Rightarrow> (Err e, w)
          | (Crash x, (c, w)) \<Rightarrow> (Crash x, w)
          | (Blocked b, (c, w)) \<Rightarrow> (Blocked b, w)))))) = (Err e, v)"
      obtain r2 w2 where d2: "dp_Reopen dp w1 = (r2, w2)" by (rule prod.exhaust)
      show "holds (dpif_sock (dp_dpif d) # ss) F v"
      proof (cases r2)
        case r2: (Ok m)
        note h2 = holds_reopen [OF d2 [unfolded r2] h1(2,1)]
        note on_err2 = inner [unfolded d2 r2 and_then_simps Let_def]
        show ?thesis
          by (rule on_err_holds [OF on_err2])
            (auto intro: subscribe_stage [OF _ h2(2,1)] simp: close_dp_def Dpif_Close_def)
      next
        case (Err e2)
        then show ?thesis using inner d2 err [OF _ h1(1)] by simp
      qed (use inner d2 in simp_all)
    qed (simp add: close_dp_def Dpif_Close_def)
  next
    case (Err e1)
    then show ?thesis using assms(1,3) d1 err by (simp add: ConsumeMisses_def)
  qed (use assms(1) d1 in \<open>simp_all add: ConsumeMisses_def\<close>)
qed

section \<open>Executing and missing packets\<close>

definition execute_trees :: "u16 list \<Rightarrow> bytes \<Rightarrow> FlowKeys \<Rightarrow> Action list \<Rightarrow> nla list" where
  "execute_trees ord packet keys actions =
     [Raw OVS_PACKET_ATTR_PACKET packet,
      Nested OVS_PACKET_ATTR_KEY (map key_nla (List.map_filter keys ord)),
      Nested OVS_PACKET_ATTR_ACTIONS (map action_nla actions)]"

lemma execute_emits:
  "attr_emitter (seq_gens [PutSliceAttr OVS_PACKET_ATTR_PACKET packet,
      PutNestedAttrs OVS_PACKET_ATTR_KEY (seq_gens (map putKeyNlAttr (List.map_filter keys ord))),
      PutNestedAttrs OVS_PACKET_ATTR_ACTIONS (seq_gens (map action_toNlAttr actions))])
    (execute_trees ord packet keys actions)"
proof -
  have "attr_emitter (seq_gens (map putKeyNlAttr ks)) (map key_nla ks)" for ks
    using seq_gens_emits [of "map putKeyNlAttr ks" "map (\<lambda>k. [key_nla k]) ks"]
    by (simp add: list_all2_map1 list_all2_map2 list.rel_refl put_key.attr_emitter_axioms concat_map_singleton)
  then show ?thesis
    using seq_gens_emits [of "[PutSliceAttr OVS_PACKET_ATTR_PACKET packet,
      PutNestedAttrs OVS_PACKET_ATTR_KEY (seq_gens (map putKeyNlAttr (List.map_filter keys ord))),
      PutNestedAttrs OVS_PACKET_ATTR_ACTIONS (seq_gens (map action_toNlAttr actions))]"
      "map (\<lambda>a. [a]) (execute_trees ord packet keys actions)"]
      put_slice.attr_emitter_axioms PutNestedAttrs_emits actions_emit
    by (simp add: execute_trees_def del: ovs_consts seq_gens.simps)
qed

lemma Execute_sends:
  "Execute ord dp packet keys actions w =
     (answer (sends w),
      sent_state (dpif_sock (dp_dpif dp)) (fam_id (families (dp_dpif dp) ! PACKET)) RequestFlags
        (ovs_body OVS_PACKET_CMD_EXECUTE OVS_PACKET_VERSION (dp_ifindex dp)
          (execute_trees ord packet keys actions)) (w\<lparr>heaps := (\<lambda>i. heaps w (Suc i))\<rparr>))"
proof (rule build_msg_spec [OF execute_emits [of packet keys ord actions], of "dp_dpif dp" PACKET RequestFlags
      OVS_PACKET_CMD_EXECUTE OVS_PACKET_VERSION "dp_ifindex dp" w])
  let ?w = "w\<lparr>heaps := (\<lambda>i. heaps w (Suc i))\<rparr>" and ?s = "dpif_sock (dp_dpif dp)"
  fix m
  assume b: "build_msg (dp_dpif dp) PACKET RequestFlags OVS_PACKET_CMD_EXECUTE OVS_PACKET_VERSION (dp_ifindex dp)
       (seq_gens [PutSliceAttr OVS_PACKET_ATTR_PACKET packet,
          PutNestedAttrs OVS_PACKET_ATTR_KEY (seq_gens (map putKeyNlAttr (List.map_filter keys ord))),
          PutNestedAttrs OVS_PACKET_ATTR_ACTIONS (seq_gens (map action_toNlAttr actions))]) w = (Ok m, ?w)"
    and m: "builder_ok m" "mbytes m = draft_bytes (fam_id (families (dp_dpif dp) ! PACKET)) RequestFlags
      (ovs_body OVS_PACKET_CMD_EXECUTE OVS_PACKET_VERSION (dp_ifindex dp) (execute_trees ord packet keys actions))"
  have "answer (sends w) = Ok () \<or> (\<exists>e. answer (sends w) = Err e)"
    by (cases "sends w" rule: answer.cases) simp_all
  then show ?thesis using send_spec [OF m, of ?s ?w] b
    by (auto simp: Execute_def simp del: ovs_consts seq_gens.simps)
qed

text \<open>A miss: the packet, and keys that match exactly because no masks are given.\<close>

lemma miss_dispatch:
  assumes msg: "wire seq pid m = nlmsg_bytes (fst m) (fst (snd m)) seq pid (ovs_body c v (dp_ifindex dp) ts)"
    and m: "fst m = fam_id (families (dp_dpif dp) ! PACKET)" "c = OVS_PACKET_CMD_MISS" "list_all fits ts"
    and key: "attrs_of ts OVS_PACKET_ATTR_KEY = Some (pad4 (enc_nlas ks))" "list_all fits ks"
    and fks: "ParseFlowKeys (rng (attrs_of ks)) [] (attrs_of ks) None = Ok fks" and pre: "4 dvd length pre"
  shows "miss_handler rng dp consumer \<lparr>pdata = pre @ wire seq pid m, ppos = length pre\<rparr> st =
    Miss consumer (attrs_of ts OVS_PACKET_ATTR_PACKET) fks st"
proof -
  have "cmd_accepted PACKET (uint OVS_PACKET_CMD_MISS) c" using m(2) by (simp add: cmd_accepted_def)
  moreover obtain q where "TakeAttrs \<lparr>pdata = pre @ wire seq pid m, ppos = length pre + 24\<rparr> = Ok (attrs_of ts, q)"
    by (rule TakeAttrs_msg [OF pre msg m(3)])
  moreover have "GetNestedAttrs (attrs_of ts) OVS_PACKET_ATTR_KEY False = Ok (Some (attrs_of ks))"
    using key(2,1) by (rule GetNestedAttrs_enc)
  ultimately show ?thesis
    using checkNlMsgHeaders_msg [OF pre msg, of "dp_dpif dp" PACKET "uint OVS_PACKET_CMD_MISS"] m(1) fks
    by (simp add: miss_handler_def dp_checkNlMsgHeaders_def datapathID_def Let_def del: ovs_consts)
qed

section \<open>A started session\<close>

lemma and_then_eq_Ok: "and_then r f = (Ok y, w') \<longleftrightarrow> (\<exists>x w. r = (Ok x, w) \<and> f x w = (Ok y, w'))"
  by (cases r; cases "fst r") auto

lemma on_err_eq_Ok: "on_err c r = (Ok y, w') \<longleftrightarrow> r = (Ok y, w')"
  by (auto simp: on_err_def split: prod.splits res.splits)

text \<open>A session holds three descriptors: of the events, of the misses and of its requests.\<close>

definition session_sockets :: "miss_session \<Rightarrow> nat list" where
  "session_sockets ms = [dpif_sock (ms_cancel ms), dpif_sock (dp_dpif (ms_miss ms)),
     dpif_sock (dp_dpif (mv_dp (ms_consumer ms)))]"

lemma set_upcalls_dp: "snd (set_upcalls vs (c, w)) = (c', w') \<Longrightarrow> mv_dp c' = mv_dp c"
proof (induction vs arbitrary: c w)
  case (Cons v vs)
  obtain r c1 w1 where s: "mv_setVportUpcallPortId (vp_ID v) (c, w) = (r, (c1, w1))" by (metis prod.exhaust)
  then have "mv_dp c1 = mv_dp c"
    by (auto simp: mv_setVportUpcallPortId_def split: if_splits prod.splits res.splits)
  with Cons s show ?case by (cases r) auto
qed simp

lemma ConsumeMisses_Ok_holds:
  assumes "ConsumeMisses dp w = (Ok ms, w')" "good_fds w" "holds ss F w"
  shows "holds (session_sockets ms @ ss) F w'"
proof -
  obtain d1 w1 d2 w2 where d: "dp_Reopen dp w = (Ok d1, w1)" "dp_Reopen dp w1 = (Ok d2, w2)"
    using assms(1) by (auto simp: ConsumeMisses_def and_then_eq_Ok on_err_eq_Ok)
  let ?c = "\<lparr>mv_dp = d1, upcallPortId = PortId (dpif_sock (dp_dpif d2)) w2, vportsDone = {}\<rparr>"
  obtain e w3 vs w4 where e: "ConsumeVportEvents dp w2 = (Ok e, w3)" "EnumerateVports dp w3 = (Ok vs, w4)"
    and r: "(case set_upcalls vs (?c, w4) of
            (Ok _, (c, w)) \<Rightarrow> (Ok \<lparr>ms_miss = d2, ms_consumer = c, ms_cancel = e\<rparr>, w)
          | (Err e, (c, w)) \<Rightarrow> (Err e, w)
          | (Crash x, (c, w)) \<Rightarrow> (Crash x, w)
          | (Blocked b, (c, w)) \<Rightarrow> (Blocked b, w)) = (Ok ms, w')"
    using assms(1) d by (auto simp: ConsumeMisses_def and_then_eq_Ok on_err_eq_Ok Let_def)
  obtain u where u: "set_upcalls vs (?c, w4) = (Ok u, (ms_consumer ms, w'))"
    "ms_miss ms = d2" "ms_cancel ms = e"
    using r by (auto split: prod.splits res.splits)
  have "mv_dp (ms_consumer ms) = d1" using set_upcalls_dp [of vs ?c w4] u(1) by simp
  then have ss: "session_sockets ms = [dpif_sock e, dpif_sock (dp_dpif d2), dpif_sock (dp_dpif d1)]"
    by (simp add: session_sockets_def u)
  note h1 = holds_reopen [OF d(1) assms(2,3)]
  note h2 = holds_reopen [OF d(2) h1(2,1)]
  have "holds (session_sockets ms @ ss) F w3"
    using ConsumeVportEvents_Ok [OF e(1) h2(2,1)] by (simp add: ss)
  moreover have "same_sockets w4 w3" "same_sockets w' w4"
    using EnumerateVports_same [of dp w3] e(2) set_upcalls_same [of vs ?c w4] u(1) by simp_all
  ultimately show ?thesis using holds_same by blast
qed

section \<open>Properties\<close>

text \<open>
  Property C8: starting a miss session leaks no descriptor.  If \<^verbatim>\<open>ConsumeMisses\<close> fails, at whatever
  point, the descriptors open before are open after, and no others; if it succeeds, three
  sockets with distinct references have been added, those of the returned session, and
  closing them restores the descriptors.
\<close>

theorem ConsumeMisses_descriptors:
  assumes "good_fds w"
  shows "(\<forall>e w'. ConsumeMisses dp w = (Err e, w') \<longrightarrow> open_fds w' = open_fds w) \<and>
    (\<forall>ms w'. ConsumeMisses dp w = (Ok ms, w') \<longrightarrow>
      distinct (session_sockets ms) \<and> length (open_fds w') = length (open_fds w) + 3 \<and>
      open_fds (snd (Close (session_sockets ms ! 2) (snd (Close (session_sockets ms ! 1)
        (snd (Close (session_sockets ms ! 0) w')))))) = open_fds w)"
proof (intro conjI allI impI)
  have h: "holds [] (open_fds w) w" by (simp add: holds_def)
  show "open_fds w' = open_fds w" if "ConsumeMisses dp w = (Err e, w')" for e w'
    using ConsumeMisses_Err_holds [OF that assms h] by (simp add: holds_def)
  fix ms w'
  assume "ConsumeMisses dp w = (Ok ms, w')"
  from ConsumeMisses_Ok_holds [OF this assms h] have hs: "holds (session_sockets ms) (open_fds w) w'" by simp
  then show "distinct (session_sockets ms)" "length (open_fds w') = length (open_fds w) + 3"
    by (auto simp: holds_def session_sockets_def)
  obtain a b c where abc: "session_sockets ms = [a, b, c]" by (simp add: session_sockets_def)
  from holds_close [OF holds_close [OF holds_close [OF hs [unfolded abc]]]]
  show "open_fds (snd (Close (session_sockets ms ! 2) (snd (Close (session_sockets ms ! 1)
        (snd (Close (session_sockets ms ! 0) w')))))) = open_fds w"
    by (simp add: abc holds_def)
qed

theorem ConsumeMisses_descriptors_witness:
  "\<exists>w'. ConsumeMisses demo_datapath ((idle_sys [])\<lparr>opens := [bad_bind\<lparr>oa_bind := None, oa_name := Inr (NetlinkAddr 7)\<rparr>,
     bad_bind\<lparr>oa_socket := Inr 5\<rparr>]\<rparr>) = (Err (Errno 98), w') \<and> open_fds w' = []"
proof -
  let ?w = "(idle_sys [])\<lparr>opens := [bad_bind\<lparr>oa_bind := None, oa_name := Inr (NetlinkAddr 7)\<rparr>,
     bad_bind\<lparr>oa_socket := Inr 5\<rparr>]\<rparr>"
  have "good_fds ?w" "open_fds ?w = []" by (simp_all add: good_fds_def bad_bind_def)
  moreover obtain w' where "ConsumeMisses demo_datapath ?w = (Err (Errno 98), w')"
    by (simp add: ConsumeMisses_def dp_Reopen_def Reopen_def OpenNetlinkSocket_def bad_bind_def Let_def on_err_def)
  ultimately show ?thesis using ConsumeMisses_descriptors [of ?w demo_datapath] by auto
qed

text \<open>
  Property C28: \<^verbatim>\<open>Execute\<close> sends exactly one message, which carries the packet, every key of the set
  and the actions in order, receives nothing, and returns the outcome of the send.
\<close>

theorem Execute_one_message:
  "\<exists>w'. Execute ord dp packet keys actions w = (answer (sends w), w') \<and>
    trace w' = trace w @
      [SysSendto (sock_fd (sockets w (dpif_sock (dp_dpif dp))))
        (nlmsg_bytes (fam_id (families (dp_dpif dp) ! PACKET)) RequestFlags (nextSeqNo w + 1) 0
          (ovs_body OVS_PACKET_CMD_EXECUTE OVS_PACKET_VERSION (dp_ifindex dp)
            (execute_trees ord packet keys actions)))]"
  by (simp add: Execute_sends sent_state_def log_def Let_def del: ovs_consts)

text \<open>Without masks, a blob key matches its own value only.\<close>

lemma exact_parse:
  assumes "parse (parser_for t) t (Some key) (exactMask (parser_for t)) True = Ok k" "toBlobFlowKey k = Some b"
  shows "keyMask b = key @ replicate (length key) 0xff"
proof (cases "flowKeyParsers t")
  case None
  then show ?thesis using assms by (auto simp: unknown_parser parseUnknownFlowKey_def)
next
  case (Some p)
  have exact: "keyMask b = key @ replicate (length key) 0xff"
    if "parseBlobFlowKey t (Some key) (Some (replicate n 0xff)) n = Ok b" for n b
    using that parseBlobFlowKey_Some [of key n "replicate n 0xff" t]
    by (cases "length key = n") (auto simp: parseBlobFlowKey_def)
  from Some show ?thesis
  proof (cases rule: flowKeyParsers_cases)
    case (blob n)
    then show ?thesis using assms Some
      by (auto simp: parser_for_def blobFlowKeyParser_def outcome_simps intro: exact)
  next
    case ethernet
    then show ?thesis using assms Some
      by (auto simp: parser_for_def blobFlowKeyParser_def outcome_simps intro: exact)
  next
    case in_port
    have "[0xff, 0xff, 0xff, 0xff] = replicate 4 (0xff :: byte)" by (simp add: numeral_eq_Suc)
    then show ?thesis using assms in_port flowKeyParsers_in_port
      by (auto simp: parser_for_def parseInPortFlowKey_def AllBytes_def list_all_iff outcome_simps intro: exact)
  next
    case tunnel
    then show ?thesis using assms flowKeyParsers_tunnel
      by (auto simp: parser_for_def parseTunnelFlowKey_def outcome_simps)
  qed
qed

lemma exact_unknown_parse:
  assumes "parse (parser_for t) t (Some key) (exactMask (parser_for t)) True = Ok (FK_Unknown u)"
  shows "uf_key u = key" "uf_exact u"
proof -
  have "flowKeyParsers t = None" using parser_for_wf [OF assms] by simp
  then show "uf_key u = key" "uf_exact u"
    using assms by (auto simp: unknown_parser parseUnknownFlowKey_def)
qed

text \<open>
  Property C27: a miss reaches the consumer with the packet bytes of the message and one key for each
  attribute.  No masks are sent with a miss, so a key of a fixed-size type has the value of its
  attribute and matches no other, and a key of an unknown type holds the bytes of the attribute and
  demands them exactly.  The tunnel key has the fields that are present, with a full mask for each of
  them; the absent ones are zero and wildcarded, so that it also matches packets of other
  tunnels that differ in those fields alone.
\<close>

theorem miss_delivered:
  assumes "wire seq pid m = nlmsg_bytes (fst m) (fst (snd m)) seq pid
      (ovs_body OVS_PACKET_CMD_MISS v (dp_ifindex dp) ts)"
    "fst m = fam_id (families (dp_dpif dp) ! PACKET)" "list_all fits ts" "4 dvd length pre"
    "attrs_of ts OVS_PACKET_ATTR_KEY = Some (pad4 (enc_nlas ks))" "list_all fits ks"
    "range_order (rng (attrs_of ks)) (attrs_of ks)"
    "\<forall>t. map_option Ok (fks t) = flow_key_at (attrs_of ks) None t"
  shows "miss_handler rng dp consumer \<lparr>pdata = pre @ wire seq pid m, ppos = length pre\<rparr> st =
      Miss consumer (attrs_of ts OVS_PACKET_ATTR_PACKET) fks st \<and>
    (\<forall>t k b. fks t = Some k \<longrightarrow> toBlobFlowKey k = Some b \<longrightarrow>
      attrs_of ks t = Some (blob_key b) \<and> (\<forall>field. blob_matches b field \<longleftrightarrow> field = blob_key b)) \<and>
    (\<forall>t u. fks t = Some (FK_Unknown u) \<longrightarrow> attrs_of ks t = Some (uf_key u) \<and> uf_exact u) \<and>
    (\<forall>ta pr. ta_wf ta \<longrightarrow> attrs_of ks OVS_KEY_ATTR_TUNNEL = Some (pad4 (enc_nlas (ta_nlas ta pr))) \<longrightarrow>
      fks OVS_KEY_ATTR_TUNNEL = Some (FK_Tunnel
        \<lparr>tf_key = ta_restrict ta pr, tf_mask = tap_mask (tap_flags ta pr)\<rparr>)) \<and>
    (\<forall>t. fks t = None \<longleftrightarrow> attrs_of ks t = None)"
proof (intro conjI allI impI)
  have fks: "ParseFlowKeys (rng (attrs_of ks)) [] (attrs_of ks) None = Ok fks"
    using ParseFlowKeys_iff [OF assms(7), of None] assms(8) by simp
  show "miss_handler rng dp consumer \<lparr>pdata = pre @ wire seq pid m, ppos = length pre\<rparr> st =
      Miss consumer (attrs_of ts OVS_PACKET_ATTR_PACKET) fks st"
    by (rule miss_dispatch [OF assms(1,2)]) (use assms(3-6) fks in simp_all)
  have parsed: "\<exists>key. attrs_of ks t = Some key \<and>
      parse (parser_for t) t (Some key) (exactMask (parser_for t)) True = Ok k" if "fks t = Some k" for t k
  proof -
    have "flow_key_at (attrs_of ks) None t = Some (Ok k)" using assms(8) that by (metis option.simps(9))
    then show ?thesis by (auto simp: flow_key_at_def Let_def split: option.splits)
  qed
  show "fks t = None \<longleftrightarrow> attrs_of ks t = None" for t
    using spec [OF assms(8), of t] flow_key_at_None [of "attrs_of ks" None t] by (cases "fks t") auto
  show "attrs_of ks t = Some (uf_key u)" "uf_exact u" if "fks t = Some (FK_Unknown u)" for t u
    using parsed [OF that] exact_unknown_parse by blast+
  show "fks OVS_KEY_ATTR_TUNNEL = Some (FK_Tunnel \<lparr>tf_key = ta_restrict ta pr, tf_mask = tap_mask (tap_flags ta pr)\<rparr>)"
    if "ta_wf ta" "attrs_of ks OVS_KEY_ATTR_TUNNEL = Some (pad4 (enc_nlas (ta_nlas ta pr)))" for ta pr
    using spec [OF assms(8), of OVS_KEY_ATTR_TUNNEL] parseTunnelAttrsData_enc [OF that(1), of pr] that(2)
    by (simp add: flow_key_at_def Let_def parser_for_def flowKeyParsers_tunnel parseTunnelFlowKey_def del: ovs_consts)
  fix t k b
  assume "fks t = Some k" and b: "toBlobFlowKey k = Some b"
  then obtain key where key: "attrs_of ks t = Some key"
    "parse (parser_for t) t (Some key) (exactMask (parser_for t)) True = Ok k"
    using parsed by blast
  from exact_parse [OF key(2) b] have km: "blob_key b = key" "blob_mask b = replicate (length key) 0xff"
    by (simp_all add: blob_key_def blob_mask_def)
  then show "attrs_of ks t = Some (blob_key b)" using key(1) by simp
  fix field
  have "x AND 0xff = x" for x :: byte
    using take_bit_word_eq_self [of 8 x] by (simp add: take_bit_eq_mask mask_eq_exp_minus_1)
  then show "blob_matches b field \<longleftrightarrow> field = blob_key b"
    by (auto simp: blob_matches_def km list_eq_iff_nth_eq)
qed

definition demo_miss_keys :: "nla list" where
  "demo_miss_keys = [Raw OVS_KEY_ATTR_ETHERTYPE [8, 0],
     Nested OVS_KEY_ATTR_TUNNEL (ta_nlas (zero_ta\<lparr>Ttl := 64\<rparr>) (zero_presence\<lparr>pTtl := True\<rparr>))]"

definition demo_miss_trees :: "nla list" where
  "demo_miss_trees = [Raw OVS_PACKET_ATTR_PACKET [1, 2, 3], Nested OVS_PACKET_ATTR_KEY demo_miss_keys]"

definition demo_miss :: wmsg where
  "demo_miss = (24, 0, ovs_body OVS_PACKET_CMD_MISS 1 6 demo_miss_trees)"

definition packet_recorder :: "(bytes option \<times> FlowKey option \<times> FlowKey option) list MissConsumer" where
  "packet_recorder = \<lparr>Miss = (\<lambda>packet fks (l, w).
       (Ok (), (l @ [(packet, fks OVS_KEY_ATTR_ETHERTYPE, fks OVS_KEY_ATTR_TUNNEL)], w))),
     miss_Error = (\<lambda>e stopped l. l)\<rparr>"

theorem miss_delivered_witness:
  "miss_handler ascending demo_datapath packet_recorder \<lparr>pdata = wire 0 0 demo_miss, ppos = 0\<rparr> ([], idle_sys []) =
     (Ok (), ([(Some [1, 2, 3], Some (FK_Blob \<lparr>bf_typ = 6, keyMask = [8, 0, 0xff, 0xff]\<rparr>),
        Some (FK_Tunnel \<lparr>tf_key = zero_ta\<lparr>Ttl := 64\<rparr>, tf_mask = zero_ta\<lparr>Ttl := 0xff\<rparr>\<rparr>))], idle_sys []))"
proof -
  let ?ta = "zero_ta\<lparr>Ttl := 64\<rparr>" and ?pr = "zero_presence\<lparr>pTtl := True\<rparr>"
  let ?tun = "FK_Tunnel \<lparr>tf_key = ta_restrict ?ta ?pr, tf_mask = tap_mask (tap_flags ?ta ?pr)\<rparr>"
  let ?fks = "[6 \<mapsto> FK_Blob \<lparr>bf_typ = 6, keyMask = [8, 0, 0xff, 0xff]\<rparr>, 16 \<mapsto> ?tun] :: FlowKeys"
  have ta: "ta_wf ?ta" by (simp add: ta_wf_def zero_ta_def)
  have ks: "attrs_of demo_miss_keys = [6 \<mapsto> [8, 0], 16 \<mapsto> pad4 (enc_nlas (ta_nlas ?ta ?pr))]"
    by (simp add: attrs_of_def demo_miss_keys_def fun_upd_twist)
  have p: "flowKeyParsers 6 = Some (blobFlowKeyParser 2 FK_Blob)"
    "flowKeyParsers 16 = Some \<lparr>parse = parseTunnelFlowKey, exactMask = None, ignoreMask = Some []\<rparr>"
    by (simp_all add: flowKeyParsers_def)
  then have fks: "map_option Ok (?fks t) = flow_key_at (attrs_of demo_miss_keys) None t" for t
    unfolding ks using parseTunnelAttrsData_enc [OF ta, of ?pr]
    by (cases "t = 6"; cases "t = 16")
      (simp_all add: flow_key_at_def parser_for_def blobFlowKeyParser_def parseTunnelFlowKey_def numeral_2_eq_2)
  have fit: "list_all fits demo_miss_trees" "list_all fits demo_miss_keys"
    by (simp_all add: demo_miss_trees_def demo_miss_keys_def fits_def align4 ta_nlas_def zero_presence_def)
  have look: "attrs_of demo_miss_trees OVS_PACKET_ATTR_KEY = Some (pad4 (enc_nlas demo_miss_keys))"
    "attrs_of demo_miss_trees OVS_PACKET_ATTR_PACKET = Some [1, 2, 3]"
    by (simp_all add: demo_miss_trees_def attrs_of_def)
  have tun: "?tun = FK_Tunnel \<lparr>tf_key = ?ta, tf_mask = zero_ta\<lparr>Ttl := 0xff\<rparr>\<rparr>"
    by (simp add: ta_restrict_def tap_mask_def tap_flags_def zero_presence_def zero_ta_def)
  have "fst demo_miss = fam_id (families (dp_dpif demo_datapath) ! PACKET)"
    "wire 0 0 demo_miss = nlmsg_bytes (fst demo_miss) (fst (snd demo_miss)) 0 0
      (ovs_body OVS_PACKET_CMD_MISS 1 (dp_ifindex demo_datapath) demo_miss_trees)"
    by (simp_all add: demo_miss_def demo_datapath_def demo_dpif_def PACKET_def wire_msg del: ovs_consts)
  from miss_delivered [OF this(2,1) fit(1) _ look(1) fit(2), of "[]" ascending ?fks packet_recorder "([], idle_sys [])"]
    fks look(2) ascending_ok show ?thesis
    by (simp add: range_ok_def packet_recorder_def tun)
qed

end
