(* ===== verification/Miss_Sessions.thy ===== *)
theory Miss_Sessions
  imports Packet
begin

text \<open>
  The miss session of \<^verbatim>\<open>odp/packet.go\<close> as a concurrent system: the thread that runs
  \<^verbatim>\<open>ConsumeMisses\<close> (it lists the vports and sets the upcall port of each), the goroutine that
  handles vport events, and the kernel, which creates and deletes vports at any time and
  queues an event for each change.  The mutex makes the two threads' operations atomic, so
  the interleavings are the runs of a step relation.

  Of the kernel the steps assume what the code relies on: events arrive in order, a request
  for a vport that does not exist fails, and setting the upcall port queues a \<open>NEW\<close> event
  (the comment in the source says so).
\<close>

section \<open>States and steps\<close>

datatype event = NewEv u32 | DelEv u32

text \<open>\<open>live\<close>, \<open>upcall\<close> and \<open>queue\<close> belong to the kernel, the rest to the program.\<close>

record mstate =
  live :: "u32 set"
  upcall :: "u32 set"
  queue :: "event list"
  vdone :: "u32 set"
  todo :: "u32 list option"
  aborted :: bool

text \<open>\<^verbatim>\<open>missVportConsumer.setVportUpcallPortId\<close>; the flag says that no error was returned.\<close>

definition set_upcall :: "u32 \<Rightarrow> mstate \<Rightarrow> bool \<times> mstate" where
  "set_upcall v s =
     (if v \<in> vdone s then (True, s)
      else if v \<in> live s
      then (True, s\<lparr>upcall := insert v (upcall s), queue := queue s @ [NewEv v],
                    vdone := insert v (vdone s)\<rparr>)
      else (False, s))"

inductive kernel_step :: "mstate \<Rightarrow> mstate \<Rightarrow> bool" where
  kcreate: "v \<notin> live s \<Longrightarrow> kernel_step s (s\<lparr>live := insert v (live s),
     upcall := upcall s - {v}, queue := queue s @ [NewEv v]\<rparr>)"
| kdelete: "v \<in> live s \<Longrightarrow> kernel_step s (s\<lparr>live := live s - {v}, upcall := upcall s - {v},
     queue := queue s @ [DelEv v]\<rparr>)"

inductive program_step :: "mstate \<Rightarrow> mstate \<Rightarrow> bool" where
  enumerate: "todo s = None \<Longrightarrow> set vs = live s \<Longrightarrow> distinct vs \<Longrightarrow>
     program_step s (s\<lparr>todo := Some vs\<rparr>)"
| main_set: "todo s = Some (v # vs) \<Longrightarrow> \<not> aborted s \<Longrightarrow> set_upcall v s = (True, s') \<Longrightarrow>
     program_step s (s'\<lparr>todo := Some vs\<rparr>)"
| main_abort: "todo s = Some (v # vs) \<Longrightarrow> \<not> aborted s \<Longrightarrow> set_upcall v s = (False, s') \<Longrightarrow>
     program_step s (s'\<lparr>todo := Some [], aborted := True\<rparr>)"
| event_new: "queue s = NewEv v # q \<Longrightarrow> \<not> aborted s \<Longrightarrow> set_upcall v (s\<lparr>queue := q\<rparr>) = (ok, s') \<Longrightarrow>
     program_step s s'"
| event_del: "queue s = DelEv v # q \<Longrightarrow> \<not> aborted s \<Longrightarrow>
     program_step s (s\<lparr>queue := q, vdone := vdone s - {v}\<rparr>)"

definition start :: "u32 set \<Rightarrow> mstate" where
  "start vs = \<lparr>live = vs, upcall = {}, queue = [], vdone = {}, todo = None, aborted = False\<rparr>"

inductive reach :: "u32 set \<Rightarrow> mstate \<Rightarrow> bool" for vs where
  init: "reach vs (start vs)"
| kernel: "reach vs s \<Longrightarrow> kernel_step s s' \<Longrightarrow> reach vs s'"
| program: "reach vs s \<Longrightarrow> program_step s s' \<Longrightarrow> reach vs s'"

inductive_cases kernel_stepE: "kernel_step s s'"
inductive_cases program_stepE: "program_step s s'"

section \<open>The invariant\<close>

text \<open>
  Handling the queued events will set the upcall port of \<open>v\<close>; \<open>d\<close> says whether \<open>v\<close> is
  recorded as done.
\<close>

fun will_set :: "bool \<Rightarrow> event list \<Rightarrow> u32 \<Rightarrow> bool" where
  "will_set d [] v = False"
| "will_set d (NewEv u # es) v = (if u = v then \<not> d \<or> will_set d es v else will_set d es v)"
| "will_set d (DelEv u # es) v = (if u = v then will_set False es v else will_set d es v)"

definition covered :: "mstate \<Rightarrow> u32 \<Rightarrow> bool" where
  "covered s v \<longleftrightarrow> v \<in> upcall s \<or> will_set (v \<in> vdone s) (queue s) v \<or>
     (v \<notin> vdone s \<and> (case todo s of None \<Rightarrow> True | Some vs \<Rightarrow> v \<in> set vs))"

definition inv :: "mstate \<Rightarrow> bool" where
  "inv s \<longleftrightarrow> (\<not> aborted s \<longrightarrow> (\<forall>v \<in> live s. covered s v)) \<and>
     (\<forall>v \<in> vdone s - live s. DelEv v \<in> set (queue s)) \<and> upcall s \<subseteq> live s"

lemma will_set_append: "will_set d q v \<Longrightarrow> will_set d (q @ es) v"
  by (induction d q v rule: will_set.induct) auto

lemma will_set_new: "\<not> d \<or> DelEv v \<in> set q \<Longrightarrow> will_set d (q @ [NewEv v]) v"
  by (induction d q v rule: will_set.induct) auto

lemma covered_append:
  "covered s v \<Longrightarrow> covered (s\<lparr>queue := queue s @ es\<rparr>) v"
  by (auto simp: covered_def intro: will_set_append)

lemma set_upcall_inv:
  assumes "inv s" "set_upcall v s = (ok, s')"
  shows "inv s'" "todo s' = todo s" "aborted s' = aborted s" "live s' = live s" "ok \<Longrightarrow> v \<in> vdone s'"
proof -
  show "inv s'"
  proof (cases "v \<in> vdone s \<or> v \<notin> live s")
    case True
    then show ?thesis using assms by (auto simp: set_upcall_def split: if_splits)
  next
    case False
    then have s': "s' = s\<lparr>upcall := insert v (upcall s), queue := queue s @ [NewEv v], vdone := insert v (vdone s)\<rparr>"
      using assms(2) by (simp add: set_upcall_def)
    have "covered s' u" if "\<not> aborted s" "u \<in> live s" for u
    proof (cases "u = v")
      case True
      then show ?thesis by (simp add: s' covered_def)
    next
      case u: False
      have "covered s u" using assms(1) that by (simp add: inv_def)
      then show ?thesis using u by (auto simp: s' covered_def intro: will_set_append split: option.split)
    qed
    then show ?thesis using assms(1) False by (auto simp: inv_def s')
  qed
  show "todo s' = todo s" "aborted s' = aborted s" "live s' = live s" "ok \<Longrightarrow> v \<in> vdone s'"
    using assms(2) by (auto simp: set_upcall_def split: if_splits)
qed

lemma kernel_step_inv: "kernel_step s s' \<Longrightarrow> inv s \<Longrightarrow> inv s'"
proof (erule kernel_stepE)
  fix v
  assume i: "inv s" and v: "v \<notin> live s"
    and s': "s' = s\<lparr>live := insert v (live s), upcall := upcall s - {v}, queue := queue s @ [NewEv v]\<rparr>"
  have "covered s' u" if "\<not> aborted s" "u \<in> insert v (live s)" for u
  proof (cases "u = v")
    case True
    have "v \<notin> vdone s \<or> DelEv v \<in> set (queue s)" using i v by (auto simp: inv_def)
    then show ?thesis using will_set_new [of "v \<in> vdone s" v "queue s"] True by (simp add: s' covered_def)
  next
    case False
    then have "covered s u" using i that by (auto simp: inv_def)
    then show ?thesis using False by (auto simp: s' covered_def intro: will_set_append split: option.split)
  qed
  then show "inv s'" using i by (auto simp: inv_def s')
next
  fix v
  assume i: "inv s" and v: "v \<in> live s"
    and s': "s' = s\<lparr>live := live s - {v}, upcall := upcall s - {v}, queue := queue s @ [DelEv v]\<rparr>"
  have "covered s' u" if "\<not> aborted s" "u \<in> live s - {v}" for u
  proof -
    have "covered s u" using i that by (auto simp: inv_def)
    then show ?thesis using that by (auto simp: s' covered_def intro: will_set_append split: option.split)
  qed
  then show "inv s'" using i by (auto simp: inv_def s')
qed

lemma pop_todo_inv:
  assumes "inv s" "todo s = Some (v # vs)" "v \<in> vdone s"
  shows "inv (s\<lparr>todo := Some vs\<rparr>)"
proof -
  have "covered (s\<lparr>todo := Some vs\<rparr>) u" if "covered s u" for u
    using that assms(2,3) by (auto simp: covered_def)
  then show ?thesis using assms(1) by (auto simp: inv_def)
qed

lemma pop_new_inv:
  assumes "inv s" "queue s = NewEv v # q" "\<not> aborted s" "set_upcall v (s\<lparr>queue := q\<rparr>) = (ok, s')"
  shows "inv s'"
proof (cases "v \<in> vdone s \<or> v \<notin> live s")
  case True
  then have s': "s' = s\<lparr>queue := q\<rparr>" using assms(4) by (auto simp: set_upcall_def split: if_splits)
  have "covered s' u" if "u \<in> live s" for u
  proof -
    have "covered s u" using that assms(1,3) by (auto simp: inv_def)
    then show ?thesis using True that assms(2) by (auto simp: s' covered_def split: if_splits)
  qed
  then show ?thesis using assms(1,2) by (auto simp: inv_def s')
next
  case False
  then have s': "s' = s\<lparr>queue := q @ [NewEv v], upcall := insert v (upcall s), vdone := insert v (vdone s)\<rparr>"
    using assms(4) by (auto simp: set_upcall_def)
  have "covered s' u" if "u \<in> live s" for u
  proof (cases "u = v")
    case False
    have "covered s u" using that assms(1,3) by (auto simp: inv_def)
    then show ?thesis using False assms(2)
      by (auto simp: s' covered_def intro: will_set_append split: option.split)
  qed (simp add: s' covered_def)
  then show ?thesis using assms(1,2) False by (auto simp: inv_def s')
qed

lemma pop_del_inv:
  assumes "inv s" "queue s = DelEv v # q"
  shows "inv (s\<lparr>queue := q, vdone := vdone s - {v}\<rparr>)"
proof -
  let ?s = "s\<lparr>queue := q, vdone := vdone s - {v}\<rparr>"
  have "covered ?s u" if "covered s u" for u
    using that assms(2) by (auto simp: covered_def split: if_splits)
  then show ?thesis using assms by (auto simp: inv_def)
qed

lemma program_step_inv: "program_step s s' \<Longrightarrow> inv s \<Longrightarrow> inv s'"
proof (erule program_stepE)
  fix vs assume i: "inv s" and e: "s' = s\<lparr>todo := Some vs\<rparr>" "todo s = None" "set vs = live s"
  have "covered s' u" if "covered s u" "u \<in> live s" for u
    using that e by (auto simp: covered_def)
  then show "inv s'" using i e(1) by (auto simp: inv_def)
next
  fix v vs s1
  assume a: "inv s" "s' = s1\<lparr>todo := Some vs\<rparr>" "todo s = Some (v # vs)" "set_upcall v s = (True, s1)"
  then show "inv s'" using set_upcall_inv [OF a(1,4)] pop_todo_inv [of s1 v vs] by simp
next
  fix v vs s1
  assume a: "inv s" "s' = s1\<lparr>todo := Some [], aborted := True\<rparr>" "set_upcall v s = (False, s1)"
  then show "inv s'" using set_upcall_inv(1) [OF a(1,3)] by (simp add: inv_def)
next
  fix v q ok
  assume "inv s" "queue s = NewEv v # q" "\<not> aborted s" "set_upcall v (s\<lparr>queue := q\<rparr>) = (ok, s')"
  then show "inv s'" by (rule pop_new_inv)
next
  fix v q
  assume "inv s" "s' = s\<lparr>queue := q, vdone := vdone s - {v}\<rparr>" "queue s = DelEv v # q"
  then show "inv s'" using pop_del_inv by simp
qed

lemma reach_inv: "reach vs s \<Longrightarrow> inv s"
proof (induction rule: reach.induct)
  case init
  then show ?case by (simp add: inv_def start_def covered_def)
qed (simp_all add: kernel_step_inv program_step_inv)

section \<open>The program makes progress\<close>

text \<open>
  What is left to do: a deletion may cause a request, a request causes a creation event, and
  the listing is handled one vport at a time.
\<close>

fun event_work :: "event \<Rightarrow> nat" where
  "event_work (NewEv v) = 1"
| "event_work (DelEv v) = 3"

definition work :: "mstate \<Rightarrow> nat" where
  "work s = sum_list (map event_work (queue s)) + 2 * card (live s - vdone s) +
     (case todo s of None \<Rightarrow> card (live s) + 1 | Some vs \<Rightarrow> length vs)"

lemma set_upcall_work:
  assumes "set_upcall v s = (ok, s')" "finite (live s)"
  shows "work s' \<le> work s"
proof (cases "v \<in> vdone s \<or> v \<notin> live s")
  case False
  then have s': "s' = s\<lparr>upcall := insert v (upcall s), queue := queue s @ [NewEv v], vdone := insert v (vdone s)\<rparr>"
    using assms(1) by (simp add: set_upcall_def)
  have "live s - insert v (vdone s) = (live s - vdone s) - {v}" by blast
  then have "Suc (card (live s - insert v (vdone s))) = card (live s - vdone s)"
    using False assms(2) card_Suc_Diff1 [of "live s - vdone s" v] by simp
  then show ?thesis by (simp add: work_def s' split: option.split)
qed (use assms(1) in \<open>auto simp: set_upcall_def split: if_splits\<close>)

lemma card_undone:
  assumes "finite A"
  shows "card (A - (B - {v})) \<le> card (A - B) + 1"
proof -
  have "card (A - (B - {v})) \<le> card (insert v (A - B))" using assms by (intro card_mono) auto
  also have "\<dots> \<le> card (A - B) + 1" using assms by (simp add: card_insert_if)
  finally show ?thesis .
qed

lemma program_step_work:
  assumes "program_step s s'" "finite (live s)"
  shows "work s' < work s \<and> live s' = live s"
  using assms(1)
proof cases
  case (enumerate vs)
  then show ?thesis using distinct_card [of vs] by (simp add: work_def)
next
  case (main_set v vs s1)
  have "work s1 \<le> work s" using set_upcall_work main_set assms(2) by blast
  moreover have "todo s1 = Some (v # vs)" "live s1 = live s"
    using main_set by (auto simp: set_upcall_def split: if_splits)
  ultimately show ?thesis using main_set(1) by (simp add: work_def)
next
  case (main_abort v vs s1)
  then have "s1 = s" by (simp add: set_upcall_def split: if_splits)
  then show ?thesis using main_abort by (simp add: work_def)
next
  case (event_new v q ok)
  have "work s' \<le> work (s\<lparr>queue := q\<rparr>)" using set_upcall_work [OF event_new(3)] assms(2) by simp
  moreover have "live s' = live s" using event_new(3) by (auto simp: set_upcall_def split: if_splits)
  ultimately show ?thesis using event_new(1) by (simp add: work_def split: option.splits)
next
  case (event_del v q)
  then show ?thesis using card_undone [OF assms(2), of "vdone s" v] by (simp add: work_def split: option.splits)
qed

lemma reach_finite: "reach vs s \<Longrightarrow> finite vs \<Longrightarrow> finite (live s)"
proof (induction rule: reach.induct)
  case (kernel s s')
  then show ?case by (auto elim: kernel_stepE)
next
  case (program s s')
  then show ?case using program_step_work [of s s'] by simp
qed (simp add: start_def)

text \<open>A state of a running session in which the program can do nothing has handled everything.\<close>

lemma stuck_quiescent:
  assumes "\<And>s'. \<not> program_step s s'" "\<not> aborted s" "finite (live s)"
  shows "queue s = [] \<and> todo s = Some []"
proof (rule conjI)
  show "queue s = []"
  proof (cases "queue s")
    case (Cons e q)
    then show ?thesis
      using event_new [of s _ q] event_del [of s _ q] assms(1,2) by (cases e) (metis prod.exhaust, blast)
  qed
  show "todo s = Some []"
  proof (cases "todo s")
    case None
    obtain vs where "set vs = live s" "distinct vs" using finite_distinct_list [OF assms(3)] by blast
    then show ?thesis using enumerate [OF None] assms(1) by blast
  next
    case (Some vs)
    then show ?thesis
    proof (cases vs)
      case (Cons v us)
      obtain ok s1 where "set_upcall v s = (ok, s1)" by (rule prod.exhaust)
      then show ?thesis
        using main_set [of s v us s1] main_abort [of s v us s1] Some Cons assms(1,2) by (cases ok) auto
    qed simp
  qed
qed

lemma quiescent_covered:
  assumes "inv s" "\<not> aborted s" "queue s = []" "todo s = Some []"
  shows "upcall s = live s"
  using assms by (auto simp: inv_def covered_def)

section \<open>Properties\<close>

text \<open>
  Property C3: no vport is forgotten.  Whatever the interleaving of the thread that lists the
  vports, the goroutine that handles events and the kernel creating and deleting vports, when
  the listing and the queued events have been worked off, the upcalls of exactly the existing
  vports go to the miss socket.
\<close>

theorem session_covers_all_vports:
  assumes "reach vs s" "\<not> aborted s" "queue s = []" "todo s = Some []"
  shows "upcall s = live s"
  using quiescent_covered [OF reach_inv [OF assms(1)] assms(2-)] .

text \<open>A run: vport 1 exists, vport 2 appears while vport 1 is being handled.\<close>

definition demo_final :: mstate where
  "demo_final = \<lparr>live = {1, 2}, upcall = {1, 2}, queue = [], vdone = {1, 2}, todo = Some [], aborted = False\<rparr>"

lemma demo_run: "reach {1} demo_final"
proof -
  note r = program [of "{1}"] kernel [of "{1}"]
  have "reach {1} \<lparr>live = {1}, upcall = {}, queue = [], vdone = {}, todo = Some [1], aborted = False\<rparr>"
    using r(1) [OF init enumerate [of "start {1}" "[1]"]] by (simp add: start_def)
  from r(2) [OF this kcreate [of 2]]
  have "reach {1} \<lparr>live = {1, 2}, upcall = {}, queue = [NewEv 2], vdone = {}, todo = Some [1], aborted = False\<rparr>"
    by (simp add: insert_commute)
  from r(1) [OF this main_set [of _ 1 "[]"]]
  have "reach {1} \<lparr>live = {1, 2}, upcall = {1}, queue = [NewEv 2, NewEv 1], vdone = {1}, todo = Some [], aborted = False\<rparr>"
    by (simp add: set_upcall_def)
  from r(1) [OF this event_new [of _ 2 "[NewEv 1]"]]
  have "reach {1} \<lparr>live = {1, 2}, upcall = {1, 2}, queue = [NewEv 1, NewEv 2], vdone = {1, 2}, todo = Some [], aborted = False\<rparr>"
    by (simp add: set_upcall_def insert_commute)
  from r(1) [OF this event_new [of _ 1 "[NewEv 2]"]]
  have "reach {1} \<lparr>live = {1, 2}, upcall = {1, 2}, queue = [NewEv 2], vdone = {1, 2}, todo = Some [], aborted = False\<rparr>"
    by (simp add: set_upcall_def)
  from r(1) [OF this event_new [of _ 2 "[]"]] show ?thesis
    by (simp add: set_upcall_def demo_final_def)
qed

theorem session_covers_all_vports_witness: "reach {1} demo_final \<and> upcall demo_final = live demo_final"
  using session_covers_all_vports [OF demo_run] demo_run by (simp add: demo_final_def)

text \<open>
  Property C11: a session settles.  From every reachable state the program alone can take only
  finitely many steps, although each request it makes causes another event; and a running
  session in which it can take none serves all vports.
\<close>

theorem session_settles:
  assumes "reach vs s" "finite vs"
  shows "(\<nexists>f. f 0 = s \<and> (\<forall>i. program_step (f i) (f (Suc i)))) \<and>
    ((\<forall>s'. \<not> program_step s s') \<longrightarrow> aborted s \<or> upcall s = live s)"
proof (intro conjI impI notI)
  assume "\<exists>f. f 0 = s \<and> (\<forall>i. program_step (f i) (f (Suc i)))"
  then obtain f where f: "f 0 = s" "\<And>i. program_step (f i) (f (Suc i))" by blast
  have fin: "finite (live (f i))" for i
  proof (induction i)
    case 0
    then show ?case using reach_finite [OF assms] f(1) by simp
  next
    case (Suc i)
    then show ?case using program_step_work [OF f(2) Suc] by simp
  qed
  then have "(work (f (Suc i)), work (f i)) \<in> less_than" for i using program_step_work [OF f(2)] by simp
  then have "\<exists>g. \<forall>i. (g (Suc i), g i) \<in> less_than" by (intro exI [of _ "\<lambda>i. work (f i)"]) blast
  then show False using wf_less_than unfolding wf_iff_no_infinite_down_chain by blast
next
  assume "\<forall>s'. \<not> program_step s s'"
  then show "aborted s \<or> upcall s = live s"
    using stuck_quiescent [of s] quiescent_covered [OF reach_inv [OF assms(1)]] reach_finite [OF assms] by blast
qed

theorem session_settles_witness:
  "\<nexists>f. f 0 = demo_final \<and> (\<forall>i. program_step (f i) (f (Suc i)))"
  using session_settles [OF demo_run] by simp

text \<open>
  Property C26: the code of a request refines the step of the session.  When the kernel answers
  without error exactly for an existing vport, \<^verbatim>\<open>setVportUpcallPortId\<close> has the outcome and the
  new set of handled vports that the step relation gives; a vport already handled is not
  requested again.
\<close>

theorem set_upcall_refined:
  fixes c w
  defines "s \<equiv> dpif_sock (dp_dpif (mv_dp c))"
  assumes "answer (sends w) = Ok ()" "fuel w > 0" "vportsDone c = vdone m"
    "v \<in> live m \<Longrightarrow> answers s w u fl (nextSeqNo w + 1) body \<and> u \<noteq> NLMSG_ERROR"
    "v \<notin> live m \<Longrightarrow> answers s w NLMSG_ERROR fl (nextSeqNo w + 1) (enc_word 4 (e :: i32) @ rest) \<and> e \<noteq> 0"
  shows "\<exists>w'. mv_setVportUpcallPortId v (c, w) =
      (if fst (set_upcall v m) then Ok () else Err (netlink_error e),
       (c\<lparr>vportsDone := vdone (snd (set_upcall v m))\<rparr>, w')) \<and>
    (v \<in> vdone m \<longrightarrow> w' = w)"
proof -
  let ?gen = "seq_gens [PutUint32Attr OVS_VPORT_ATTR_PORT_NO v, PutUint32Attr OVS_VPORT_ATTR_UPCALL_PID (upcallPortId c)]"
  have em: "attr_emitter ?gen [Raw OVS_VPORT_ATTR_PORT_NO (enc_word 4 v), Raw OVS_VPORT_ATTR_UPCALL_PID (enc_word 4 (upcallPortId c))]"
    using seq_gens_emits [of "[PutUint32Attr OVS_VPORT_ATTR_PORT_NO v, PutUint32Attr OVS_VPORT_ATTR_UPCALL_PID (upcallPortId c)]"
      "[[Raw OVS_VPORT_ATTR_PORT_NO (enc_word 4 v)], [Raw OVS_VPORT_ATTR_UPCALL_PID (enc_word 4 (upcallPortId c))]]"] put_emits
    by (simp del: ovs_consts seq_gens.simps)
  consider "v \<in> vdone m" | "v \<notin> vdone m" "v \<in> live m" | "v \<notin> vdone m" "v \<notin> live m" by blast
  then show ?thesis
  proof cases
    case 1
    then show ?thesis using assms(4) by (simp add: mv_setVportUpcallPortId_def set_upcall_def)
  next
    case 2
    with assms(5) have "answers s w u fl (nextSeqNo w + 1) body" "u \<noteq> NLMSG_ERROR" by blast+
    from ovs_call_ack [OF em assms(2,3) this [unfolded s_def]] show ?thesis
      using 2 assms(4)
      by (simp add: mv_setVportUpcallPortId_def setVportUpcallPortId_def set_upcall_def del: ovs_consts seq_gens.simps)
  next
    case 3
    with assms(6) have "e \<noteq> 0" "answers s w NLMSG_ERROR fl (nextSeqNo w + 1) (enc_word 4 e @ rest)" by blast+
    from ovs_call_error [OF em assms(2,3) this [unfolded s_def]] show ?thesis
      using 3 assms(4)
      by (simp add: mv_setVportUpcallPortId_def setVportUpcallPortId_def set_upcall_def del: ovs_consts seq_gens.simps)
  qed
qed

theorem set_upcall_refined_witness:
  "\<exists>w'. mv_setVportUpcallPortId 3 (\<lparr>mv_dp = demo_datapath, upcallPortId = 7, vportsDone = {}\<rparr>,
      idle_sys [Datagram (nlmsg_bytes NLMSG_ERROR 0 42 7 (enc_word 4 (- 19 :: i32))) (NetlinkAddr 0)]) =
     (Err (NetlinkError ENODEV), (\<lparr>mv_dp = demo_datapath, upcallPortId = 7, vportsDone = {}\<rparr>, w'))"
proof -
  let ?w = "idle_sys [Datagram (nlmsg_bytes NLMSG_ERROR 0 42 7 (enc_word 4 (- 19 :: i32))) (NetlinkAddr 0)]"
  have "answers (dpif_sock (dp_dpif demo_datapath)) ?w NLMSG_ERROR 0 42 (enc_word 4 (- 19 :: i32) @ [])"
    unfolding answers_def by (intro exI [of _ "[]"] conjI exI) (simp, simp add: RECV_BUF_def)
  then show ?thesis
    using set_upcall_refined [of ?w "\<lparr>mv_dp = demo_datapath, upcallPortId = 7, vportsDone = {}\<rparr>" "start {}" 3 0 0 "[]" "- 19" "[]"]
    by (simp add: start_def set_upcall_def netlink_error_ENODEV)
qed

end
