(* ===== verification/Dump_Progress.thy ===== *)
theory Dump_Progress
  imports Packet
begin

text \<open>
  The handlers that the package passes to \<^verbatim>\<open>RequestMulti\<close> and \<^verbatim>\<open>consume\<close> parse one message and
  never wait: the enumerations end, or wait for the kernel, but do not spin.
\<close>

section \<open>Parsers do not wait\<close>

named_theorems ready_rules \<open>parsers that return without waiting\<close>

definition ready :: "'a res \<Rightarrow> bool" where
  "ready r \<longleftrightarrow> (\<forall>b. r \<noteq> Blocked b)"

lemma ready_simps [simp]: "ready (Ok x)" "ready (Err e)" "ready (Crash c)" "\<not> ready (Blocked b)"
  by (simp_all add: ready_def)

lemma ready_map_res [simp]: "ready (map_res f r) = ready r"
  by (cases r) simp_all

lemma ready_bind [ready_rules]: "ready r \<Longrightarrow> (\<And>x. ready (f x)) \<Longrightarrow> ready (res_bind r f)"
  by (cases r) simp_all

lemma ready_if [ready_rules]: "ready a \<Longrightarrow> ready b \<Longrightarrow> ready (if c then a else b)"
  by simp

lemma ready_option [ready_rules]: "ready a \<Longrightarrow> (\<And>x. ready (f x)) \<Longrightarrow> ready (case z of None \<Rightarrow> a | Some x \<Rightarrow> f x)"
  by (cases z) simp_all

lemma ready_prod [ready_rules]: "(\<And>x y. ready (f x y)) \<Longrightarrow> ready (case z of (x, y) \<Rightarrow> f x y)"
  by (cases z) simp

lemma ready_peek [ready_rules]: "ready (peek f n dat pos)"
  by (simp add: peek_def)

lemma ready_reads [ready_rules]:
  "ready (uint16At dat pos)" "ready (uint32At dat pos)" "ready (uint64At dat pos)" "ready (nlMsghdrAt dat pos)"
  "ready (genlMsghdrAt dat pos)" "ready (ovsHeaderAt dat pos)" "ready (ovsFlowStatsAt dat pos)"
  by (auto simp: uint16At_def uint32At_def uint64At_def nlMsghdrAt_def genlMsghdrAt_def ovsHeaderAt_def
      ovsFlowStatsAt_def intro!: ready_rules)

lemma ready_headers [ready_rules]:
  "ready (Advance n p)" "ready (AlignAdvance a n p)" "ready (get_NlMsghdr p)"
  by (auto simp: Advance_def CheckAvailable_def AlignAdvance_def get_NlMsghdr_def Let_def intro!: ready_rules)

lemma ready_checkNlMsgHeaders [ready_rules]: "ready (checkNlMsgHeaders dpif msg family cmd)"
  by (auto simp: checkNlMsgHeaders_def ExpectNlMsghdr_def CheckGenlMsghdr_def takeOvsHeader_def intro!: ready_rules)

lemma ready_dp_checkNlMsgHeaders [ready_rules]: "ready (dp_checkNlMsgHeaders dp msg family cmd)"
  by (auto simp: dp_checkNlMsgHeaders_def intro!: ready_rules)

lemma ready_parseAttrs [ready_rules]: "ready (parseAttrs consumer p s)"
proof (induction consumer p s rule: parseAttrs.induct)
  case (1 consumer p s)
  have "ready (parseAttr p)" by (simp add: ready_def)
  with 1 show ?case
    by (subst parseAttrs.simps) (cases "parseAttr p", auto split: option.split)
qed

lemma ready_TakeAttrs [ready_rules]: "ready (TakeAttrs p)" "ready (ParseNestedAttrs dat)"
  by (auto simp: TakeAttrs_def ParseNestedAttrs_def intro: ready_rules)

lemma ready_getters [ready_rules]:
  "ready (GetUint16 attrs t)" "ready (GetUint32 attrs t)" "ready (GetString attrs t)"
  "ready (GetNestedAttrs attrs t opt)" "ready (GetOrderedAttrs attrs t)" "ready (GetFixedBytes attrs t n opt)"
  "ready (GetOptionalUint64 attrs t)" "ready (GetOptionalBytes attrs t dest)" "ready (GetEmpty attrs t)"
  "ready (GetOptionalUint8 attrs t)" "ready (GetOptionalUint16 attrs t)"
  by (auto simp: getter_defs GetNestedAttrs_def GetOrderedAttrs_def intro!: ready_rules)

lemma ready_parseDatapathInfo [ready_rules]: "ready (parseDatapathInfo dpif msg cmd)"
  by (auto simp: parseDatapathInfo_def intro!: ready_rules)

lemma ready_parseVport [ready_rules]: "ready (parseVport msg)"
proof -
  have "ready (udp_spec mk (parseUdpVportSpec name opts))" for mk name opts
    using ready_getters(1) [of opts OVS_TUNNEL_ATTR_DST_PORT]
    by (cases "GetUint16 opts OVS_TUNNEL_ATTR_DST_PORT") (simp_all add: udp_spec_def parseUdpVportSpec_def)
  then show ?thesis by (auto simp: parseVport_def Let_def intro!: ready_rules)
qed

lemma ready_parseTunnelAttrs [ready_rules]: "ready (parseTunnelAttrs attrs)" "ready (parseTunnelAttrsData dat)"
  by (auto simp: parseTunnelAttrs_def parseTunnelAttrsData_def Let_def intro!: ready_rules)

lemma ready_flow_key_parsers [ready_rules]:
  "ready (parseBlobFlowKey t key msk sz)" "ready (parseUnknownFlowKey t key msk exact)"
  "ready (parseInPortFlowKey t key msk exact)" "ready (parseTunnelFlowKey t key msk exact)"
  "ready (parse (blobFlowKeyParser sz wrap) t key msk exact)"
proof -
  show blob: "ready (parseBlobFlowKey t key msk sz)" for t key msk sz
    by (auto simp: parseBlobFlowKey_def Let_def intro!: ready_rules)
  then show "ready (parseInPortFlowKey t key msk exact)" "ready (parse (blobFlowKeyParser sz wrap) t key msk exact)"
    by (auto simp: parseInPortFlowKey_def blobFlowKeyParser_def Let_def intro!: ready_rules)
qed (auto simp: parseUnknownFlowKey_def parseTunnelFlowKey_def intro!: ready_rules)

lemma ready_parser: "ready (parse (parser_for t) t key msk exact)"
proof (cases "flowKeyParsers t")
  case (Some p)
  then have "ready (parse p t key msk exact)"
    by (auto simp: flowKeyParsers_def ethernetFlowKeyParser_def intro: ready_rules split: if_splits)
  then show ?thesis using Some by (simp add: parser_for_def)
qed (auto simp: parser_for_def intro: ready_rules)

lemma ready_ParseFlowKeys [ready_rules]: "ready (ParseFlowKeys ordK ordM keys masks)"
proof -
  have "ready (parse_key_loop keys masks ts r)" for ts r
    by (induction ts arbitrary: r) (auto simp: Let_def intro!: ready_rules ready_parser)
  moreover have "ready (parse_mask_loop keys ms ts r)" for ms ts r
    by (induction ts arbitrary: r) (auto intro!: ready_rules ready_parser)
  ultimately show ?thesis by (auto simp: ParseFlowKeys_def intro!: ready_rules)
qed

lemma ready_parse_actions [ready_rules]: "ready (parse_actions rng as acc)"
proof -
  have set: "ready (parseSetAction rng t dat)" for t dat
    by (auto simp: parseSetAction_def makeSetTunnelAction_def split: list.split intro!: ready_rules)
  have "ready (p t dat)" if "actionParsers rng t = Some p" for t p dat
    using that set
    by (auto simp: actionParsers_def parseOutputAction_def split: if_splits intro!: ready_rules)
  then show ?thesis
    by (induction as arbitrary: acc) (auto split: option.split intro!: ready_rules)
qed

lemma ready_parseFlowInfo [ready_rules]: "ready (parseFlowInfo rng attrs)"
  by (auto simp: parseFlowInfo_def parseFlowSpec_def Let_def intro!: ready_rules)

section \<open>The handlers of the package\<close>

text \<open>A handler that parses the message and, when that succeeds, updates its own state.\<close>

lemma parsing_handler_quiet:
  fixes h :: "'u handler"
  assumes "\<And>msg. ready (p msg)" "\<And>msg u w. h msg (u, w) = and_then (p msg, (u, w)) (\<lambda>x (u, w). (Ok (), (f x u, w)))"
  shows "quiet_handler h s"
proof
  fix msg and st :: "'u \<times> sys"
  obtain u w where st: "st = (u, w)" by (rule prod.exhaust)
  have p: "p msg \<noteq> Blocked b" for b using assms(1) [of msg] by (simp add: ready_def)
  show "fst (h msg st) \<noteq> Blocked OutOfFuel"
    using p by (cases "p msg") (simp_all add: st assms(2))
  show "inbox_of s (snd st') = inbox_of s (snd st)" if "h msg st = (r, st')" for r st'
    using that by (cases "p msg") (auto simp: st assms(2))
qed

interpretation quiet_datapaths: quiet_handler "enum_datapath_handler dpif" s for dpif s
  by (rule parsing_handler_quiet [where p = "\<lambda>msg. parseDatapathInfo dpif msg (uint OVS_DP_CMD_GET)" and
        f = "\<lambda>dpi res. res(di_name dpi \<mapsto> \<lparr>dp_dpif = dpif, dp_ifindex = di_ifindex dpi\<rparr>)"])
    (auto simp: enum_datapath_handler_def intro: ready_rules)

interpretation quiet_vports: quiet_handler "enum_vport_handler dp" s for dp s
  by (rule parsing_handler_quiet [where f = "\<lambda>(vid, spec) res. res @ [\<lparr>vp_ID = vid, vp_Spec = spec\<rparr>]" and
        p = "\<lambda>msg. res_bind (dp_checkNlMsgHeaders dp msg VPORT (uint OVS_VPORT_CMD_GET)) parseVport"])
    (auto simp: enum_vport_handler_def split_def intro: ready_rules)

interpretation quiet_flows: quiet_handler "enum_flow_handler rng dp" s for rng dp s
  by (rule parsing_handler_quiet [where f = "\<lambda>fi res. res @ [fi]" and
        p = "\<lambda>msg. res_bind (parseFlowMsg dp msg (uint OVS_FLOW_CMD_GET)) (parseFlowInfo rng)"])
    (auto simp: enum_flow_handler_def parseFlowMsg_def intro!: ready_rules)

lemma ovs_dump_in_time:
  assumes "quiet_handler h (dpif_sock dpif)" "RECV_BUF + 2 \<le> fuel w" "length (inbox_of (dpif_sock dpif) w) < fuel w"
  shows "fst (ovs_dump dpif family cmd version ifindex h s w) \<noteq> Blocked OutOfFuel"
proof (rule build_msg_spec [OF skip_gen_emits, of dpif family DumpFlags cmd version ifindex w])
  let ?w = "w\<lparr>heaps := (\<lambda>i. heaps w (Suc i))\<rparr>"
  fix m
  assume b: "build_msg dpif family DumpFlags cmd version ifindex skip_gen w = (Ok m, ?w)"
  obtain r u v where r: "RequestMulti (dpif_sock dpif) m h (s, ?w) = (r, (u, v))" by (metis prod.exhaust)
  have "r \<noteq> Blocked OutOfFuel"
    using requests_in_time [of ?w "dpif_sock dpif" h m s] assms r by (simp add: inbox_of_def)
  then show ?thesis using b r by (cases r) (simp_all add: ovs_dump_def)
qed

section \<open>Properties\<close>

text \<open>
  Property C23: the enumerations end or wait for the kernel, whatever bytes arrive.  With fuel for
  the receive buffer and the pending datagrams, \<^verbatim>\<open>EnumerateDatapaths\<close>, \<^verbatim>\<open>EnumerateVports\<close> and
  \<^verbatim>\<open>EnumerateFlows\<close> do not run out of it.
\<close>

theorem enumerations_do_not_spin:
  assumes "RECV_BUF + 2 \<le> fuel w" "length (inbox_of (dpif_sock (dp_dpif dp)) w) < fuel w"
  shows "fst (EnumerateDatapaths (dp_dpif dp) w) \<noteq> Blocked OutOfFuel \<and>
    fst (EnumerateVports dp w) \<noteq> Blocked OutOfFuel \<and> fst (EnumerateFlows rng dp w) \<noteq> Blocked OutOfFuel"
  unfolding EnumerateDatapaths_def EnumerateVports_def EnumerateFlows_def
  using ovs_dump_in_time [OF quiet_datapaths.quiet_handler_axioms assms]
    ovs_dump_in_time [OF quiet_vports.quiet_handler_axioms assms]
    ovs_dump_in_time [OF quiet_flows.quiet_handler_axioms assms] by blast

theorem enumerations_do_not_spin_witness:
  "fst (EnumerateVports demo_datapath (idle_sys [Datagram (replicate 15 7) (NetlinkAddr 0), RecvErr 4]))
     \<noteq> Blocked OutOfFuel"
  using enumerations_do_not_spin [of "idle_sys [Datagram (replicate 15 7) (NetlinkAddr 0), RecvErr 4]" demo_datapath]
  by (simp add: RECV_BUF_def)

end
