(* ===== verification/Go_Text.thy ===== *)
theory Go_Text
  imports Go_Prelude
begin

text \<open>
  The text functions of the Go standard library that the command line tool uses: splitting and
  joining, hexadecimal and decimal numbers, MAC and IP addresses.  They follow the library of
  the Go releases the repository was written for (no underscores or binary prefixes in
  numbers, leading zeros allowed in IPv4 addresses).  \<open>None\<close> is an error or a nil slice.
\<close>

section \<open>Splitting and joining\<close>

fun split_on :: "char \<Rightarrow> string \<Rightarrow> string list" where
  "split_on c [] = [[]]"
| "split_on c (x # xs) =
     (if x = c then [] # split_on c xs
      else case split_on c xs of [] \<Rightarrow> [[x]] | w # ws \<Rightarrow> (x # w) # ws)"

fun join :: "string \<Rightarrow> string list \<Rightarrow> string" where
  "join sep [] = []"
| "join sep [w] = w"
| "join sep (w # ws) = w @ sep @ join sep ws"

definition index_of :: "char \<Rightarrow> string \<Rightarrow> nat option" where
  "index_of c s = (if c \<in> set s then Some (length (takeWhile (\<lambda>x. x \<noteq> c) s)) else None)"

lemma split_on_nonempty [simp]: "split_on c s \<noteq> []"
  by (induction s) (auto split: list.split)

lemma split_on_word: "c \<notin> set w \<Longrightarrow> split_on c w = [w]"
  by (induction w) auto

lemma split_on_Cons: "c \<notin> set w \<Longrightarrow> split_on c (w @ c # s) = w # split_on c s"
  by (induction w) auto

lemma split_join:
  assumes "ws \<noteq> []" "\<forall>w \<in> set ws. c \<notin> set w"
  shows "split_on c (join [c] ws) = ws"
  using assms
proof (induction "[c]" ws rule: join.induct)
  case (3 w v ws)
  then show ?case by (simp add: split_on_Cons)
qed (simp_all add: split_on_word)

section \<open>Digits\<close>

definition digit_val :: "char \<Rightarrow> nat option" where
  "digit_val c = (let n = of_char c in
     if 48 \<le> n \<and> n \<le> 57 then Some (n - 48)
     else if 97 \<le> n \<and> n \<le> 122 then Some (n - 87)
     else if 65 \<le> n \<and> n \<le> 90 then Some (n - 55) else None)"

fun parse_digits :: "nat \<Rightarrow> nat \<Rightarrow> string \<Rightarrow> nat option" where
  "parse_digits base acc [] = Some acc"
| "parse_digits base acc (c # cs) =
     (case digit_val c of
        Some d \<Rightarrow> if d < base then parse_digits base (acc * base + d) cs else None
      | None \<Rightarrow> None)"

text \<open>\<^verbatim>\<open>strconv.ParseUint\<close>; base 0 looks for a hexadecimal or octal prefix.\<close>

definition ParseUint :: "string \<Rightarrow> nat \<Rightarrow> nat \<Rightarrow> nat option" where
  "ParseUint s base bits =
     (if s = [] then None
      else
        let r = (if base \<noteq> 0 then parse_digits base 0 s
                 else case s of
                     x # y # t \<Rightarrow>
                       (if x = CHR ''0'' \<and> (y = CHR ''x'' \<or> y = CHR ''X'')
                        then if t = [] then None else parse_digits 16 0 t
                        else if x = CHR ''0'' then parse_digits 8 0 (y # t)
                        else parse_digits 10 0 s)
                   | [x] \<Rightarrow> (if x = CHR ''0'' then Some 0 else parse_digits 10 0 s)
                   | [] \<Rightarrow> None)
        in case r of Some n \<Rightarrow> if n < 2 ^ bits then Some n else None | None \<Rightarrow> None)"

definition ParseInt :: "string \<Rightarrow> nat \<Rightarrow> nat \<Rightarrow> int option" where
  "ParseInt s base bits =
     (case s of
        [] \<Rightarrow> None
      | c # t \<Rightarrow>
          let (neg, u) = (if c = CHR ''+'' then (False, t) else if c = CHR ''-'' then (True, t) else (False, s))
          in case ParseUint u base bits of
               None \<Rightarrow> None
             | Some n \<Rightarrow> if \<not> neg \<and> 2 ^ (bits - 1) \<le> n \<or> neg \<and> 2 ^ (bits - 1) < n then None
                         else Some (if neg then - int n else int n))"

text \<open>\<^verbatim>\<open>strconv.ParseBool\<close>, used by boolean flags.\<close>

definition ParseBool :: "string \<Rightarrow> bool option" where
  "ParseBool s =
     (if s \<in> {''1'', ''t'', ''T'', ''true'', ''TRUE'', ''True''} then Some True
      else if s \<in> {''0'', ''f'', ''F'', ''false'', ''FALSE'', ''False''} then Some False else None)"

lemma digit_val_digit: "d < 10 \<Longrightarrow> digit_val (digit d) = Some d"
  by (simp add: digit_val_def of_char_digit Let_def)

lemma parse_digits_append:
  "parse_digits b acc (s @ t) = Option.bind (parse_digits b acc s) (\<lambda>n. parse_digits b n t)"
  by (induction s arbitrary: acc) (auto split: option.split)

lemma parse_digits_show_nat [simp]: "parse_digits 10 0 (show_nat n) = Some n"
proof (induction n rule: show_nat.induct)
  case (1 n)
  then show ?case
    by (subst show_nat.simps) (simp add: parse_digits_append digit_val_digit)
qed

lemma show_nat_nonempty [simp]: "show_nat n \<noteq> []"
  by (subst show_nat.simps) simp

lemma set_show_nat: "c \<in> set (show_nat n) \<Longrightarrow> \<exists>d < 10. c = digit d"
proof (induction n rule: show_nat.induct)
  case (1 n)
  then show ?case
    by (subst (asm) (2) show_nat.simps)
      (auto split: if_splits intro: exI [of _ "n mod 10"] mod_less_divisor)
qed

lemma hd_show_nat: "0 < n \<Longrightarrow> \<exists>d. 0 < d \<and> d < 10 \<and> hd (show_nat n) = digit d"
proof (induction n rule: show_nat.induct)
  case (1 n)
  then show ?case
    by (subst show_nat.simps) (auto simp: hd_append)
qed

lemma digit_eq_0: "d < 10 \<Longrightarrow> digit d = CHR ''0'' \<longleftrightarrow> d = 0"
proof -
  assume "d < 10"
  then have "digit d = CHR ''0'' \<longleftrightarrow> 48 + d = (of_char (CHR ''0'') :: nat)"
    using of_char_digit [of d] of_char_eq_iff [of "digit d" "CHR ''0''", where ?'a = nat] by simp
  then show ?thesis by simp
qed

lemma ParseUint_show_nat:
  assumes "n < 2 ^ bits"
  shows "ParseUint (show_nat n) 0 bits = Some n" "ParseUint (show_nat n) 10 bits = Some n"
proof -
  show "ParseUint (show_nat n) 10 bits = Some n" using assms by (simp add: ParseUint_def)
  show "ParseUint (show_nat n) 0 bits = Some n"
  proof (cases "n = 0")
    case True
    then show ?thesis using digit_eq_0 [of 0] by (simp add: ParseUint_def show_nat.simps [of 0])
  next
    case False
    then obtain d where d: "0 < d" "d < 10" "hd (show_nat n) = digit d" using hd_show_nat by blast
    obtain x t where s: "show_nat n = x # t" by (cases "show_nat n") simp_all
    then have "x \<noteq> CHR ''0''" using d digit_eq_0 by simp
    moreover have "parse_digits 10 0 (x # t) = Some n" using s parse_digits_show_nat by metis
    ultimately show ?thesis using assms by (cases t) (simp_all add: ParseUint_def s)
  qed
qed

lemma ParseInt_show_nat:
  assumes "n < 2 ^ 63"
  shows "ParseInt (show_nat n) 0 64 = Some (int n)"
proof -
  obtain x t where s: "show_nat n = x # t" by (cases "show_nat n") simp_all
  then obtain d where "d < 10" "x = digit d" using set_show_nat [of x n] by auto
  then have "x \<noteq> CHR ''+''" "x \<noteq> CHR ''-''"
    using of_char_digit [of d] by auto
  moreover have "ParseUint (x # t) 0 64 = Some n" using ParseUint_show_nat(1) [of n 64] assms s by simp
  ultimately show ?thesis using assms by (simp add: ParseInt_def s)
qed

section \<open>Hexadecimal\<close>

definition hex_val :: "char \<Rightarrow> nat option" where
  "hex_val c = (case digit_val c of Some d \<Rightarrow> if d < 16 then Some d else None | None \<Rightarrow> None)"

definition hex_char :: "nat \<Rightarrow> char" where
  "hex_char d = (if d < 10 then digit d else char_of (87 + d))"

definition hex_byte :: "byte \<Rightarrow> string" where
  "hex_byte b = [hex_char (unat b div 16), hex_char (unat b mod 16)]"

definition read_hex2 :: "char \<Rightarrow> char \<Rightarrow> byte option" where
  "read_hex2 a b = (case (hex_val a, hex_val b) of
       (Some x, Some y) \<Rightarrow> Some (of_nat (16 * x + y)) | _ \<Rightarrow> None)"

definition EncodeToString :: "bytes \<Rightarrow> string" where
  "EncodeToString bs = concat (map hex_byte bs)"

fun DecodeString :: "string \<Rightarrow> bytes option" where
  "DecodeString [] = Some []"
| "DecodeString [c] = None"
| "DecodeString (a # b # s) =
     Option.bind (read_hex2 a b) (\<lambda>x. map_option ((#) x) (DecodeString s))"

lemma hex_val_char: "d < 16 \<Longrightarrow> hex_val (hex_char d) = Some d"
  by (auto simp: hex_val_def hex_char_def digit_val_def of_char_digit Let_def)

lemma read_hex2_byte: "read_hex2 (hex_char (unat b div 16)) (hex_char (unat b mod 16)) = Some b"
proof -
  have "unat b < 256" using unsigned_less [of b] by simp
  then have "unat b div 16 < 16" by simp
  then show ?thesis by (simp add: read_hex2_def hex_val_char)
qed

lemma DecodeString_Encode [simp]: "DecodeString (EncodeToString bs) = Some bs"
  by (induction bs) (simp_all add: EncodeToString_def hex_byte_def read_hex2_byte)

section \<open>MAC addresses\<close>

definition HardwareAddr_String :: "bytes \<Rightarrow> string" where
  "HardwareAddr_String a = join '':'' (map hex_byte a)"

definition xtoi2 :: "string \<Rightarrow> char \<Rightarrow> byte option" where
  "xtoi2 s e = (case s of a # b # t \<Rightarrow> if t \<noteq> [] \<and> hd t \<noteq> e then None else read_hex2 a b | _ \<Rightarrow> None)"

fun mac_bytes :: "nat \<Rightarrow> string \<Rightarrow> char \<Rightarrow> bytes option" where
  "mac_bytes 0 s e = Some []"
| "mac_bytes (Suc n) s e = Option.bind (xtoi2 s e) (\<lambda>x. map_option ((#) x) (mac_bytes n (drop 3 s) e))"

fun mac_words :: "nat \<Rightarrow> string \<Rightarrow> char \<Rightarrow> bytes option" where
  "mac_words 0 s e = Some []"
| "mac_words (Suc n) s e =
     Option.bind (xtoi2 (take 2 s) (char_of (0 :: nat))) (\<lambda>x.
     Option.bind (xtoi2 (drop 2 s) e) (\<lambda>y.
     map_option (\<lambda>ys. x # y # ys) (mac_words n (drop 5 s) e)))"

definition ParseMAC :: "string \<Rightarrow> bytes option" where
  "ParseMAC s =
     (if length s < 14 then None
      else if s ! 2 = CHR '':'' \<or> s ! 2 = CHR ''-''
      then (let n = (length s + 1) div 3 in
        if (length s + 1) mod 3 \<noteq> 0 \<or> n \<notin> {6, 8, 20} then None else mac_bytes n s (s ! 2))
      else if s ! 4 = CHR ''.''
      then (let n = 2 * (length s + 1) div 5 in
        if (length s + 1) mod 5 \<noteq> 0 \<or> n \<notin> {6, 8, 20} then None else mac_words (n div 2) s (s ! 4))
      else None)"

lemma mac_bytes_string:
  assumes "a \<noteq> []"
  shows "mac_bytes (length a) (HardwareAddr_String a) (CHR '':'') = Some a"
  using assms
proof (induction a)
  case (Cons b bs)
  show ?case
  proof (cases bs)
    case Nil
    then show ?thesis by (simp add: HardwareAddr_String_def xtoi2_def hex_byte_def read_hex2_byte)
  next
    case (Cons b' bs')
    then show ?thesis using \<open>bs \<noteq> [] \<Longrightarrow> _\<close>
      by (simp add: HardwareAddr_String_def xtoi2_def hex_byte_def read_hex2_byte)
  qed
qed simp

lemma length_HardwareAddr_String: "a \<noteq> [] \<Longrightarrow> length (HardwareAddr_String a) = 3 * length a - 1"
proof (induction a)
  case (Cons b bs)
  then show ?case by (cases bs) (auto simp: HardwareAddr_String_def hex_byte_def)
qed simp

lemma ParseMAC_String:
  assumes "length a = 6"
  shows "ParseMAC (HardwareAddr_String a) = Some a"
proof -
  have "a \<noteq> []" using assms by auto
  then have len: "length (HardwareAddr_String a) = 17" using length_HardwareAddr_String [of a] assms by simp
  have "HardwareAddr_String a ! 2 = CHR '':''"
  proof -
    obtain x y t where "a = x # y # t"
      using assms by (cases a; cases "tl a") auto
    then show ?thesis by (simp add: HardwareAddr_String_def hex_byte_def)
  qed
  then show ?thesis using mac_bytes_string [OF \<open>a \<noteq> []\<close>] assms by (simp add: ParseMAC_def len)
qed

section \<open>IP addresses\<close>

definition is_digit :: "char \<Rightarrow> bool" where
  "is_digit c \<longleftrightarrow> (let n = of_char c :: nat in 48 \<le> n \<and> n \<le> 57)"

text \<open>Four numbers up to 255 with dots between them; \<open>n\<close> counts those still to be read.\<close>

fun ipv4_parts :: "nat \<Rightarrow> string \<Rightarrow> bytes option" where
  "ipv4_parts 0 s = (if s = [] then Some [] else None)"
| "ipv4_parts (Suc n) s =
     (let ds = takeWhile is_digit s; rest = dropWhile is_digit s; v = read_nat ds in
      if ds = [] \<or> v > 255 then None
      else map_option ((#) (of_nat v))
        (if n = 0 then ipv4_parts 0 rest
         else case rest of [] \<Rightarrow> None | c # t \<Rightarrow> if c \<noteq> CHR ''.'' then None else ipv4_parts n t))"

definition v4_in_v6 :: "bytes \<Rightarrow> bytes" where
  "v4_in_v6 p = replicate 10 0 @ [0xff, 0xff] @ p"

text \<open>
  The loop of \<^verbatim>\<open>parseIPv6\<close>: the bytes so far, the position of the ellipsis, the rest of the text;
  the first argument counts the groups that still fit.  At its end, the bytes, the ellipsis and
  the unread text.
\<close>

fun ipv6_loop :: "nat \<Rightarrow> bytes \<Rightarrow> nat option \<Rightarrow> string \<Rightarrow> (bytes \<times> nat option \<times> string) option" where
  "ipv6_loop 0 ip ell s = Some (ip, ell, s)"
| "ipv6_loop (Suc k) ip ell s =
     (let hs = takeWhile (\<lambda>c. hex_val c \<noteq> None) s; rest = dropWhile (\<lambda>c. hex_val c \<noteq> None) s in
      case parse_digits 16 0 hs of
        None \<Rightarrow> None
      | Some n \<Rightarrow>
          (if hs = [] \<or> n > 0xffff then None
           else if rest \<noteq> [] \<and> hd rest = CHR ''.''
           then (if ell = None \<and> length ip \<noteq> 12 \<or> length ip + 4 > 16 then None
                 else map_option (\<lambda>p. (ip @ p, ell, [])) (ipv4_parts 4 s))
           else (let ip = ip @ [of_nat (n div 256), of_nat n] in
             case rest of
               [] \<Rightarrow> Some (ip, ell, [])
             | [c] \<Rightarrow> None
             | c # d # t \<Rightarrow>
                 (if c \<noteq> CHR '':'' then None
                  else if d = CHR '':''
                  then (if ell \<noteq> None then None
                        else if t = [] then Some (ip, Some (length ip), [])
                        else ipv6_loop k ip (Some (length ip)) t)
                  else ipv6_loop k ip ell (d # t)))))"

definition parseIPv6 :: "string \<Rightarrow> bytes option" where
  "parseIPv6 s =
     (if s = ''::'' then Some (replicate 16 0)
      else
        let (ell, s) = (if take 2 s = ''::'' then (Some 0, drop 2 s) else (None, s)) in
        case ipv6_loop 8 [] ell s of
          None \<Rightarrow> None
        | Some (ip, ell, rest) \<Rightarrow>
            if rest \<noteq> [] then None
            else if length ip < 16
            then map_option (\<lambda>e. take e ip @ replicate (16 - length ip) 0 @ drop e ip) ell
            else if ell \<noteq> None then None else Some ip)"

text \<open>The first dot or colon decides which parser is used.\<close>

definition ParseIP :: "string \<Rightarrow> bytes option" where
  "ParseIP s = (case dropWhile (\<lambda>c. c \<noteq> CHR ''.'' \<and> c \<noteq> CHR '':'') s of
       [] \<Rightarrow> None
     | c # _ \<Rightarrow> if c = CHR ''.'' then map_option v4_in_v6 (ipv4_parts 4 s) else parseIPv6 s)"

definition To4 :: "bytes \<Rightarrow> bytes option" where
  "To4 ip = (if length ip = 4 then Some ip
     else if length ip = 16 \<and> take 12 ip = replicate 10 0 @ [0xff, 0xff] then Some (drop 12 ip) else None)"

definition IPv4_String :: "bytes \<Rightarrow> string" where
  "IPv4_String p = join ''.'' (map (\<lambda>b. show_nat (unat b)) p)"

lemma is_digit_digit: "d < 10 \<Longrightarrow> is_digit (digit d)"
  by (simp add: is_digit_def of_char_digit Let_def)

lemma digits_show_nat: "takeWhile is_digit (show_nat n @ CHR ''.'' # t) = show_nat n"
    "dropWhile is_digit (show_nat n @ CHR ''.'' # t) = CHR ''.'' # t"
    "takeWhile is_digit (show_nat n) = show_nat n" "dropWhile is_digit (show_nat n) = []"
proof -
  have all: "\<And>c. c \<in> set (show_nat n) \<Longrightarrow> is_digit c" using set_show_nat is_digit_digit by blast
  moreover have "\<not> is_digit (CHR ''.'')" by (simp add: is_digit_def)
  ultimately show "takeWhile is_digit (show_nat n @ CHR ''.'' # t) = show_nat n"
    "dropWhile is_digit (show_nat n @ CHR ''.'' # t) = CHR ''.'' # t"
    "takeWhile is_digit (show_nat n) = show_nat n" "dropWhile is_digit (show_nat n) = []"
    by (simp_all add: takeWhile_append2 dropWhile_append2 takeWhile_eq_all_conv)
qed

lemma ipv4_parts_String:
  assumes "p \<noteq> []"
  shows "ipv4_parts (length p) (IPv4_String p) = Some p"
  using assms
proof (induction p)
  case (Cons b bs)
  have b: "unat b < 256" using unsigned_less [of b] by simp
  show ?case
  proof (cases bs)
    case Nil
    then show ?thesis using b by (simp add: IPv4_String_def digits_show_nat)
  next
    case (Cons b' bs')
    then show ?thesis using b \<open>bs \<noteq> [] \<Longrightarrow> _\<close>
      by (simp add: IPv4_String_def digits_show_nat Let_def)
  qed
qed simp

lemma ParseIP_String:
  assumes "length p = 4"
  shows "Option.bind (ParseIP (IPv4_String p)) To4 = Some p"
proof -
  have "p \<noteq> []" using assms by auto
  then have parts: "ipv4_parts 4 (IPv4_String p) = Some p" using ipv4_parts_String assms by metis
  obtain x y t where p: "p = x # y # t" using assms by (cases p; cases "tl p") auto
  have sep: "x \<noteq> CHR ''.'' \<and> x \<noteq> CHR '':''" if "x \<in> set (show_nat n)" for x n
  proof -
    obtain d where "d < 10" "x = digit d" using set_show_nat \<open>x \<in> set (show_nat n)\<close> by blast
    then show ?thesis using of_char_digit [of d] by auto
  qed
  have "dropWhile (\<lambda>c. c \<noteq> CHR ''.'' \<and> c \<noteq> CHR '':'') (show_nat n @ CHR ''.'' # s) = CHR ''.'' # s" for n s
    using dropWhile_append2 [of "show_nat n" "\<lambda>c. c \<noteq> CHR ''.'' \<and> c \<noteq> CHR '':''" "CHR ''.'' # s"] sep by simp
  then have "ParseIP (IPv4_String p) = Some (v4_in_v6 p)"
    using parts by (simp add: ParseIP_def p IPv4_String_def)
  then show ?thesis using assms by (simp add: To4_def v4_in_v6_def)
qed

end
