(* ===== verification/Tool_Dispatch.thy ===== *)
theory Tool_Dispatch
  imports Go_Text "HOL-Library.Sublist" "HOL-Library.Multiset"
begin

text \<open>
  The command line of \<^verbatim>\<open>tool/odp/main.go\<close>: the table of commands, the choice of a command by name
  or by a unique prefix, the usage text, and \<^verbatim>\<open>Flags.Parse\<close> on top of Go's \<^verbatim>\<open>flag\<close> package.
\<close>

section \<open>Commands\<close>

text \<open>
  A map of subcommands is a list of pairs; the order of the list is the order in which a loop
  ranges over the map, so that a statement about a map is one about all permutations.
\<close>

datatype 'h commandDispatch =
    Command string string 'h
  | Subcommands "(string \<times> 'h commandDispatch) list"
  | PossibleSubcommands "'h commandDispatch" "(string \<times> 'h commandDispatch) list"

text \<open>One usage line per command, with \<^verbatim>\<open>%-45s\<close>.\<close>

definition pad_right :: "nat \<Rightarrow> string \<Rightarrow> string" where
  "pad_right n s = s @ replicate (n - length s) (CHR '' '')"

fun usage :: "'h commandDispatch \<Rightarrow> string list \<Rightarrow> string list"
and usage_all :: "(string \<times> 'h commandDispatch) list \<Rightarrow> string list \<Rightarrow> string list" where
  "usage (Command argsText descr h) path =
     [pad_right 45 (join '' '' (path @ (if argsText = [] then [] else [argsText]))) @ '' '' @ descr]"
| "usage (Subcommands cmds) path = usage_all cmds path"
| "usage (PossibleSubcommands c cmds) path = usage c path @ usage_all cmds path"
| "usage_all [] path = []"
| "usage_all ((name, cd) # cmds) path = usage cd (path @ [name]) @ usage_all cmds path"

text \<open>The loop of \<^verbatim>\<open>subcommands.run\<close>: the last match and the number of matches so far.\<close>

fun match_loop :: "string \<Rightarrow> (string \<times> 'c) list \<Rightarrow> 'c option \<Rightarrow> nat \<Rightarrow> 'c option \<times> nat" where
  "match_loop a [] match matches = (match, matches)"
| "match_loop a ((name, cd) # cmds) match matches =
     (if name = a then (Some cd, 1)
      else if prefix a name then match_loop a cmds (Some cd) (matches + 1)
      else match_loop a cmds match matches)"

text \<open>What \<^verbatim>\<open>run\<close> does: print a message and return false, print the usage, or call a command.\<close>

datatype 'h decision =
    SubcommandRequired "string list"
  | Usage "string list"
  | UnknownCommand "string list"
  | AmbiguousCommand "string list"
  | Invoke 'h "string list"

lemma match_loop_in:
  "match_loop a cmds match n = (Some c, m) \<Longrightarrow> c \<in> snd ` set cmds \<or> match = Some c"
  by (induction a cmds match n rule: match_loop.induct) (auto split: if_splits)

lemma size_match:
  assumes "match_loop a cmds None 0 = (Some c, m)"
  shows "size c < size (Subcommands cmds)"
proof -
  obtain x where x: "x \<in> set cmds" "c = snd x" using match_loop_in [OF assms] by auto
  have "size (snd x) \<le> size_prod (\<lambda>_. 0) size x" by (cases x) simp
  also have "\<dots> \<le> size_list (size_prod (\<lambda>_. 0) size) cmds" using x(1) by (rule size_list_estimation') simp
  finally show ?thesis using x(2) by simp
qed

text \<open>\<^verbatim>\<open>pos\<close> is at most the number of arguments wherever \<^verbatim>\<open>run\<close> is called.\<close>

function run :: "'h commandDispatch \<Rightarrow> string list \<Rightarrow> nat \<Rightarrow> 'h decision" where
  "run (Command argsText descr h) args pos = Invoke h (drop pos args)"
| "run (Subcommands cmds) args pos =
     (if length args \<le> pos then SubcommandRequired (take pos args)
      else if args ! pos = ''help'' then Usage (usage_all cmds (take pos args))
      else case match_loop (args ! pos) cmds None 0 of (match, matches) \<Rightarrow>
        if matches = 0 then UnknownCommand (take (pos + 1) args)
        else if matches > 1 then AmbiguousCommand (take (pos + 1) args)
        else case match of None \<Rightarrow> UnknownCommand (take (pos + 1) args) | Some cd \<Rightarrow> run cd args (pos + 1))"
| "run (PossibleSubcommands c cmds) args pos =
     (if length args \<le> pos then run c args pos else run (Subcommands cmds) args pos)"
  by pat_completeness auto
termination
proof (relation "measure (\<lambda>(c, args, pos).
    2 * size c + (case c of PossibleSubcommands _ _ \<Rightarrow> 1 | _ \<Rightarrow> 0))", goal_cases)
  case (2 cmds args pos match matches cd)
  then show ?case using size_match [of "args ! pos" cmds cd matches]
    by (cases cd) auto
qed (simp_all split: commandDispatch.split)

section \<open>The table of commands\<close>

datatype handler =
    ListDatapaths | AddDatapath | DeleteDatapath | ListenOnDatapath
  | ListVports | AddNetdevVport | AddInternalVport | AddVxlanVport | AddGreVport | AddGeneveVport
  | DeleteVportCmd | ListenForVports
  | AddFlow | DeleteFlowCmd | ClearFlowCmd | ListFlows

definition datapath_commands :: "(string \<times> handler commandDispatch) list" where
  "datapath_commands =
     [(''add'', Command ''<datapath>'' ''Add datapath'' AddDatapath),
      (''delete'', Command ''<datapath>'' ''Delete datapath'' DeleteDatapath),
      (''list'', Command '''' ''List datapaths'' ListDatapaths),
      (''listen'', Command ''<datapath>'' ''Listen to misses on datapath'' ListenOnDatapath)]"

definition vport_add_commands :: "(string \<times> handler commandDispatch) list" where
  "vport_add_commands =
     [(''netdev'', Command ''<datapath> <netdev>'' ''Add netdev vport'' AddNetdevVport),
      (''internal'', Command ''<datapath> <vport>'' ''Add internal vport'' AddInternalVport),
      (''vxlan'', Command ''<datapath> <vport>'' ''Add vxlan vport'' AddVxlanVport),
      (''gre'', Command ''<datapath>'' ''Add gre vport'' AddGreVport),
      (''geneve'', Command ''<datapath>'' ''Add geneve vport'' AddGeneveVport)]"

definition vport_commands :: "(string \<times> handler commandDispatch) list" where
  "vport_commands =
     [(''add'', Subcommands vport_add_commands),
      (''delete'', Command ''<vport>'' ''Delete vport'' DeleteVportCmd),
      (''list'', Command ''[<datapath>]'' ''List vports'' ListVports),
      (''listen'', Command '''' ''Listen for vport changes'' ListenForVports)]"

definition flow_commands :: "(string \<times> handler commandDispatch) list" where
  "flow_commands =
     [(''add'', Command ''<datapath> <options>...'' ''Add flow'' AddFlow),
      (''delete'', Command ''<datapath> <options>...'' ''Delete flow'' DeleteFlowCmd),
      (''clear'', Command ''<datapath> <options>...'' ''Clear flow stats'' ClearFlowCmd),
      (''list'', Command ''<datapath>'' ''List flows'' ListFlows)]"

definition commands :: "handler commandDispatch" where
  "commands = Subcommands
     [(''datapath'', PossibleSubcommands (Command '''' ''List datapaths'' ListDatapaths) datapath_commands),
      (''vport'', PossibleSubcommands (Command '''' ''List vports'' ListVports) vport_commands),
      (''flow'', Subcommands flow_commands)]"

section \<open>Choosing a command\<close>

text \<open>The reference: the command of that name, or else the only one it abbreviates.\<close>

definition chosen :: "string \<Rightarrow> (string \<times> 'c) list \<Rightarrow> 'c option \<times> nat \<Rightarrow> bool" where
  "chosen a cmds r \<longleftrightarrow>
     (case map_of cmds a of
        Some c \<Rightarrow> r = (Some c, 1)
      | None \<Rightarrow> snd r = length (filter (\<lambda>(name, c). prefix a name) cmds) \<and>
          (snd r = 1 \<longrightarrow> (\<exists>name c. filter (\<lambda>(name, c). prefix a name) cmds = [(name, c)] \<and> fst r = Some c)))"

lemma match_loop_exact:
  "map_of cmds a = Some c \<Longrightarrow> distinct (map fst cmds) \<Longrightarrow> match_loop a cmds match n = (Some c, 1)"
  by (induction a cmds match n rule: match_loop.induct) (auto split: if_splits)

lemma match_loop_prefix:
  assumes "map_of cmds a = None"
  shows "snd (match_loop a cmds match n) = n + length (filter (\<lambda>(name, c). prefix a name) cmds)"
    "fst (match_loop a cmds match n) =
       (case filter (\<lambda>(name, c). prefix a name) cmds of [] \<Rightarrow> match | p # ps \<Rightarrow> Some (snd (last (p # ps))))"
  using assms by (induction a cmds match n rule: match_loop.induct) (auto split: list.splits if_splits)

lemma match_loop_chosen:
  assumes "distinct (map fst cmds)"
  shows "chosen a cmds (match_loop a cmds None 0)"
proof (cases "map_of cmds a")
  case None
  have "\<exists>name c. filter (\<lambda>(name, c). prefix a name) cmds = [(name, c)] \<and> fst (match_loop a cmds None 0) = Some c"
    if "length (filter (\<lambda>(name, c). prefix a name) cmds) = 1"
    using that match_loop_prefix(2) [OF None, of None 0]
    by (cases "filter (\<lambda>(name, c). prefix a name) cmds") auto
  then show ?thesis using None match_loop_prefix(1) [OF None, of None 0] by (simp add: chosen_def)
next
  case (Some c)
  then show ?thesis using match_loop_exact [OF Some assms] by (simp add: chosen_def)
qed

lemma match_loop_permuted:
  assumes "mset cmds = mset cmds'" "distinct (map fst cmds)"
  shows "snd (match_loop a cmds None 0) = snd (match_loop a cmds' None 0)"
    "snd (match_loop a cmds None 0) = 1 \<Longrightarrow> match_loop a cmds None 0 = match_loop a cmds' None 0"
proof -
  let ?p = "\<lambda>(name, c). prefix a name"
  have d: "distinct (map fst cmds')"
    using assms by (metis mset_map mset_eq_imp_distinct_iff)
  have m: "map_of cmds = map_of cmds'"
    using assms d by (metis map_of_inject_set mset_eq_setD)
  have f: "mset (filter ?p cmds) = mset (filter ?p cmds')" using assms(1) by simp
  note c = match_loop_chosen [OF assms(2), of a] match_loop_chosen [OF d, of a]
  show eq: "snd (match_loop a cmds None 0) = snd (match_loop a cmds' None 0)"
    using c f by (auto simp: chosen_def m mset_eq_length split: option.splits)
  show "match_loop a cmds None 0 = match_loop a cmds' None 0" if one: "snd (match_loop a cmds None 0) = 1"
  proof (cases "map_of cmds' a")
    case None
    obtain n1 c1 n2 c2 where "filter ?p cmds = [(n1, c1)]" "fst (match_loop a cmds None 0) = Some c1"
      "filter ?p cmds' = [(n2, c2)]" "fst (match_loop a cmds' None 0) = Some c2"
      using c None m one eq by (auto simp: chosen_def)
    with f eq show ?thesis by (simp add: prod_eq_iff)
  next
    case (Some x)
    then show ?thesis using c m by (simp add: chosen_def)
  qed
qed

section \<open>Flags\<close>

text \<open>The variables of a flag set by name, with their kinds; first with the default values.\<close>

datatype flag_value = FString string | FInt int | FUint nat | FBool bool

type_synonym flag_set = "string \<rightharpoonup> flag_value"

datatype flag_error =
    BadFlagSyntax string
  | FlagNotDefined string
  | HelpRequested
  | InvalidFlagValue string string
  | FlagNeedsArgument string

fun set_flag :: "flag_value \<Rightarrow> string \<Rightarrow> flag_value option" where
  "set_flag (FString _) s = Some (FString s)"
| "set_flag (FInt _) s = map_option FInt (ParseInt s 0 64)"
| "set_flag (FUint _) s = map_option FUint (ParseUint s 0 64)"
| "set_flag (FBool _) s = map_option FBool (ParseBool s)"

fun is_bool_flag :: "flag_value \<Rightarrow> bool" where
  "is_bool_flag (FBool _) = True"
| "is_bool_flag _ = False"

text \<open>An equals sign after the first character separates the name from the value.\<close>

definition split_flag :: "string \<Rightarrow> string \<times> string option" where
  "split_flag nm =
     (let t = tl nm in
      if CHR ''='' \<in> set t
      then (hd nm # takeWhile (\<lambda>c. c \<noteq> CHR ''='') t, Some (tl (dropWhile (\<lambda>c. c \<noteq> CHR ''='') t)))
      else (nm, None))"

text \<open>\<^verbatim>\<open>FlagSet.Parse\<close>: the remaining arguments and the new values.\<close>

fun FlagSet_Parse :: "string list \<Rightarrow> flag_set \<Rightarrow> flag_error + string list \<times> flag_set" where
  "FlagSet_Parse [] fs = Inr ([], fs)"
| "FlagSet_Parse (s # rest) fs =
     (if length s < 2 \<or> s ! 0 \<noteq> CHR ''-'' then Inr (s # rest, fs)
      else if s = ''--'' then Inr (rest, fs)
      else
        let nm = (if s ! 1 = CHR ''-'' then drop 2 s else drop 1 s) in
        if nm ! 0 = CHR ''-'' \<or> nm ! 0 = CHR ''='' then Inl (BadFlagSyntax s)
        else case split_flag nm of (name, value) \<Rightarrow>
          case fs name of
            None \<Rightarrow> Inl (if name = ''help'' \<or> name = ''h'' then HelpRequested else FlagNotDefined name)
          | Some v \<Rightarrow>
              (if is_bool_flag v
               then (case set_flag v (case value of Some x \<Rightarrow> x | None \<Rightarrow> ''true'') of
                       None \<Rightarrow> Inl (InvalidFlagValue name (the value))
                     | Some v' \<Rightarrow> FlagSet_Parse rest (fs(name \<mapsto> v')))
               else case value of
                   Some x \<Rightarrow> (case set_flag v x of
                       None \<Rightarrow> Inl (InvalidFlagValue name x)
                     | Some v' \<Rightarrow> FlagSet_Parse rest (fs(name \<mapsto> v')))
                 | None \<Rightarrow> (case rest of
                       [] \<Rightarrow> Inl (FlagNeedsArgument name)
                     | x # rest' \<Rightarrow> (case set_flag v x of
                           None \<Rightarrow> Inl (InvalidFlagValue name x)
                         | Some v' \<Rightarrow> FlagSet_Parse rest' (fs(name \<mapsto> v'))))))"

fun findFirstOpt :: "string list \<Rightarrow> nat" where
  "findFirstOpt [] = 0"
| "findFirstOpt (arg # args) = (if arg \<noteq> [] \<and> arg ! 0 = CHR ''-'' then 0 else Suc (findFirstOpt args))"

text \<open>The process exits when a flag is wrong (the flag set was made so) or on a wrong count.\<close>

datatype exit_reason = FlagFailed flag_error | ExcessArguments | InsufficientArguments

definition Flags_Parse ::
    "flag_set \<Rightarrow> string list \<Rightarrow> nat \<Rightarrow> nat \<Rightarrow> exit_reason + string list \<times> flag_set" where
  "Flags_Parse fs fargs minArgs maxArgs =
     (let firstOpt = findFirstOpt fargs in
      case FlagSet_Parse (drop firstOpt fargs) fs of
        Inl e \<Rightarrow> Inl (FlagFailed e)
      | Inr (rest, fs) \<Rightarrow>
          let args = take firstOpt fargs @ rest in
          if length args > maxArgs then Inl ExcessArguments
          else if length args < minArgs then Inl InsufficientArguments
          else Inr (args, fs))"

section \<open>Options with their values\<close>

definition option_arg :: "string \<Rightarrow> string \<Rightarrow> string" where
  "option_arg name v = ''--'' @ name @ ''='' @ v"

text \<open>A name that can stand on the command line, and a value its flag takes.\<close>

definition flag_name :: "string \<Rightarrow> bool" where
  "flag_name name \<longleftrightarrow> name \<noteq> [] \<and> hd name \<noteq> CHR ''-'' \<and> CHR ''='' \<notin> set name"

lemma span_until: "c \<notin> set xs \<Longrightarrow> takeWhile (\<lambda>x. x \<noteq> c) (xs @ c # ys) = xs \<and> dropWhile (\<lambda>x. x \<noteq> c) (xs @ c # ys) = c # ys"
  by (induction xs) auto

lemma split_flag_option: "flag_name name \<Longrightarrow> split_flag (name @ CHR ''='' # v) = (name, Some v)"
  by (cases name) (auto simp: flag_name_def split_flag_def Let_def span_until)

lemma FlagSet_Parse_option:
  assumes "flag_name name" "fs name = Some old" "set_flag old v = Some new"
  shows "FlagSet_Parse (option_arg name v # rest) fs = FlagSet_Parse rest (fs(name \<mapsto> new))"
proof -
  have "(name @ CHR ''='' # v) ! 0 = hd name" "hd name \<noteq> CHR ''-''" "hd name \<noteq> CHR ''=''"
    using assms(1) by (cases name; auto simp: flag_name_def)+
  then show ?thesis
    using assms(2,3) split_flag_option [OF assms(1), of v]
    by (simp add: option_arg_def Let_def)
qed

lemma FlagSet_Parse_plain: "a = [] \<or> a ! 0 \<noteq> CHR ''-'' \<Longrightarrow> FlagSet_Parse (a # rest) fs = Inr (a # rest, fs)"
  by auto

declare FlagSet_Parse.simps(2) [simp del]

text \<open>Options set their flags one after the other.\<close>

fun set_flags :: "(string \<times> string) list \<Rightarrow> flag_set \<Rightarrow> flag_set option" where
  "set_flags [] fs = Some fs"
| "set_flags ((name, v) # opts) fs =
     (if flag_name name
      then Option.bind (fs name) (\<lambda>old. Option.bind (set_flag old v) (\<lambda>new. set_flags opts (fs(name \<mapsto> new))))
      else None)"

lemma FlagSet_Parse_options:
  "set_flags opts fs = Some fs' \<Longrightarrow>
    FlagSet_Parse (map (\<lambda>(name, v). option_arg name v) opts @ rest) fs = FlagSet_Parse rest fs'"
proof (induction opts fs rule: set_flags.induct)
  case (2 name v opts fs)
  from 2(2) obtain old new where "flag_name name" "fs name = Some old" "set_flag old v = Some new"
    "set_flags opts (fs(name \<mapsto> new)) = Some fs'"
    by (auto simp: bind_eq_Some_conv simp del: fun_upd_apply split: if_splits)
  with 2(1) show ?case by (simp add: FlagSet_Parse_option del: fun_upd_apply)
qed simp

lemma option_arg_dash: "option_arg name v \<noteq> []" "option_arg name v ! 0 = CHR ''-''"
  by (simp_all add: option_arg_def)

definition plain_arg :: "string \<Rightarrow> bool" where
  "plain_arg a \<longleftrightarrow> a = [] \<or> a ! 0 \<noteq> CHR ''-''"

lemma findFirstOpt_plain:
  assumes "list_all plain_arg args"
  shows "findFirstOpt (args @ map (\<lambda>(name, v). option_arg name v) opts) = length args"
  using assms
proof (induction args)
  case Nil
  then show ?case by (cases opts) (auto simp: option_arg_dash)
qed (auto simp: plain_arg_def)

section \<open>Properties\<close>

lemma usage_all_concat: "usage_all cmds path = concat (map (\<lambda>(name, cd). usage cd (path @ [name])) cmds)"
  by (induction cmds) auto

text \<open>
  Property C19: a command is found by its name or by an unambiguous abbreviation, whatever the order
  in which Go ranges over the map of commands; only the order of the lines of the help depends
  on it.  The full name of a command selects it even when it abbreviates another (\<^verbatim>\<open>list\<close> and
  \<^verbatim>\<open>listen\<close>).
\<close>

theorem command_choice:
  assumes "distinct (map fst cmds)" "mset cmds = mset cmds'"
  shows "(if pos < length args \<and> args ! pos = ''help''
     then \<exists>ls ls'. run (Subcommands cmds) args pos = Usage ls \<and> run (Subcommands cmds') args pos = Usage ls' \<and> mset ls = mset ls'
     else run (Subcommands cmds) args pos = run (Subcommands cmds') args pos) \<and>
    (\<forall>c. pos < length args \<and> args ! pos \<noteq> ''help'' \<and> map_of cmds (args ! pos) = Some c \<longrightarrow>
      run (Subcommands cmds) args pos = run c args (pos + 1))"
proof (intro conjI allI impI)
  let ?a = "args ! pos"
  obtain m n m' n' where r: "match_loop ?a cmds None 0 = (m, n)" "match_loop ?a cmds' None 0 = (m', n')"
    by (metis prod.exhaust)
  then have "n = n'" "n = 1 \<Longrightarrow> m = m'"
    using match_loop_permuted [OF assms(2,1), of ?a] by simp_all
  with r have "run (Subcommands cmds) args pos = run (Subcommands cmds') args pos" if "\<not> (pos < length args \<and> ?a = ''help'')"
    using that by auto
  moreover have "mset (usage_all cmds path) = mset (usage_all cmds' path)" for path
    using assms(2) by (simp add: usage_all_concat mset_concat flip: sum_mset_sum_list)
  ultimately show "if pos < length args \<and> ?a = ''help''
     then \<exists>ls ls'. run (Subcommands cmds) args pos = Usage ls \<and> run (Subcommands cmds') args pos = Usage ls' \<and> mset ls = mset ls'
     else run (Subcommands cmds) args pos = run (Subcommands cmds') args pos"
    by (auto simp del: run.simps(2)) (simp only: run.simps, auto)
  fix c
  assume "pos < length args \<and> ?a \<noteq> ''help'' \<and> map_of cmds ?a = Some c"
  then show "run (Subcommands cmds) args pos = run c args (pos + 1)"
    using match_loop_exact [of cmds ?a c None 0] assms(1) by simp
qed

theorem command_choice_witness:
  "run (Subcommands (rev datapath_commands)) [''odp'', ''datapath'', ''list''] 2 = Invoke ListDatapaths [] \<and>
   run (Subcommands (rev datapath_commands)) [''odp'', ''datapath'', ''lis''] 2 =
     AmbiguousCommand [''odp'', ''datapath'', ''lis'']"
  using command_choice [of datapath_commands "rev datapath_commands" 2 "[''odp'', ''datapath'', ''list'']"]
    command_choice [of datapath_commands "rev datapath_commands" 2 "[''odp'', ''datapath'', ''lis'']"]
  by (simp add: datapath_commands_def)

text \<open>
  Property C30: options may follow the other arguments or precede them.  In both orders \<^verbatim>\<open>Flags.Parse\<close>
  returns the arguments that are not options, and sets the flags to the values given.
\<close>

theorem options_before_or_after:
  assumes "set_flags opts fs = Some fs'" "list_all plain_arg args"
    "minArgs \<le> length args" "length args \<le> maxArgs"
  shows "Flags_Parse fs (args @ map (\<lambda>(name, v). option_arg name v) opts) minArgs maxArgs = Inr (args, fs') \<and>
    Flags_Parse fs (map (\<lambda>(name, v). option_arg name v) opts @ args) minArgs maxArgs = Inr (args, fs')"
proof (rule conjI)
  let ?opts = "map (\<lambda>(name, v). option_arg name v) opts"
  show "Flags_Parse fs (args @ ?opts) minArgs maxArgs = Inr (args, fs')"
    using findFirstOpt_plain [OF assms(2), of opts] FlagSet_Parse_options [OF assms(1), of "[]"] assms(3,4)
    by (simp add: Flags_Parse_def)
  have plain: "FlagSet_Parse args fs = Inr (args, fs)" for fs
    using assms(2) by (cases args) (auto simp: plain_arg_def FlagSet_Parse_plain)
  show "Flags_Parse fs (?opts @ args) minArgs maxArgs = Inr (args, fs')"
  proof (cases opts)
    case Nil
    then show ?thesis using findFirstOpt_plain [OF assms(2), of "[]"] assms by (simp add: Flags_Parse_def)
  next
    case (Cons o1 os)
    obtain n v where "o1 = (n, v)" by (rule prod.exhaust)
    then have "findFirstOpt (?opts @ args) = 0" by (simp add: Cons option_arg_dash)
    then show ?thesis
      using FlagSet_Parse_options [OF assms(1), of args] plain assms(3,4) by (simp add: Flags_Parse_def)
  qed
qed

theorem options_before_or_after_witness:
  "Flags_Parse [''port'' \<mapsto> FUint 4789] [''dp'', ''vx'', ''--port=5000''] 2 2 =
     Inr ([''dp'', ''vx''], [''port'' \<mapsto> FUint 5000])"
proof -
  have "ParseUint ''5000'' 0 64 = Some 5000" by (simp add: ParseUint_def digit_val_def)
  then have "set_flags [(''port'', ''5000'')] [''port'' \<mapsto> FUint 4789] = Some [''port'' \<mapsto> FUint 5000]"
    by (simp add: flag_name_def)
  from options_before_or_after [OF this, of "[''dp'', ''vx'']" 2 2] show ?thesis
    by (simp add: plain_arg_def option_arg_def)
qed

end
