(* ===== verification/Tool_Options.thy ===== *)
theory Tool_Options
  imports Tool_Dispatch Flow_Specs
begin

text \<open>
  The options of \<^verbatim>\<open>tool/odp/main.go\<close> that describe flows: reading addresses, tunnel options and
  Ethernet options, and printing keys and actions in the form of options.
\<close>

section \<open>Reading values\<close>

datatype option_error =
    MACSyntax string
  | InvalidMAC string
  | InvalidIpv4 string
  | HexSyntax string
  | InvalidTunnelId string
  | NotABool string
  | IncludesMask

definition sum_bind :: "'e + 'a \<Rightarrow> ('a \<Rightarrow> 'e + 'b) \<Rightarrow> 'e + 'b" where
  "sum_bind r f = (case r of Inl e \<Rightarrow> Inl e | Inr x \<Rightarrow> f x)"

lemma sum_bind_simps [simp]: "sum_bind (Inl e) f = Inl e" "sum_bind (Inr x) f = f x"
  by (simp_all add: sum_bind_def)

lemma sum_bind_cong [fundef_cong]: "r = r' \<Longrightarrow> (\<And>x. r' = Inr x \<Longrightarrow> f x = g x) \<Longrightarrow> sum_bind r f = sum_bind r' g"
  by (auto simp: sum_bind_def split: sum.split)

text \<open>The result is returned beside the error; it is zero when there is one.\<close>

definition parseMAC :: "string \<Rightarrow> bytes \<times> option_error option" where
  "parseMAC s = (case ParseMAC s of
       None \<Rightarrow> (replicate 6 0, Some (MACSyntax s))
     | Some hwa \<Rightarrow> if length hwa \<noteq> 6 then (replicate 6 0, Some (InvalidMAC s)) else (hwa, None))"

definition parseIpv4 :: "string \<Rightarrow> option_error + bytes" where
  "parseIpv4 s = (case Option.bind (ParseIP s) To4 of
       None \<Rightarrow> Inl (InvalidIpv4 s) | Some ip \<Rightarrow> if length ip \<noteq> 4 then Inl (InvalidIpv4 s) else Inr ip)"

definition ipv4ToString :: "bytes \<Rightarrow> string" where
  "ipv4ToString ip = (case To4 ip of Some p \<Rightarrow> IPv4_String p | None \<Rightarrow> ''<nil>'')"

definition parseTunnelId :: "string \<Rightarrow> option_error + bytes" where
  "parseTunnelId s = (case DecodeString s of
       None \<Rightarrow> Inl (HexSyntax s) | Some x \<Rightarrow> if length x = 8 then Inr x else Inl (InvalidTunnelId s))"

definition makeBoolStrings :: "string \<Rightarrow> string \<Rightarrow> (string \<rightharpoonup> bool)" where
  "makeBoolStrings trueStrs falseStrs =
     fold (\<lambda>s res. res(s \<mapsto> False)) (split_on (CHR '' '') falseStrs)
       (fold (\<lambda>s res. res(s \<mapsto> True)) (split_on (CHR '' '') trueStrs) Map.empty)"

definition boolStrings :: "string \<rightharpoonup> bool" where
  "boolStrings = makeBoolStrings ''1 t T true TRUE True'' ''0 f F false FALSE False''"

definition parseBool :: "string \<Rightarrow> option_error + bool" where
  "parseBool s = (case boolStrings s of None \<Rightarrow> Inl (NotABool s) | Some b \<Rightarrow> Inr b)"

section \<open>Tunnel options\<close>

record tunnelFlags =
  tfl_id :: string
  tfl_ipv4Src :: string
  tfl_ipv4Dst :: string
  tfl_tos :: int
  tfl_ttl :: int
  tfl_df :: string
  tfl_csum :: string
  tfl_tpsrc :: int
  tfl_tpdst :: int

text \<open>The flags are added to the set with their defaults; the record is read off it afterwards.\<close>

definition addTunnelFlags :: "string \<Rightarrow> flag_set \<Rightarrow> flag_set" where
  "addTunnelFlags pfx f = f(
     pfx @ ''id'' \<mapsto> FString '''', pfx @ ''ipv4-src'' \<mapsto> FString '''',
     pfx @ ''ipv4-dst'' \<mapsto> FString '''', pfx @ ''tos'' \<mapsto> FInt (- 1), pfx @ ''ttl'' \<mapsto> FInt (- 1),
     pfx @ ''df'' \<mapsto> FString '''', pfx @ ''csum'' \<mapsto> FString '''',
     pfx @ ''tp-src'' \<mapsto> FInt (- 1), pfx @ ''tp-dst'' \<mapsto> FInt (- 1))"

fun string_flag :: "flag_value option \<Rightarrow> string" where
  "string_flag (Some (FString s)) = s"
| "string_flag _ = ''''"

fun int_flag :: "flag_value option \<Rightarrow> int" where
  "int_flag (Some (FInt i)) = i"
| "int_flag _ = - 1"

definition tunnel_flags :: "string \<Rightarrow> flag_set \<Rightarrow> tunnelFlags" where
  "tunnel_flags pfx f =
     \<lparr>tfl_id = string_flag (f (pfx @ ''id'')), tfl_ipv4Src = string_flag (f (pfx @ ''ipv4-src'')),
      tfl_ipv4Dst = string_flag (f (pfx @ ''ipv4-dst'')), tfl_tos = int_flag (f (pfx @ ''tos'')),
      tfl_ttl = int_flag (f (pfx @ ''ttl'')), tfl_df = string_flag (f (pfx @ ''df'')),
      tfl_csum = string_flag (f (pfx @ ''csum'')), tfl_tpsrc = int_flag (f (pfx @ ''tp-src'')),
      tfl_tpdst = int_flag (f (pfx @ ''tp-dst''))\<rparr>"

text \<open>A field is set when its option was given.\<close>

definition string_option ::
    "string \<Rightarrow> (string \<Rightarrow> option_error + 'v) \<Rightarrow> ('v \<Rightarrow> TunnelFlowKey \<Rightarrow> TunnelFlowKey) \<Rightarrow> TunnelFlowKey \<Rightarrow> option_error + TunnelFlowKey" where
  "string_option s rd upd fk = (if s \<noteq> '''' then sum_bind (rd s) (\<lambda>v. Inr (upd v fk)) else Inr fk)"

definition int_option ::
    "int \<Rightarrow> ('n::len word \<Rightarrow> TunnelFlowKey \<Rightarrow> TunnelFlowKey) \<Rightarrow> TunnelFlowKey \<Rightarrow> option_error + TunnelFlowKey" where
  "int_option i upd fk = Inr (if 0 \<le> i then upd (of_int i) fk else fk)"

definition parseTunnelFlags :: "tunnelFlags \<Rightarrow> option_error + TunnelFlowKey" where
  "parseTunnelFlags tf =
     sum_bind (string_option (tfl_id tf) parseTunnelId SetTunnelId zero_tunnel_key) (\<lambda>fk.
     sum_bind (string_option (tfl_ipv4Src tf) parseIpv4 SetIpv4Src fk) (\<lambda>fk.
     sum_bind (string_option (tfl_ipv4Dst tf) parseIpv4 SetIpv4Dst fk) (\<lambda>fk.
     sum_bind (int_option (tfl_tos tf) SetTos fk) (\<lambda>fk.
     sum_bind (int_option (tfl_ttl tf) SetTtl fk) (\<lambda>fk.
     sum_bind (string_option (tfl_df tf) parseBool SetDf fk) (\<lambda>fk.
     sum_bind (string_option (tfl_csum tf) parseBool SetCsum fk) (\<lambda>fk.
     sum_bind (int_option (tfl_tpsrc tf) SetTpSrc fk) (\<lambda>fk.
     int_option (tfl_tpdst tf) SetTpDst fk))))))))"

text \<open>
  The closure \<^verbatim>\<open>present\<close> returns the flag and records whether a field is neither exact nor
  ignored.
\<close>

definition present_flag :: "bool \<Rightarrow> bool \<Rightarrow> bool \<times> bool" where
  "present_flag exact ignored = (if exact then (True, False) else (False, \<not> ignored))"

definition bytesPresent :: "bytes \<Rightarrow> bool \<times> bool" where
  "bytesPresent b = present_flag (AllBytes b 0xff) (AllBytes b 0)"

definition parseSetTunnelFlags :: "tunnelFlags \<Rightarrow> option_error + Action option" where
  "parseSetTunnelFlags tf =
     sum_bind (parseTunnelFlags tf) (\<lambda>fk.
     let m = tf_mask fk;
         (pid, f1) = bytesPresent (TunnelId m);
         (psrc, f2) = bytesPresent (Ipv4Src m);
         (pdst, f3) = bytesPresent (Ipv4Dst m);
         (ptos, f4) = present_flag (Tos m = 0xff) (Tos m = 0);
         (pttl, f5) = present_flag (Ttl m = 0xff) (Ttl m = 0);
         (ptpsrc, f6) = present_flag (TpSrc m = 0xffff) (TpSrc m = 0);
         (ptpdst, f7) = present_flag (TpDst m = 0xffff) (TpDst m = 0);
         pr = \<lparr>pTunnelId = pid, pIpv4Src = psrc, pIpv4Dst = pdst, pTos = ptos, pTtl = pttl,
               pDf = Df m, pCsum = Csum m, pTpSrc = ptpsrc, pTpDst = ptpdst\<rparr>
     in if f1 \<or> f2 \<or> f3 \<or> f4 \<or> f5 \<or> f6 \<or> f7 then Inl IncludesMask
        else if pid \<or> psrc \<or> pdst \<or> ptos \<or> pttl \<or> Df m \<or> Csum m \<or> ptpsrc \<or> ptpdst
        then Inr (Some (SetTunnelAction (tf_key fk) pr)) else Inr None)"

section \<open>Ethernet options\<close>

definition handleEthernetAddrOption :: "string \<Rightarrow> bytes \<times> bytes \<times> option_error option" where
  "handleEthernetAddrOption opt =
     (if opt = '''' then (replicate 6 0, replicate 6 0, None)
      else
        let (k, m) = (case index_of (CHR ''&'') opt of
              Some (Suc i) \<Rightarrow> (take (Suc i) opt, drop (Suc (Suc i)) opt)
            | _ \<Rightarrow> (opt, ''ff:ff:ff:ff:ff:ff''));
            (key, err) = parseMAC k
        in case err of
             Some e \<Rightarrow> (key, replicate 6 0, Some e)
           | None \<Rightarrow> (case parseMAC m of (msk, err) \<Rightarrow> (key, msk, err)))"

text \<open>The closure \<^verbatim>\<open>takeErr\<close> assigns the error of each option, the second over the first.\<close>

definition handleEthernetFlowKeyOptions :: "FlowSpec \<Rightarrow> string \<Rightarrow> string \<Rightarrow> (option_error + FlowSpec) res" where
  "handleEthernetFlowKeyOptions flow src dst =
     (case handleEthernetAddrOption src of (skey, smask, err) \<Rightarrow>
      res_bind (SetMaskedEthSrc skey smask NewEthernetFlowKey) (\<lambda>fk.
      case handleEthernetAddrOption dst of (dkey, dmask, err) \<Rightarrow>
      res_bind (SetMaskedEthDst dkey dmask fk) (\<lambda>fk.
      case err of Some e \<Rightarrow> Ok (Inl e) | None \<Rightarrow> Ok (Inr (AddKey (FK_Ethernet fk) flow)))))"

section \<open>Printing options\<close>

text \<open>Each element is what one \<^verbatim>\<open>Printf\<close> writes.\<close>

definition printBytesOption :: "string \<Rightarrow> bytes \<Rightarrow> bytes \<Rightarrow> (bytes \<Rightarrow> string) \<Rightarrow> string list" where
  "printBytesOption opt k m f =
     (if \<not> AllBytes m 0
      then if AllBytes m 0xff then ['' --'' @ opt @ ''='' @ f k]
           else ['' --'' @ opt @ ''='' @ [CHR 0x22] @ f k @ ''&'' @ f m @ [CHR 0x22]]
      else [])"

definition printEthAddrOption :: "string \<Rightarrow> bytes \<Rightarrow> bytes \<Rightarrow> string list" where
  "printEthAddrOption opt k m = printBytesOption opt k m HardwareAddr_String"

definition printIntOption :: "string \<Rightarrow> nat \<Rightarrow> nat \<Rightarrow> nat \<Rightarrow> string list" where
  "printIntOption opt k m allbits =
     (if m \<noteq> 0
      then if m = allbits then ['' --'' @ opt @ ''='' @ show_nat k]
           else ['' --'' @ opt @ ''='' @ [CHR 0x22] @ show_nat k @ ''&'' @ show_nat m @ [CHR 0x22]]
      else [])"

definition printTunnelOptions :: "TunnelFlowKey \<Rightarrow> string \<Rightarrow> string list" where
  "printTunnelOptions fk pfx =
     (let k = tf_key fk; m = tf_mask fk in
      printBytesOption (pfx @ ''id'') (TunnelId k) (TunnelId m) EncodeToString @
      printBytesOption (pfx @ ''ipv4-src'') (Ipv4Src k) (Ipv4Src m) ipv4ToString @
      printBytesOption (pfx @ ''ipv4-dst'') (Ipv4Dst k) (Ipv4Dst m) ipv4ToString @
      printIntOption (pfx @ ''tos'') (unat (Tos k)) (unat (Tos m)) 0xff @
      printIntOption (pfx @ ''ttl'') (unat (Ttl k)) (unat (Ttl m)) 0xff @
      (if Df m then ['' --'' @ pfx @ ''df='' @ show_bool (Df k)] else []) @
      (if Csum m then ['' --'' @ pfx @ ''csum='' @ show_bool (Csum k)] else []) @
      printIntOption (pfx @ ''tp-src'') (unat (TpSrc k)) (unat (TpSrc m)) 0xffff @
      printIntOption (pfx @ ''tp-dst'') (unat (TpDst k)) (unat (TpDst m)) 0xffff)"

definition printSetTunnelOptions :: "TunnelAttrs \<Rightarrow> TunnelAttrsPresence \<Rightarrow> string list" where
  "printSetTunnelOptions ta pr =
     (let fk = zero_tunnel_key;
          fk = (if pTunnelId pr then SetTunnelId (TunnelId ta) fk else fk);
          fk = (if pIpv4Src pr then SetIpv4Src (Ipv4Src ta) fk else fk);
          fk = (if pIpv4Dst pr then SetIpv4Dst (Ipv4Dst ta) fk else fk);
          fk = (if pTos pr then SetTos (Tos ta) fk else fk);
          fk = (if pTtl pr then SetTtl (Ttl ta) fk else fk);
          fk = (if pDf pr then SetDf (Df ta) fk else fk);
          fk = (if pCsum pr then SetCsum (Csum ta) fk else fk);
          fk = (if pTpSrc pr then SetTpSrc (TpSrc ta) fk else fk);
          fk = (if pTpDst pr then SetTpDst (TpDst ta) fk else fk)
      in printTunnelOptions fk ''set-tunnel-'')"

section \<open>Printed options are read back\<close>

text \<open>A tunnel key without partial masks: each field is matched exactly or not at all.\<close>

definition exact_key :: "TunnelAttrs \<Rightarrow> TunnelAttrsPresence \<Rightarrow> TunnelFlowKey" where
  "exact_key ta pr = \<lparr>tf_key = ta_restrict ta pr, tf_mask = tap_mask pr\<rparr>"

definition opt_if :: "bool \<Rightarrow> string \<Rightarrow> string \<Rightarrow> (string \<times> string) list" where
  "opt_if b n v = (if b then [(n, v)] else [])"

definition tunnel_opts :: "string \<Rightarrow> TunnelAttrs \<Rightarrow> TunnelAttrsPresence \<Rightarrow> (string \<times> string) list" where
  "tunnel_opts pfx ta pr =
     opt_if (pTunnelId pr) (pfx @ ''id'') (EncodeToString (TunnelId ta)) @
     opt_if (pIpv4Src pr) (pfx @ ''ipv4-src'') (IPv4_String (Ipv4Src ta)) @
     opt_if (pIpv4Dst pr) (pfx @ ''ipv4-dst'') (IPv4_String (Ipv4Dst ta)) @
     opt_if (pTos pr) (pfx @ ''tos'') (show_nat (unat (Tos ta))) @
     opt_if (pTtl pr) (pfx @ ''ttl'') (show_nat (unat (Ttl ta))) @
     opt_if (pDf pr) (pfx @ ''df'') (show_bool (Df ta)) @
     opt_if (pCsum pr) (pfx @ ''csum'') (show_bool (Csum ta)) @
     opt_if (pTpSrc pr) (pfx @ ''tp-src'') (show_nat (unat (TpSrc ta))) @
     opt_if (pTpDst pr) (pfx @ ''tp-dst'') (show_nat (unat (TpDst ta))) @ []"

definition printed :: "(string \<times> string) list \<Rightarrow> string list" where
  "printed opts = map (\<lambda>(name, v). '' '' @ option_arg name v) opts"

lemma printed_simps [simp]: "printed [] = []" "printed (a @ b) = printed a @ printed b"
  by (simp_all add: printed_def)

lemma printBytesOption_exact:
  "0 < n \<Longrightarrow> printBytesOption opt (if b then k else d) (if b then replicate n 0xff else replicate n 0) f =
     printed (opt_if b opt (f k))"
  by (simp add: printBytesOption_def printed_def opt_if_def option_arg_def)

lemma printIntOption_exact:
  "unat m = allbits \<Longrightarrow> 0 < allbits \<Longrightarrow>
     printIntOption opt (unat (if b then k else d)) (unat (if b then m else 0 :: 'n::len word)) allbits =
     printed (opt_if b opt (show_nat (unat k)))"
  by (simp add: printIntOption_def printed_def opt_if_def option_arg_def)

lemma print_bool_exact:
  "(if b then ['' --'' @ pfx @ n @ show_bool (b \<and> v)] else []) = printed (opt_if b (pfx @ m) (show_bool v))"
  if "n = m @ ''=''"
  by (simp add: that printed_def opt_if_def option_arg_def)

lemma printTunnelOptions_exact:
  assumes "ta_wf ta"
  shows "printTunnelOptions (exact_key ta pr) pfx = printed (tunnel_opts pfx ta pr)"
proof -
  let ?k = "ta_restrict ta pr" and ?m = "tap_mask pr"
  have ip: "ipv4ToString (Ipv4Src ta) = IPv4_String (Ipv4Src ta)" "ipv4ToString (Ipv4Dst ta) = IPv4_String (Ipv4Dst ta)"
    using assms by (simp_all add: ta_wf_def ipv4ToString_def To4_def)
  have "printBytesOption (pfx @ ''id'') (TunnelId ?k) (TunnelId ?m) EncodeToString =
      printed (opt_if (pTunnelId pr) (pfx @ ''id'') (EncodeToString (TunnelId ta)))"
    "printBytesOption (pfx @ ''ipv4-src'') (Ipv4Src ?k) (Ipv4Src ?m) ipv4ToString =
      printed (opt_if (pIpv4Src pr) (pfx @ ''ipv4-src'') (IPv4_String (Ipv4Src ta)))"
    "printBytesOption (pfx @ ''ipv4-dst'') (Ipv4Dst ?k) (Ipv4Dst ?m) ipv4ToString =
      printed (opt_if (pIpv4Dst pr) (pfx @ ''ipv4-dst'') (IPv4_String (Ipv4Dst ta)))"
    unfolding ta_restrict_def tap_mask_def TunnelAttrs.simps by (simp_all only: printBytesOption_exact ip zero_less_numeral)
  moreover have "printIntOption (pfx @ ''tos'') (unat (Tos ?k)) (unat (Tos ?m)) 0xff =
      printed (opt_if (pTos pr) (pfx @ ''tos'') (show_nat (unat (Tos ta))))"
    "printIntOption (pfx @ ''ttl'') (unat (Ttl ?k)) (unat (Ttl ?m)) 0xff =
      printed (opt_if (pTtl pr) (pfx @ ''ttl'') (show_nat (unat (Ttl ta))))"
    "printIntOption (pfx @ ''tp-src'') (unat (TpSrc ?k)) (unat (TpSrc ?m)) 0xffff =
      printed (opt_if (pTpSrc pr) (pfx @ ''tp-src'') (show_nat (unat (TpSrc ta))))"
    "printIntOption (pfx @ ''tp-dst'') (unat (TpDst ?k)) (unat (TpDst ?m)) 0xffff =
      printed (opt_if (pTpDst pr) (pfx @ ''tp-dst'') (show_nat (unat (TpDst ta))))"
    unfolding ta_restrict_def tap_mask_def TunnelAttrs.simps by (rule printIntOption_exact; simp)+
  moreover have "(if Df ?m then ['' --'' @ pfx @ ''df='' @ show_bool (Df ?k)] else []) =
      printed (opt_if (pDf pr) (pfx @ ''df'') (show_bool (Df ta)))"
    "(if Csum ?m then ['' --'' @ pfx @ ''csum='' @ show_bool (Csum ?k)] else []) =
      printed (opt_if (pCsum pr) (pfx @ ''csum'') (show_bool (Csum ta)))"
    unfolding ta_restrict_def tap_mask_def TunnelAttrs.simps by (rule print_bool_exact; simp)+
  ultimately show ?thesis
    unfolding printTunnelOptions_def Let_def exact_key_def tunnel_opts_def TunnelFlowKey.simps
    by (simp only: printed_simps append_Nil2)
qed

text \<open>Giving an option that may be absent.\<close>

definition upd_if :: "bool \<Rightarrow> string \<Rightarrow> flag_value \<Rightarrow> flag_set \<Rightarrow> flag_set" where
  "upd_if b n v fs = (if b then fs(n \<mapsto> v) else fs)"

lemma upd_if_apply [simp]: "upd_if b n v fs m = (if m = n \<and> b then Some v else fs m)"
  by (simp add: upd_if_def)

definition is_string_flag :: "flag_value option \<Rightarrow> bool" where
  "is_string_flag v \<longleftrightarrow> (\<exists>s. v = Some (FString s))"

definition is_int_flag :: "flag_value option \<Rightarrow> bool" where
  "is_int_flag v \<longleftrightarrow> (\<exists>i. v = Some (FInt i))"

lemma flag_kinds [simp]:
  "is_string_flag (Some (FString s))" "is_int_flag (Some (FInt i))"
  "is_string_flag (if b then x else y) = (if b then is_string_flag x else is_string_flag y)"
  "is_int_flag (if b then x else y) = (if b then is_int_flag x else is_int_flag y)"
  "string_flag (if b then Some (FString s) else v) = (if b then s else string_flag v)"
  "int_flag (if b then Some (FInt i) else v) = (if b then i else int_flag v)"
  by (simp_all add: is_string_flag_def is_int_flag_def)

lemma set_flags_opt_if:
  assumes "flag_name n"
  shows "is_string_flag (fs n) \<Longrightarrow> set_flags (opt_if b n v @ opts) fs = set_flags opts (upd_if b n (FString v) fs)"
    "is_int_flag (fs n) \<Longrightarrow> k < 2 ^ 63 \<Longrightarrow>
       set_flags (opt_if b n (show_nat k) @ opts) fs = set_flags opts (upd_if b n (FInt (int k)) fs)"
  using assms by (auto simp: opt_if_def upd_if_def is_string_flag_def is_int_flag_def ParseInt_show_nat)

definition tunnel_updates :: "string \<Rightarrow> TunnelAttrs \<Rightarrow> TunnelAttrsPresence \<Rightarrow> flag_set \<Rightarrow> flag_set" where
  "tunnel_updates pfx ta pr fs =
     upd_if (pTpDst pr) (pfx @ ''tp-dst'') (FInt (int (unat (TpDst ta))))
     (upd_if (pTpSrc pr) (pfx @ ''tp-src'') (FInt (int (unat (TpSrc ta))))
     (upd_if (pCsum pr) (pfx @ ''csum'') (FString (show_bool (Csum ta)))
     (upd_if (pDf pr) (pfx @ ''df'') (FString (show_bool (Df ta)))
     (upd_if (pTtl pr) (pfx @ ''ttl'') (FInt (int (unat (Ttl ta))))
     (upd_if (pTos pr) (pfx @ ''tos'') (FInt (int (unat (Tos ta))))
     (upd_if (pIpv4Dst pr) (pfx @ ''ipv4-dst'') (FString (IPv4_String (Ipv4Dst ta)))
     (upd_if (pIpv4Src pr) (pfx @ ''ipv4-src'') (FString (IPv4_String (Ipv4Src ta)))
     (upd_if (pTunnelId pr) (pfx @ ''id'') (FString (EncodeToString (TunnelId ta))) fs))))))))"

text \<open>The flags of a prefix are defined, with their kinds.\<close>

definition has_tunnel_flags :: "string \<Rightarrow> flag_set \<Rightarrow> bool" where
  "has_tunnel_flags pfx fs \<longleftrightarrow>
     (\<forall>n \<in> {''id'', ''ipv4-src'', ''ipv4-dst'', ''df'', ''csum''}. is_string_flag (fs (pfx @ n))) \<and>
     (\<forall>n \<in> {''tos'', ''ttl'', ''tp-src'', ''tp-dst''}. is_int_flag (fs (pfx @ n)))"

lemma flag_name_append: "flag_name pfx \<Longrightarrow> CHR ''='' \<notin> set n \<Longrightarrow> flag_name (pfx @ n)"
  by (cases pfx) (auto simp: flag_name_def)

lemma unat_small: "unat (w :: u8) < 2 ^ 63" "unat (v :: u16) < 2 ^ 63"
proof -
  have "unat w < 2 ^ 8" "unat v < 2 ^ 16"
    using unsigned_less [of w, where ?'a = nat] unsigned_less [of v, where ?'a = nat] by simp_all
  then show "unat w < 2 ^ 63" "unat v < 2 ^ 63" by simp_all
qed

lemma set_tunnel_flags:
  assumes "flag_name pfx" "has_tunnel_flags pfx fs"
  shows "set_flags (tunnel_opts pfx ta pr @ opts) fs = set_flags opts (tunnel_updates pfx ta pr fs)"
proof -
  have names: "flag_name (pfx @ n)" if "CHR ''='' \<notin> set n" for n using assms(1) that by (rule flag_name_append)
  have k: "is_string_flag (fs (pfx @ ''id''))" "is_string_flag (fs (pfx @ ''ipv4-src''))"
    "is_string_flag (fs (pfx @ ''ipv4-dst''))" "is_string_flag (fs (pfx @ ''df''))" "is_string_flag (fs (pfx @ ''csum''))"
    "is_int_flag (fs (pfx @ ''tos''))" "is_int_flag (fs (pfx @ ''ttl''))" "is_int_flag (fs (pfx @ ''tp-src''))"
    "is_int_flag (fs (pfx @ ''tp-dst''))"
    using assms(2) by (simp_all add: has_tunnel_flags_def)
  show ?thesis
    unfolding tunnel_opts_def tunnel_updates_def append_assoc append_Nil
    by (simp only: set_flags_opt_if names k upd_if_apply flag_kinds unat_small same_append_eq list.inject char.inject
        list.distinct list.set insert_iff empty_iff simp_thms if_False)
qed

text \<open>The variables before any option is read, and after the options of some attributes.\<close>

definition no_tunnel_flags :: tunnelFlags where
  "no_tunnel_flags = \<lparr>tfl_id = '''', tfl_ipv4Src = '''', tfl_ipv4Dst = '''', tfl_tos = - 1, tfl_ttl = - 1,
     tfl_df = '''', tfl_csum = '''', tfl_tpsrc = - 1, tfl_tpdst = - 1\<rparr>"

definition given_tunnel_flags :: "TunnelAttrs \<Rightarrow> TunnelAttrsPresence \<Rightarrow> tunnelFlags" where
  "given_tunnel_flags ta pr =
     \<lparr>tfl_id = (if pTunnelId pr then EncodeToString (TunnelId ta) else ''''),
      tfl_ipv4Src = (if pIpv4Src pr then IPv4_String (Ipv4Src ta) else ''''),
      tfl_ipv4Dst = (if pIpv4Dst pr then IPv4_String (Ipv4Dst ta) else ''''),
      tfl_tos = (if pTos pr then int (unat (Tos ta)) else - 1),
      tfl_ttl = (if pTtl pr then int (unat (Ttl ta)) else - 1),
      tfl_df = (if pDf pr then show_bool (Df ta) else ''''),
      tfl_csum = (if pCsum pr then show_bool (Csum ta) else ''''),
      tfl_tpsrc = (if pTpSrc pr then int (unat (TpSrc ta)) else - 1),
      tfl_tpdst = (if pTpDst pr then int (unat (TpDst ta)) else - 1)\<rparr>"

lemma tunnel_flags_updates:
  assumes "tunnel_flags pfx fs = no_tunnel_flags"
  shows "tunnel_flags pfx (tunnel_updates pfx ta pr fs) = given_tunnel_flags ta pr"
  using assms unfolding tunnel_flags_def tunnel_updates_def no_tunnel_flags_def given_tunnel_flags_def
  by (simp only: upd_if_apply same_append_eq list.inject char.inject list.distinct simp_thms if_False flag_kinds
      tunnelFlags.ext_inject)

lemma added_tunnel_flags:
  "tunnel_flags pfx (addTunnelFlags pfx fs) = no_tunnel_flags" "has_tunnel_flags pfx (addTunnelFlags pfx fs)"
  by (simp_all add: tunnel_flags_def addTunnelFlags_def no_tunnel_flags_def has_tunnel_flags_def)

text \<open>The values of the options are read back.\<close>

lemma parseBool_show: "parseBool (show_bool b) = Inr b"
  by (simp add: parseBool_def boolStrings_def makeBoolStrings_def show_bool_def)

lemma parseIpv4_String: "length p = 4 \<Longrightarrow> parseIpv4 (IPv4_String p) = Inr p"
  by (simp add: parseIpv4_def ParseIP_String)

lemma parseTunnelId_Encode: "length t = 8 \<Longrightarrow> parseTunnelId (EncodeToString t) = Inr t"
  by (simp add: parseTunnelId_def)

lemma string_option_if:
  "(b \<Longrightarrow> s \<noteq> '''' \<and> rd s = Inr v) \<Longrightarrow>
     string_option (if b then s else '''') rd upd fk = Inr (if b then upd v fk else fk)"
  by (simp add: string_option_def)

lemma int_option_if:
  "int_option (if b then int (unat w) else - 1) upd fk = Inr (if b then upd w fk else fk)"
  by (simp add: int_option_def)

lemma IPv4_String_nonempty: "length p = 4 \<Longrightarrow> IPv4_String p \<noteq> ''''"
  by (cases p rule: remdups_adj.cases) (simp_all add: IPv4_String_def)

lemma given_strings:
  "length t = 8 \<Longrightarrow> EncodeToString t \<noteq> ''''" "length p = 4 \<Longrightarrow> IPv4_String p \<noteq> ''''"
  "show_bool b \<noteq> ''''"
  by (auto simp: EncodeToString_def hex_byte_def IPv4_String_nonempty show_bool_def)

text \<open>The setters that a presence record selects build the exact key.\<close>

definition set_present :: "TunnelAttrs \<Rightarrow> TunnelAttrsPresence \<Rightarrow> TunnelFlowKey" where
  "set_present ta pr =
     (let fk = zero_tunnel_key;
          fk = (if pTunnelId pr then SetTunnelId (TunnelId ta) fk else fk);
          fk = (if pIpv4Src pr then SetIpv4Src (Ipv4Src ta) fk else fk);
          fk = (if pIpv4Dst pr then SetIpv4Dst (Ipv4Dst ta) fk else fk);
          fk = (if pTos pr then SetTos (Tos ta) fk else fk);
          fk = (if pTtl pr then SetTtl (Ttl ta) fk else fk);
          fk = (if pDf pr then SetDf (Df ta) fk else fk);
          fk = (if pCsum pr then SetCsum (Csum ta) fk else fk);
          fk = (if pTpSrc pr then SetTpSrc (TpSrc ta) fk else fk)
      in if pTpDst pr then SetTpDst (TpDst ta) fk else fk)"

lemma setters_if:
  "(if b then SetTunnelId t \<lparr>tf_key = k, tf_mask = m\<rparr> else \<lparr>tf_key = k, tf_mask = m\<rparr>) =
     \<lparr>tf_key = k\<lparr>TunnelId := if b then t else TunnelId k\<rparr>, tf_mask = m\<lparr>TunnelId := if b then replicate 8 0xff else TunnelId m\<rparr>\<rparr>"
  "(if b then SetIpv4Src t \<lparr>tf_key = k, tf_mask = m\<rparr> else \<lparr>tf_key = k, tf_mask = m\<rparr>) =
     \<lparr>tf_key = k\<lparr>Ipv4Src := if b then t else Ipv4Src k\<rparr>, tf_mask = m\<lparr>Ipv4Src := if b then replicate 4 0xff else Ipv4Src m\<rparr>\<rparr>"
  "(if b then SetIpv4Dst t \<lparr>tf_key = k, tf_mask = m\<rparr> else \<lparr>tf_key = k, tf_mask = m\<rparr>) =
     \<lparr>tf_key = k\<lparr>Ipv4Dst := if b then t else Ipv4Dst k\<rparr>, tf_mask = m\<lparr>Ipv4Dst := if b then replicate 4 0xff else Ipv4Dst m\<rparr>\<rparr>"
  "(if b then SetTos w \<lparr>tf_key = k, tf_mask = m\<rparr> else \<lparr>tf_key = k, tf_mask = m\<rparr>) =
     \<lparr>tf_key = k\<lparr>Tos := if b then w else Tos k\<rparr>, tf_mask = m\<lparr>Tos := if b then 0xff else Tos m\<rparr>\<rparr>"
  "(if b then SetTtl w \<lparr>tf_key = k, tf_mask = m\<rparr> else \<lparr>tf_key = k, tf_mask = m\<rparr>) =
     \<lparr>tf_key = k\<lparr>Ttl := if b then w else Ttl k\<rparr>, tf_mask = m\<lparr>Ttl := if b then 0xff else Ttl m\<rparr>\<rparr>"
  "(if b then SetDf d \<lparr>tf_key = k, tf_mask = m\<rparr> else \<lparr>tf_key = k, tf_mask = m\<rparr>) =
     \<lparr>tf_key = k\<lparr>Df := if b then d else Df k\<rparr>, tf_mask = m\<lparr>Df := b \<or> Df m\<rparr>\<rparr>"
  "(if b then SetCsum d \<lparr>tf_key = k, tf_mask = m\<rparr> else \<lparr>tf_key = k, tf_mask = m\<rparr>) =
     \<lparr>tf_key = k\<lparr>Csum := if b then d else Csum k\<rparr>, tf_mask = m\<lparr>Csum := b \<or> Csum m\<rparr>\<rparr>"
  "(if b then SetTpSrc p \<lparr>tf_key = k, tf_mask = m\<rparr> else \<lparr>tf_key = k, tf_mask = m\<rparr>) =
     \<lparr>tf_key = k\<lparr>TpSrc := if b then p else TpSrc k\<rparr>, tf_mask = m\<lparr>TpSrc := if b then 0xffff else TpSrc m\<rparr>\<rparr>"
  "(if b then SetTpDst p \<lparr>tf_key = k, tf_mask = m\<rparr> else \<lparr>tf_key = k, tf_mask = m\<rparr>) =
     \<lparr>tf_key = k\<lparr>TpDst := if b then p else TpDst k\<rparr>, tf_mask = m\<lparr>TpDst := if b then 0xffff else TpDst m\<rparr>\<rparr>"
  by (simp_all add: tunnel_setters)

lemma set_present_exact: "set_present ta pr = exact_key ta pr"
  unfolding set_present_def Let_def zero_tunnel_key_def exact_key_def setters_if
  by (simp add: zero_ta_def ta_restrict_def tap_mask_def)

lemma parse_given_flags:
  assumes "ta_wf ta"
  shows "parseTunnelFlags (given_tunnel_flags ta pr) = Inr (exact_key ta pr)"
proof -
  have "length (TunnelId ta) = 8" "length (Ipv4Src ta) = 4" "length (Ipv4Dst ta) = 4"
    using assms by (simp_all add: ta_wf_def)
  note rd = this parseTunnelId_Encode [of "TunnelId ta"] parseIpv4_String [of "Ipv4Src ta"] parseIpv4_String [of "Ipv4Dst ta"]
  show ?thesis
    unfolding parseTunnelFlags_def given_tunnel_flags_def tunnelFlags.simps set_present_exact [symmetric] set_present_def Let_def
    by (simp only: string_option_if int_option_if given_strings parseBool_show rd simp_thms sum_bind_simps)
qed

lemma printSetTunnelOptions_exact:
  "ta_wf ta \<Longrightarrow> printSetTunnelOptions ta pr = printed (tunnel_opts ''set-tunnel-'' ta pr)"
  using printTunnelOptions_exact [of ta pr "''set-tunnel-''"] set_present_exact [of ta pr]
  by (simp only: printSetTunnelOptions_def set_present_def Let_def)

lemma tl_printed: "map tl (printed opts) = map (\<lambda>(name, v). option_arg name v) opts"
  by (auto simp: printed_def)

lemma parse_printed_tunnel:
  assumes "ta_wf ta" "flag_name pfx"
  shows "FlagSet_Parse (map tl (printed (tunnel_opts pfx ta pr)) @ rest) (addTunnelFlags pfx fs) =
      FlagSet_Parse rest (tunnel_updates pfx ta pr (addTunnelFlags pfx fs))"
    "parseTunnelFlags (tunnel_flags pfx (tunnel_updates pfx ta pr (addTunnelFlags pfx fs))) = Inr (exact_key ta pr)"
proof -
  have "set_flags (tunnel_opts pfx ta pr) (addTunnelFlags pfx fs) =
      Some (tunnel_updates pfx ta pr (addTunnelFlags pfx fs))"
    using set_tunnel_flags [OF assms(2) added_tunnel_flags(2), of ta pr "[]" fs] by simp
  then show "FlagSet_Parse (map tl (printed (tunnel_opts pfx ta pr)) @ rest) (addTunnelFlags pfx fs) =
      FlagSet_Parse rest (tunnel_updates pfx ta pr (addTunnelFlags pfx fs))"
    by (simp add: tl_printed FlagSet_Parse_options)
  show "parseTunnelFlags (tunnel_flags pfx (tunnel_updates pfx ta pr (addTunnelFlags pfx fs))) = Inr (exact_key ta pr)"
    by (simp add: tunnel_flags_updates added_tunnel_flags parse_given_flags assms(1))
qed

text \<open>A presence record for which some option of the action is given.\<close>

definition any_present :: "TunnelAttrsPresence \<Rightarrow> bool" where
  "any_present pr \<longleftrightarrow> pTunnelId pr \<or> pIpv4Src pr \<or> pIpv4Dst pr \<or> pTos pr \<or> pTtl pr \<or> pDf pr \<or> pCsum pr \<or> pTpSrc pr \<or> pTpDst pr"

lemma presence_of_mask:
  "bytesPresent (TunnelId (tap_mask pr)) = (pTunnelId pr, False)"
  "bytesPresent (Ipv4Src (tap_mask pr)) = (pIpv4Src pr, False)"
  "bytesPresent (Ipv4Dst (tap_mask pr)) = (pIpv4Dst pr, False)"
  "present_flag (Tos (tap_mask pr) = 0xff) (Tos (tap_mask pr) = 0) = (pTos pr, False)"
  "present_flag (Ttl (tap_mask pr) = 0xff) (Ttl (tap_mask pr) = 0) = (pTtl pr, False)"
  "present_flag (TpSrc (tap_mask pr) = 0xffff) (TpSrc (tap_mask pr) = 0) = (pTpSrc pr, False)"
  "present_flag (TpDst (tap_mask pr) = 0xffff) (TpDst (tap_mask pr) = 0) = (pTpDst pr, False)"
  "Df (tap_mask pr) = pDf pr" "Csum (tap_mask pr) = pCsum pr"
  by (simp_all add: bytesPresent_def present_flag_def tap_mask_def)

lemma parseSetTunnelFlags_exact:
  assumes "parseTunnelFlags tf = Inr (exact_key ta pr)"
  shows "parseSetTunnelFlags tf =
    Inr (if any_present pr then Some (SetTunnelAction (ta_restrict ta pr) pr) else None)"
  unfolding parseSetTunnelFlags_def assms sum_bind_simps exact_key_def TunnelFlowKey.simps Let_def presence_of_mask
  by (simp add: any_present_def)

text \<open>Every key that \<^verbatim>\<open>parseTunnelFlags\<close> builds is exact.\<close>

lemma string_option_Inr:
  "string_option s rd upd fk = Inr fk' \<Longrightarrow> fk' = fk \<or> (\<exists>v. rd s = Inr v \<and> fk' = upd v fk)"
  by (auto simp: string_option_def sum_bind_def split: if_splits sum.splits)

definition unmasked :: "TunnelAttrs \<Rightarrow> bool" where
  "unmasked m \<longleftrightarrow>
     (AllBytes (TunnelId m) 0xff \<or> AllBytes (TunnelId m) 0) \<and> (AllBytes (Ipv4Src m) 0xff \<or> AllBytes (Ipv4Src m) 0) \<and>
     (AllBytes (Ipv4Dst m) 0xff \<or> AllBytes (Ipv4Dst m) 0) \<and> (Tos m = 0xff \<or> Tos m = 0) \<and> (Ttl m = 0xff \<or> Ttl m = 0) \<and>
     (TpSrc m = 0xffff \<or> TpSrc m = 0) \<and> (TpDst m = 0xffff \<or> TpDst m = 0)"

lemma unmasked_setters:
  "unmasked (tf_mask fk) \<Longrightarrow> unmasked (tf_mask (SetTunnelId t fk))"
  "unmasked (tf_mask fk) \<Longrightarrow> unmasked (tf_mask (SetIpv4Src t fk))"
  "unmasked (tf_mask fk) \<Longrightarrow> unmasked (tf_mask (SetIpv4Dst t fk))"
  "unmasked (tf_mask fk) \<Longrightarrow> unmasked (tf_mask (SetTos w fk))"
  "unmasked (tf_mask fk) \<Longrightarrow> unmasked (tf_mask (SetTtl w fk))"
  "unmasked (tf_mask fk) \<Longrightarrow> unmasked (tf_mask (SetDf b fk))"
  "unmasked (tf_mask fk) \<Longrightarrow> unmasked (tf_mask (SetCsum b fk))"
  "unmasked (tf_mask fk) \<Longrightarrow> unmasked (tf_mask (SetTpSrc p fk))"
  "unmasked (tf_mask fk) \<Longrightarrow> unmasked (tf_mask (SetTpDst p fk))"
  by (simp_all add: unmasked_def tunnel_setters)

text \<open>What the reading of the options keeps: a predicate of the result, and no error for a mask.\<close>

definition sum_ok :: "('a \<Rightarrow> bool) \<Rightarrow> option_error + 'a \<Rightarrow> bool" where
  "sum_ok P r \<longleftrightarrow> (case r of Inl e \<Rightarrow> e \<noteq> IncludesMask | Inr x \<Rightarrow> P x)"

lemma sum_ok_bind: "sum_ok P r \<Longrightarrow> (\<And>x. P x \<Longrightarrow> sum_ok Q (f x)) \<Longrightarrow> sum_ok Q (sum_bind r f)"
  by (cases r) (simp_all add: sum_ok_def)

lemma sum_ok_option:
  "P fk \<Longrightarrow> (\<And>v. P (upd v fk)) \<Longrightarrow> rd s \<noteq> Inl IncludesMask \<Longrightarrow> sum_ok P (string_option s rd upd fk)"
  "P fk \<Longrightarrow> (\<And>w. P (upd' w fk)) \<Longrightarrow> sum_ok P (int_option i upd' fk)"
  by (auto simp: sum_ok_def string_option_def int_option_def sum_bind_def split: sum.splits)

lemma readers_no_mask_error:
  "parseTunnelId s \<noteq> Inl IncludesMask" "parseIpv4 s \<noteq> Inl IncludesMask" "parseBool s \<noteq> Inl IncludesMask"
  by (auto simp: parseTunnelId_def parseIpv4_def parseBool_def split: option.splits)

lemma parseTunnelFlags_unmasked: "sum_ok (\<lambda>fk. unmasked (tf_mask fk)) (parseTunnelFlags tf)"
  unfolding parseTunnelFlags_def
  by (intro sum_ok_bind [where P = "\<lambda>fk. unmasked (tf_mask fk)"] sum_ok_option unmasked_setters readers_no_mask_error;
      assumption?)
    (simp_all add: unmasked_def zero_tunnel_key_def zero_ta_def)

section \<open>Ethernet addresses are read back\<close>

lemma hex_char_plain: "d < 16 \<Longrightarrow> hex_char d \<noteq> CHR ''&'' \<and> hex_char d \<noteq> CHR 0x22"
  using hex_val_char [of d] by (auto simp: hex_val_def digit_val_def)

lemma set_join: "set (join sep ws) \<subseteq> set sep \<union> (\<Union>w \<in> set ws. set w)"
  by (induction sep ws rule: join.induct) auto

lemma HardwareAddr_plain: "CHR ''&'' \<notin> set (HardwareAddr_String a)" "CHR 0x22 \<notin> set (HardwareAddr_String a)"
proof -
  have "unat (b :: byte) div 16 < 16" "unat b mod 16 < 16" for b
    using unsigned_less [of b, where ?'a = nat] by (simp_all add: div_less_iff_less_mult)
  then have "CHR ''&'' \<notin> set (hex_byte b)" "CHR 0x22 \<notin> set (hex_byte b)" for b
    using hex_char_plain [of "unat b div 16"] hex_char_plain [of "unat b mod 16"] by (auto simp: hex_byte_def)
  then show "CHR ''&'' \<notin> set (HardwareAddr_String a)" "CHR 0x22 \<notin> set (HardwareAddr_String a)"
    unfolding HardwareAddr_String_def using set_join [of "'':''" "map hex_byte a"] by auto
qed

lemma parseMAC_String: "length a = 6 \<Longrightarrow> parseMAC (HardwareAddr_String a) = (a, None)"
  by (simp add: parseMAC_def ParseMAC_String)

lemma HardwareAddr_nonempty: "length a = 6 \<Longrightarrow> HardwareAddr_String a \<noteq> ''''"
  using length_HardwareAddr_String [of a] by (cases a) auto

lemma parseMAC_ones: "parseMAC ''ff:ff:ff:ff:ff:ff'' = (replicate 6 0xff, None)"
  by code_simp

lemma index_of_append: "c \<notin> set xs \<Longrightarrow> index_of c (xs @ c # ys) = Some (length xs)"
  by (simp add: index_of_def takeWhile_append)

lemma index_of_none: "c \<notin> set xs \<Longrightarrow> index_of c xs = None"
  by (simp add: index_of_def)

lemma handleEthernetAddrOption_exact:
  assumes "length k = 6"
  shows "handleEthernetAddrOption (HardwareAddr_String k) = (k, replicate 6 0xff, None)"
  using assms HardwareAddr_nonempty [of k]
  by (simp add: handleEthernetAddrOption_def index_of_none HardwareAddr_plain parseMAC_String parseMAC_ones)

lemma handleEthernetAddrOption_masked:
  assumes "length k = 6" "length m = 6"
  shows "handleEthernetAddrOption (HardwareAddr_String k @ ''&'' @ HardwareAddr_String m) = (k, m, None)"
proof -
  obtain n where "length (HardwareAddr_String k) = Suc n" "HardwareAddr_String k \<noteq> []"
    using HardwareAddr_nonempty [OF assms(1)] by (cases "HardwareAddr_String k") auto
  then show ?thesis
    using index_of_append [OF HardwareAddr_plain(1), of k "HardwareAddr_String m"] assms
    by (simp add: handleEthernetAddrOption_def parseMAC_String)
qed

text \<open>The quotes are for the shell, which removes them.\<close>

definition unquote :: "string \<Rightarrow> string" where
  "unquote s = filter (\<lambda>c. c \<noteq> CHR 0x22) s"

lemma unquote_simps:
  "unquote (a @ b) = unquote a @ unquote b" "CHR 0x22 \<notin> set s \<Longrightarrow> unquote s = s" "unquote [] = []"
  "unquote (c # s) = (if c = CHR 0x22 then unquote s else c # unquote s)"
  by (auto simp: unquote_def intro: filter_True)

definition eth_text :: "bytes \<Rightarrow> bytes \<Rightarrow> string" where
  "eth_text k m =
     (if m = replicate 6 0xff then HardwareAddr_String k else HardwareAddr_String k @ ''&'' @ HardwareAddr_String m)"

lemma AllBytes_length: "length m = n \<Longrightarrow> AllBytes m x \<longleftrightarrow> m = replicate n x"
  by (auto simp: AllBytes_iff)

lemma printEthAddrOption_text:
  assumes "length m = 6" "CHR 0x22 \<notin> set opt"
  shows "map unquote (printEthAddrOption opt k m) = printed (opt_if (m \<noteq> replicate 6 0) opt (eth_text k m))"
  using assms
  by (simp add: printEthAddrOption_def printBytesOption_def AllBytes_length printed_def opt_if_def eth_text_def
      option_arg_def unquote_simps HardwareAddr_plain)

lemma eth_args:
  assumes "length m = 6" "CHR 0x22 \<notin> set opt"
  shows "map (\<lambda>s. tl (unquote s)) (printEthAddrOption opt k m) =
    map (\<lambda>(name, v). option_arg name v) (opt_if (m \<noteq> replicate 6 0) opt (eth_text k m))"
proof -
  have "map (\<lambda>s. tl (unquote s)) (printEthAddrOption opt k m) = map tl (map unquote (printEthAddrOption opt k m))" by simp
  then show ?thesis by (simp only: printEthAddrOption_text [OF assms] tl_printed)
qed

lemma handleEthernetAddrOption_text:
  "length k = 6 \<Longrightarrow> length m = 6 \<Longrightarrow> handleEthernetAddrOption (eth_text k m) = (k, m, None)"
  using handleEthernetAddrOption_exact [of k] handleEthernetAddrOption_masked [of k m] by (simp add: eth_text_def)

text \<open>The Ethernet key of two addresses and their masks.\<close>

definition eth_fk :: "bytes \<Rightarrow> bytes \<Rightarrow> bytes \<Rightarrow> bytes \<Rightarrow> BlobFlowKey" where
  "eth_fk sk sm dk dm = \<lparr>bf_typ = OVS_KEY_ATTR_ETHERNET, keyMask = sk @ dk @ sm @ dm\<rparr>"

lemma set_masked_eth:
  assumes "length sk = 6" "length sm = 6" "length dk = 6" "length dm = 6"
  shows "res_bind (SetMaskedEthSrc sk sm NewEthernetFlowKey) (SetMaskedEthDst dk dm) = Ok (eth_fk sk sm dk dm)"
  using assms
  by (simp add: SetMaskedEthSrc_def SetMaskedEthDst_def NewEthernetFlowKey_def NewBlobFlowKey_def eth_store_def
      SizeofOvsKeyEthernet_def write_at_def eth_fk_def Let_def)

lemma parseMAC_length: "parseMAC s = (k, err) \<Longrightarrow> length k = 6 \<and> (err \<noteq> None \<longrightarrow> k = replicate 6 0)"
  by (auto simp: parseMAC_def split: option.splits if_splits)

lemma handleEthernetAddrOption_lengths:
  assumes "handleEthernetAddrOption opt = (k, m, err)"
  shows "length k = 6 \<and> length m = 6 \<and> (err \<noteq> None \<longrightarrow> m = replicate 6 0)"
  using assms parseMAC_length unfolding handleEthernetAddrOption_def Let_def
  by (auto split: if_splits option.splits nat.splits prod.splits)

lemma handleEthernetFlowKeyOptions_result:
  assumes "handleEthernetAddrOption src = (sk, sm, serr)" "handleEthernetAddrOption dst = (dk, dm, derr)"
  shows "handleEthernetFlowKeyOptions flow src dst =
    Ok (case derr of Some e \<Rightarrow> Inl e | None \<Rightarrow> Inr (AddKey (FK_Ethernet (eth_fk sk sm dk dm)) flow))"
proof -
  have "res_bind (SetMaskedEthSrc sk sm NewEthernetFlowKey) (SetMaskedEthDst dk dm) = Ok (eth_fk sk sm dk dm)"
    using set_masked_eth assms [THEN handleEthernetAddrOption_lengths] by simp
  then show ?thesis
    using assms by (cases "SetMaskedEthSrc sk sm NewEthernetFlowKey")
      (auto simp: handleEthernetFlowKeyOptions_def split: option.split)
qed

lemma of_int_mod: "(of_int (n mod 256) :: u8) = of_int n" "(of_int (n mod 65536) :: u16) = of_int n"
  by (transfer, simp add: take_bit_eq_mod)+

section \<open>Properties\<close>

text \<open>Attributes used to illustrate the properties below.\<close>

definition sample_ta :: TunnelAttrs where
  "sample_ta = zero_ta\<lparr>TunnelId := [0, 0, 0, 0, 0, 0, 0, 0x2a], Ipv4Dst := [10, 0, 0, 7], Ttl := 64, Df := True\<rparr>"

definition sample_pr :: TunnelAttrsPresence where
  "sample_pr = \<lparr>pTunnelId = True, pIpv4Src = False, pIpv4Dst = True, pTos = False, pTtl = True, pDf = True,
     pCsum = False, pTpSrc = False, pTpDst = False\<rparr>"

lemma sample_wf: "ta_wf sample_ta"
  by (simp add: sample_ta_def ta_wf_def zero_ta_def)

lemma sample_printed:
  "map tl (printed (tunnel_opts pfx sample_ta sample_pr)) =
     [''--'' @ pfx @ ''id=000000000000002a'', ''--'' @ pfx @ ''ipv4-dst=10.0.0.7'', ''--'' @ pfx @ ''ttl=64'',
      ''--'' @ pfx @ ''df=true'']"
proof -
  have "EncodeToString (TunnelId sample_ta) = ''000000000000002a''" "IPv4_String (Ipv4Dst sample_ta) = ''10.0.0.7''"
    "show_nat (unat (Ttl sample_ta)) = ''64''" "show_bool (Df sample_ta) = ''true''"
    by code_simp+
  then show ?thesis by (simp add: tl_printed tunnel_opts_def opt_if_def option_arg_def sample_pr_def)
qed

text \<open>
  A tunnel key whose fields are matched exactly or ignored is printed as options from
  which it is read back: \<^verbatim>\<open>printTunnelOptions\<close>, the flag package and \<^verbatim>\<open>parseTunnelFlags\<close> return the
  same key, whatever other flags are defined.
\<close>

theorem tunnel_options_roundtrip:
  assumes "ta_wf ta" "flag_name pfx"
  shows "\<exists>fs'. FlagSet_Parse (map tl (printTunnelOptions (exact_key ta pr) pfx)) (addTunnelFlags pfx fs) = Inr ([], fs') \<and>
    parseTunnelFlags (tunnel_flags pfx fs') = Inr (exact_key ta pr)"
  using parse_printed_tunnel(1) [OF assms, of pr "[]" fs] parse_printed_tunnel(2) [OF assms, of pr fs] by (simp add: printTunnelOptions_exact [OF assms(1)])

theorem tunnel_options_roundtrip_witness:
  "map tl (printTunnelOptions (exact_key sample_ta sample_pr) ''tunnel-'') =
     [''--tunnel-id=000000000000002a'', ''--tunnel-ipv4-dst=10.0.0.7'', ''--tunnel-ttl=64'', ''--tunnel-df=true''] \<and>
   (\<exists>fs'. FlagSet_Parse (map tl (printTunnelOptions (exact_key sample_ta sample_pr) ''tunnel-''))
       (addTunnelFlags ''tunnel-'' Map.empty) = Inr ([], fs') \<and>
     parseTunnelFlags (tunnel_flags ''tunnel-'' fs') = Inr (exact_key sample_ta sample_pr))"
  using tunnel_options_roundtrip [OF sample_wf, of "''tunnel-''" sample_pr Map.empty]
  by (simp add: printTunnelOptions_exact sample_wf sample_printed flag_name_def)

text \<open>
  The options printed for a set-tunnel action are read back by \<^verbatim>\<open>parseSetTunnelFlags\<close> as the
  action with the fields that are present (absent fields read as zero), and as no action when
  none is.
\<close>

theorem set_tunnel_options_roundtrip:
  assumes "ta_wf ta"
  shows "\<exists>fs'. FlagSet_Parse (map tl (printSetTunnelOptions ta pr)) (addTunnelFlags ''set-tunnel-'' fs) = Inr ([], fs') \<and>
    parseSetTunnelFlags (tunnel_flags ''set-tunnel-'' fs') =
      Inr (if any_present pr then Some (SetTunnelAction (ta_restrict ta pr) pr) else None)"
proof -
  have "flag_name ''set-tunnel-''" by (simp add: flag_name_def)
  with printSetTunnelOptions_exact [OF assms, of pr] show ?thesis
    using parse_printed_tunnel(1) [OF assms, of "''set-tunnel-''" pr "[]" fs]
      parseSetTunnelFlags_exact [OF parse_printed_tunnel(2) [OF assms, of "''set-tunnel-''" pr fs]] by simp
qed

theorem set_tunnel_options_roundtrip_witness:
  "\<exists>fs'. FlagSet_Parse [''--set-tunnel-id=000000000000002a'', ''--set-tunnel-ipv4-dst=10.0.0.7'', ''--set-tunnel-ttl=64'',
       ''--set-tunnel-df=true''] (addTunnelFlags ''set-tunnel-'' Map.empty) = Inr ([], fs') \<and>
     parseSetTunnelFlags (tunnel_flags ''set-tunnel-'' fs') = Inr (Some (SetTunnelAction sample_ta sample_pr))"
proof -
  have "map tl (printSetTunnelOptions sample_ta sample_pr) =
      [''--set-tunnel-id=000000000000002a'', ''--set-tunnel-ipv4-dst=10.0.0.7'', ''--set-tunnel-ttl=64'', ''--set-tunnel-df=true'']"
    by (simp add: printSetTunnelOptions_exact sample_wf sample_printed)
  moreover have "ta_restrict sample_ta sample_pr = sample_ta" "any_present sample_pr"
    by (simp_all add: ta_restrict_def sample_ta_def sample_pr_def zero_ta_def any_present_def)
  ultimately show ?thesis
    using set_tunnel_options_roundtrip [OF sample_wf, of sample_pr Map.empty] by simp
qed

text \<open>
  The error of \<^verbatim>\<open>parseSetTunnelFlags\<close> for an option with a mask cannot occur: every option
  sets its field exactly.
\<close>

theorem set_tunnel_mask_error_dead: "parseSetTunnelFlags tf \<noteq> Inl IncludesMask"
  using parseTunnelFlags_unmasked [of tf]
  by (auto simp: sum_ok_def parseSetTunnelFlags_def Let_def unmasked_def bytesPresent_def present_flag_def split: sum.splits)

text \<open>The setters of different fields commute.\<close>

lemma setters_commute:
  "SetTtl u (SetTos v fk) = SetTos v (SetTtl u fk)" "SetDf b (SetTos v fk) = SetTos v (SetDf b fk)"
  "SetCsum b (SetTos v fk) = SetTos v (SetCsum b fk)" "SetTpSrc x (SetTos v fk) = SetTos v (SetTpSrc x fk)"
  "SetTpDst x (SetTos v fk) = SetTos v (SetTpDst x fk)" "SetDf b (SetTtl v fk) = SetTtl v (SetDf b fk)"
  "SetCsum b (SetTtl v fk) = SetTtl v (SetCsum b fk)" "SetTpSrc x (SetTtl v fk) = SetTtl v (SetTpSrc x fk)"
  "SetTpDst x (SetTtl v fk) = SetTtl v (SetTpDst x fk)" "SetTpDst x (SetTpSrc y fk) = SetTpSrc y (SetTpDst x fk)"
  by (cases "tf_key fk"; cases "tf_mask fk"; simp add: tunnel_setters)+

text \<open>
  A step of the parser keeps the effect \<open>c\<close> of an option that was read before, and a number instead of
  none adds its effect to the outcome of the steps that follow.
\<close>

definition keeps :: "(TunnelFlowKey \<Rightarrow> TunnelFlowKey) \<Rightarrow> (TunnelFlowKey \<Rightarrow> option_error + TunnelFlowKey) \<Rightarrow> bool" where
  "keeps c g \<longleftrightarrow> (\<forall>fk fk'. g fk = Inr fk' \<longrightarrow> g (c fk) = Inr (c fk'))"

definition adds :: "(TunnelFlowKey \<Rightarrow> TunnelFlowKey) \<Rightarrow> (TunnelFlowKey \<Rightarrow> option_error + TunnelFlowKey) \<Rightarrow>
    (TunnelFlowKey \<Rightarrow> option_error + TunnelFlowKey) \<Rightarrow> bool" where
  "adds c g g' \<longleftrightarrow> (\<forall>fk fk'. g fk = Inr fk' \<longrightarrow> g' fk = Inr (c fk'))"

lemma sum_bind_Inr: "sum_bind r f = Inr y \<longleftrightarrow> (\<exists>x. r = Inr x \<and> f x = Inr y)"
  by (cases r) simp_all

lemma keeps_intros:
  "(\<And>v fk. upd v (c fk) = c (upd v fk)) \<Longrightarrow> keeps c (string_option s p upd)"
  "(\<And>v fk. upd' v (c fk) = c (upd' v fk)) \<Longrightarrow> keeps c (int_option i upd')"
  "keeps c g \<Longrightarrow> keeps c h \<Longrightarrow> keeps c (\<lambda>fk. sum_bind (g fk) h)"
  by (auto simp: keeps_def string_option_def int_option_def sum_bind_Inr split: if_splits)

lemma adds_intros:
  "adds c g g' \<Longrightarrow> adds c (\<lambda>fk. sum_bind (f fk) g) (\<lambda>fk. sum_bind (f fk) g')"
  "0 \<le> n \<Longrightarrow> keeps (upd8 (of_int (n mod 256))) t \<Longrightarrow> adds (upd8 (of_int (n mod 256) :: u8))
     (\<lambda>fk. sum_bind (int_option (- 1) upd8 fk) t) (\<lambda>fk. sum_bind (int_option n upd8 fk) t)"
  "0 \<le> n \<Longrightarrow> keeps (upd16 (of_int (n mod 65536))) t \<Longrightarrow> adds (upd16 (of_int (n mod 65536) :: u16))
     (\<lambda>fk. sum_bind (int_option (- 1) upd16 fk) t) (\<lambda>fk. sum_bind (int_option n upd16 fk) t)"
  "0 \<le> n \<Longrightarrow> adds (upd16 (of_int (n mod 65536) :: u16)) (int_option (- 1) upd16) (int_option n upd16)"
  by (auto simp: adds_def keeps_def sum_bind_Inr int_option_def of_int_mod)

lemma adds_first: "adds c g g' \<Longrightarrow> sum_bind r g = Inr fk \<Longrightarrow> sum_bind r g' = Inr (c fk)"
  by (auto simp: adds_def sum_bind_Inr)

text \<open>
  Property C39: numbers given for ToS, TTL and ports are not checked.  When the other options are
  accepted, so is any number that is not negative, and the field gets it reduced to its width, with
  a full mask: 256 is read as zero.
\<close>

theorem tunnel_numbers_truncated:
  assumes "0 \<le> n"
  shows "(\<forall>fk. parseTunnelFlags (tf\<lparr>tfl_tos := - 1\<rparr>) = Inr fk \<longrightarrow>
      parseTunnelFlags (tf\<lparr>tfl_tos := n\<rparr>) = Inr (SetTos (of_int (n mod 256)) fk)) \<and>
    (\<forall>fk. parseTunnelFlags (tf\<lparr>tfl_ttl := - 1\<rparr>) = Inr fk \<longrightarrow>
      parseTunnelFlags (tf\<lparr>tfl_ttl := n\<rparr>) = Inr (SetTtl (of_int (n mod 256)) fk)) \<and>
    (\<forall>fk. parseTunnelFlags (tf\<lparr>tfl_tpsrc := - 1\<rparr>) = Inr fk \<longrightarrow>
      parseTunnelFlags (tf\<lparr>tfl_tpsrc := n\<rparr>) = Inr (SetTpSrc (of_int (n mod 65536)) fk)) \<and>
    (\<forall>fk. parseTunnelFlags (tf\<lparr>tfl_tpdst := - 1\<rparr>) = Inr fk \<longrightarrow>
      parseTunnelFlags (tf\<lparr>tfl_tpdst := n\<rparr>) = Inr (SetTpDst (of_int (n mod 65536)) fk))"
  unfolding parseTunnelFlags_def
  by (cases tf, hypsubst, unfold tunnelFlags.simps)
    (intro conjI allI impI; erule adds_first [rotated]; intro adds_intros keeps_intros assms setters_commute)

theorem tunnel_numbers_truncated_witness:
  "parseTunnelFlags (no_tunnel_flags\<lparr>tfl_ttl := 256\<rparr>) = Inr (SetTtl 0 zero_tunnel_key) \<and>
   parseTunnelFlags (no_tunnel_flags\<lparr>tfl_tpdst := 65616\<rparr>) = Inr (SetTpDst 80 zero_tunnel_key)"
proof -
  have "parseTunnelFlags (no_tunnel_flags\<lparr>tfl_ttl := - 1\<rparr>) = Inr zero_tunnel_key"
    "parseTunnelFlags (no_tunnel_flags\<lparr>tfl_tpdst := - 1\<rparr>) = Inr zero_tunnel_key"
    by (simp_all add: parseTunnelFlags_def no_tunnel_flags_def string_option_def int_option_def)
  then show ?thesis
    using tunnel_numbers_truncated [of 256 no_tunnel_flags] tunnel_numbers_truncated [of 65616 no_tunnel_flags] by simp
qed

text \<open>
  The options printed for an Ethernet key, masks included, are read back as the same key
  once the shell has removed the quotes.  An address that is not matched at all must be zero.
\<close>

theorem ethernet_options_roundtrip:
  assumes "length sk = 6" "length sm = 6" "length dk = 6" "length dm = 6"
    and "sm = replicate 6 0 \<longrightarrow> sk = replicate 6 0" "dm = replicate 6 0 \<longrightarrow> dk = replicate 6 0"
    and "fs ''eth-src'' = Some (FString '''')" "fs ''eth-dst'' = Some (FString '''')"
  shows "\<exists>fs'. FlagSet_Parse
      (map (\<lambda>s. tl (unquote s)) (printEthAddrOption ''eth-src'' sk sm @ printEthAddrOption ''eth-dst'' dk dm)) fs =
        Inr ([], fs') \<and>
    handleEthernetFlowKeyOptions flow (string_flag (fs' ''eth-src'')) (string_flag (fs' ''eth-dst'')) =
      Ok (Inr (AddKey (FK_Ethernet (eth_fk sk sm dk dm)) flow))"
proof -
  let ?opts = "opt_if (sm \<noteq> replicate 6 0) ''eth-src'' (eth_text sk sm) @ opt_if (dm \<noteq> replicate 6 0) ''eth-dst'' (eth_text dk dm) @ []"
  let ?fs' = "upd_if (dm \<noteq> replicate 6 0) ''eth-dst'' (FString (eth_text dk dm))
    (upd_if (sm \<noteq> replicate 6 0) ''eth-src'' (FString (eth_text sk sm)) fs)"
  have "set_flags ?opts fs = Some ?fs'"
    using assms(7,8) by (simp add: set_flags_opt_if flag_name_def is_string_flag_def del: append_Nil2)
  then have "FlagSet_Parse (map (\<lambda>s. tl (unquote s))
      (printEthAddrOption ''eth-src'' sk sm @ printEthAddrOption ''eth-dst'' dk dm)) fs = Inr ([], ?fs')"
    using FlagSet_Parse_options [of ?opts fs ?fs' "[]"] assms(2,4)
    by (simp add: eth_args)
  moreover have "handleEthernetAddrOption (string_flag (?fs' ''eth-src'')) = (sk, sm, None)"
    "handleEthernetAddrOption (string_flag (?fs' ''eth-dst'')) = (dk, dm, None)"
    using assms by (auto simp: handleEthernetAddrOption_text) (simp_all add: handleEthernetAddrOption_def)
  ultimately show ?thesis using handleEthernetFlowKeyOptions_result [of _ sk sm None _ dk dm None flow]
    by (intro exI [of _ ?fs'] conjI) (simp_all only: option.case)
qed

theorem ethernet_options_roundtrip_witness:
  "\<exists>fs'. FlagSet_Parse [''--eth-src=02:00:00:00:00:01'', ''--eth-dst=01:00:00:00:00:00&01:00:00:00:00:00'']
       (Map.empty(''eth-src'' \<mapsto> FString '''', ''eth-dst'' \<mapsto> FString '''')) = Inr ([], fs') \<and>
    handleEthernetFlowKeyOptions NewFlowSpec (string_flag (fs' ''eth-src'')) (string_flag (fs' ''eth-dst'')) =
      Ok (Inr (AddKey (FK_Ethernet (eth_fk [2, 0, 0, 0, 0, 1] (replicate 6 0xff) [1, 0, 0, 0, 0, 0] [1, 0, 0, 0, 0, 0])) NewFlowSpec))"
proof -
  have "map (\<lambda>s. tl (unquote s)) (printEthAddrOption ''eth-src'' [2, 0, 0, 0, 0, 1] (replicate 6 0xff) @
      printEthAddrOption ''eth-dst'' [1, 0, 0, 0, 0, 0] [1, 0, 0, 0, 0, 0]) =
      [''--eth-src=02:00:00:00:00:01'', ''--eth-dst=01:00:00:00:00:00&01:00:00:00:00:00'']"
    by code_simp
  moreover have "replicate 6 (0xff :: byte) \<noteq> replicate 6 0" "[1, 0, 0, 0, 0, 0 :: byte] \<noteq> replicate 6 0" by code_simp+
  ultimately show ?thesis
    using ethernet_options_roundtrip [of "[2, 0, 0, 0, 0, 1]" "replicate 6 0xff" "[1, 0, 0, 0, 0, 0]" "[1, 0, 0, 0, 0, 0]"
        "Map.empty(''eth-src'' \<mapsto> FString '''', ''eth-dst'' \<mapsto> FString '''')" NewFlowSpec]
    by simp
qed

text \<open>
  Property C38: an error in the source address is lost when the destination address has none:
  the flow is made with the source address wildcarded.
\<close>

theorem ethernet_source_error_lost:
  assumes "handleEthernetAddrOption src = (sk, sm, Some e)" "handleEthernetAddrOption dst = (dk, dm, None)"
  shows "handleEthernetFlowKeyOptions flow src dst =
    Ok (Inr (AddKey (FK_Ethernet (eth_fk sk (replicate 6 0) dk dm)) flow))"
  using handleEthernetFlowKeyOptions_result [OF assms] handleEthernetAddrOption_lengths [OF assms(1)] by simp

theorem ethernet_source_error_lost_witness:
  "handleEthernetFlowKeyOptions NewFlowSpec ''02:00:00:00:00'' '''' =
    Ok (Inr (AddKey (FK_Ethernet (eth_fk (replicate 6 0) (replicate 6 0) (replicate 6 0) (replicate 6 0))) NewFlowSpec))"
proof -
  have "handleEthernetAddrOption ''02:00:00:00:00'' = (replicate 6 0, replicate 6 0, Some (MACSyntax ''02:00:00:00:00''))"
    "handleEthernetAddrOption '''' = (replicate 6 0, replicate 6 0, None)"
    by code_simp+
  then show ?thesis by (rule ethernet_source_error_lost)
qed

end
