(* ===== verification/Flow_Strings.thy ===== *)
theory Flow_Strings
  imports Go_Text Flow_Specs
begin

text \<open>
  The \<^verbatim>\<open>String\<close> methods of \<^verbatim>\<open>odp/flow.go\<close>.  A text under construction is the pair of the
  buffer and of the separator to write before the next field.
\<close>

section \<open>Keys\<close>

fun show_hex :: "nat \<Rightarrow> string" where
  "show_hex n = (if n < 16 then [hex_char n] else show_hex (n div 16) @ [hex_char (n mod 16)])"

declare show_hex.simps [simp del]

definition UnknownFlowKey_String :: "UnknownFlowKey \<Rightarrow> string" where
  "UnknownFlowKey_String k =
     (let m = (if uf_exact k then ''exact''
               else case uf_mask k of None \<Rightarrow> ''ignored'' | Some m \<Rightarrow> EncodeToString m)
      in ''UnknownFlowKey{type: '' @ show_nat (unat (uf_typ k)) @ '', key: '' @ EncodeToString (uf_key k) @
         '', mask: '' @ m @ ''}'')"

definition BlobFlowKey_String :: "BlobFlowKey \<Rightarrow> string" where
  "BlobFlowKey_String k =
     ''BlobFlowKey{type: '' @ show_nat (unat (bf_typ k)) @ '', key: '' @ EncodeToString (blob_key k) @
     '', mask: '' @ EncodeToString (blob_mask k) @ ''}''"

definition InPortFlowKey_String :: "BlobFlowKey \<Rightarrow> string res" where
  "InPortFlowKey_String k =
     map_res (\<lambda>v. ''InPortFlowKey{vport: '' @ show_nat (unat v) @ ''}'') (InPort_VportID k)"

type_synonym writer = "string \<times> string"

definition put_field :: "string \<Rightarrow> string \<Rightarrow> writer \<Rightarrow> writer" where
  "put_field n v = (\<lambda>(buf, sep). (buf @ sep @ n @ '': '' @ v, '', ''))"

definition printMaskedBytes ::
    "string \<Rightarrow> bytes \<Rightarrow> bytes \<Rightarrow> (bytes \<Rightarrow> string) \<Rightarrow> writer \<Rightarrow> writer" where
  "printMaskedBytes n k m s b =
     (if \<not> AllBytes m 0
      then put_field n (s k @ (if \<not> AllBytes m 0xff then ''&'' @ s m else '''')) b else b)"

definition EthernetFlowKey_String :: "BlobFlowKey \<Rightarrow> string res" where
  "EthernetFlowKey_String fk =
     (let b = (''EthernetFlowKey{'', '''');
          b = (if bf_typ fk \<noteq> OVS_KEY_ATTR_ETHERNET then put_field ''type'' (show_nat (unat (bf_typ fk))) b else b)
      in res_bind (eth_Key fk) (\<lambda>k. res_bind (eth_Mask fk) (\<lambda>m.
         let b = printMaskedBytes ''src'' (EthSrc k) (EthSrc m) HardwareAddr_String b;
             b = printMaskedBytes ''dst'' (EthDst k) (EthDst m) HardwareAddr_String b
         in Ok (fst b @ ''}''))))"

definition odp_ipv4ToString :: "bytes \<Rightarrow> string" where
  "odp_ipv4ToString ip = (case To4 ip of Some p \<Rightarrow> IPv4_String p | None \<Rightarrow> ''<nil>'')"

text \<open>The closures \<^verbatim>\<open>printByte\<close> and \<^verbatim>\<open>printUint16\<close>.\<close>

definition print_masked_number :: "nat \<Rightarrow> string \<Rightarrow> nat \<Rightarrow> nat \<Rightarrow> writer \<Rightarrow> writer" where
  "print_masked_number ones n k m b =
     (if m \<noteq> 0 then put_field n (show_nat k @ (if m \<noteq> ones then ''&'' @ show_hex m else '''')) b else b)"

definition put_if :: "bool \<Rightarrow> string \<Rightarrow> string \<Rightarrow> writer \<Rightarrow> writer" where
  "put_if c n v b = (if c then put_field n v b else b)"

definition TunnelFlowKey_String :: "TunnelFlowKey \<Rightarrow> string" where
  "TunnelFlowKey_String fk =
     (let k = tf_key fk; m = tf_mask fk;
          b = (''TunnelFlowKey{'', '''');
          b = printMaskedBytes ''id'' (TunnelId k) (TunnelId m) EncodeToString b;
          b = printMaskedBytes ''ipv4src'' (Ipv4Src k) (Ipv4Src m) odp_ipv4ToString b;
          b = printMaskedBytes ''ipv4dst'' (Ipv4Dst k) (Ipv4Dst m) odp_ipv4ToString b;
          b = print_masked_number 0xff ''tos'' (unat (Tos k)) (unat (Tos m)) b;
          b = print_masked_number 0xff ''ttl'' (unat (Ttl k)) (unat (Ttl m)) b;
          b = put_if (Df m) ''df'' (show_bool (Df k)) b;
          b = put_if (Csum m) ''sum'' (show_bool (Csum k)) b;
          b = print_masked_number 0xffff ''tpsrc'' (unat (TpSrc k)) (unat (TpSrc m)) b;
          b = print_masked_number 0xffff ''tpdst'' (unat (TpDst k)) (unat (TpDst m)) b
      in fst b @ ''}'')"

fun FlowKey_String :: "FlowKey \<Rightarrow> string res" where
  "FlowKey_String (FK_Unknown k) = Ok (UnknownFlowKey_String k)"
| "FlowKey_String (FK_Blob k) = Ok (BlobFlowKey_String k)"
| "FlowKey_String (FK_InPort k) = InPortFlowKey_String k"
| "FlowKey_String (FK_Ethernet k) = EthernetFlowKey_String k"
| "FlowKey_String (FK_Tunnel k) = Ok (TunnelFlowKey_String k)"

section \<open>Actions and flows\<close>

definition SetTunnelAction_String :: "TunnelAttrs \<Rightarrow> TunnelAttrsPresence \<Rightarrow> string" where
  "SetTunnelAction_String ta pr =
     (let b = (''SetTunnelAction{'', '''');
          b = put_if (pTunnelId pr) ''id'' (EncodeToString (TunnelId ta)) b;
          b = put_if (pIpv4Src pr) ''ipv4src'' (odp_ipv4ToString (Ipv4Src ta)) b;
          b = put_if (pIpv4Dst pr) ''ipv4dst'' (odp_ipv4ToString (Ipv4Dst ta)) b;
          b = put_if (pTos pr) ''tos'' (show_nat (unat (Tos ta))) b;
          b = put_if (pTtl pr) ''ttl'' (show_nat (unat (Ttl ta))) b;
          b = put_if (pDf pr) ''df'' (show_bool (Df ta)) b;
          b = put_if (pCsum pr) ''csum'' (show_bool (Csum ta)) b;
          b = put_if (pTpSrc pr) ''tpsrc'' (show_nat (unat (TpSrc ta))) b;
          b = put_if (pTpDst pr) ''tpdst'' (show_nat (unat (TpDst ta))) b
      in fst b @ ''}'')"

fun Action_String :: "Action \<Rightarrow> string" where
  "Action_String (OutputAction v) = ''OutputAction{vport: '' @ show_nat (unat v) @ ''}''"
| "Action_String (SetTunnelAction ta pr) = SetTunnelAction_String ta pr"
| "Action_String (SetUnknownAction t d) =
     ''SetUnknownAction{type: '' @ show_nat (unat t) @ '', data: '' @ EncodeToString d @ ''}''"

text \<open>
  The verb \<^verbatim>\<open>%v\<close> calls the \<^verbatim>\<open>String\<close> methods and catches their panics; \<open>caught\<close> is the text it
  writes instead, and \<open>ord\<close> the order of the loop over the keys.
\<close>

definition show_v :: "string \<Rightarrow> string res \<Rightarrow> string" where
  "show_v caught r = (case r of Ok s \<Rightarrow> s | _ \<Rightarrow> caught)"

definition FlowSpec_String :: "string \<Rightarrow> u16 list \<Rightarrow> FlowSpec \<Rightarrow> string" where
  "FlowSpec_String caught ord f =
     (let keys = List.map_filter (flow_keys f) ord
      in ''FlowSpec{keys: ['' @ join '' '' (map (\<lambda>k. show_v caught (FlowKey_String k)) keys) @
         ''], actions: ['' @ join '' '' (map Action_String (flow_actions f)) @ '']}'')"

section \<open>What the texts show\<close>

lemma put_field_cases [simp]:
  "fst (put_field n v b) = fst b @ snd b @ n @ '': '' @ v" "snd (put_field n v b) = '', ''"
  by (simp_all add: put_field_def split: prod.splits)

text \<open>A step of the writer only adds to the text, and adds nothing just when \<open>c\<close> holds.\<close>

definition idle_if :: "(writer \<Rightarrow> writer) \<Rightarrow> bool \<Rightarrow> bool" where
  "idle_if f c \<longleftrightarrow>
     (\<forall>b. length (fst b) \<le> length (fst (f b)) \<and> (length (fst (f b)) = length (fst b) \<longleftrightarrow> c) \<and> (c \<longrightarrow> f b = b))"

lemma idle_if_writers:
  "idle_if (printMaskedBytes n k m s) (AllBytes m 0)"
  "idle_if (print_masked_number ones n k' m') (m' = 0)"
  "idle_if (put_if c n v) (\<not> c)"
  by (simp_all add: idle_if_def printMaskedBytes_def print_masked_number_def put_if_def)

lemma idle_if_comp:
  assumes "idle_if f c" "idle_if g d"
  shows "idle_if (g \<circ> f) (c \<and> d)"
  unfolding idle_if_def o_apply
proof (intro allI conjI)
  fix b
  have "length (fst b) \<le> length (fst (f b))" "length (fst (f b)) = length (fst b) \<longleftrightarrow> c" "c \<Longrightarrow> f b = b"
    "length (fst (f b)) \<le> length (fst (g (f b)))" "length (fst (g (f b))) = length (fst (f b)) \<longleftrightarrow> d" "d \<Longrightarrow> g (f b) = f b"
    using assms unfolding idle_if_def by blast+
  then show "length (fst b) \<le> length (fst (g (f b)))" "length (fst (g (f b))) = length (fst b) \<longleftrightarrow> c \<and> d"
    "c \<and> d \<longrightarrow> g (f b) = b"
    by auto
qed

lemma idle_if_text: "idle_if f c \<Longrightarrow> fst (f b) @ ''}'' = fst b @ ''}'' \<longleftrightarrow> c"
  unfolding idle_if_def by (metis append_same_eq)

text \<open>
  The text of a tunnel key names a field exactly when its mask is not zero; the bare text stands
  for a key that matches everything.
\<close>

lemma tunnel_text_bare:
  "TunnelFlowKey_String \<lparr>tf_key = k, tf_mask = m\<rparr> = ''TunnelFlowKey{}'' \<longleftrightarrow>
     AllBytes (TunnelId m) 0 \<and> AllBytes (Ipv4Src m) 0 \<and> AllBytes (Ipv4Dst m) 0 \<and> Tos m = 0 \<and> Ttl m = 0 \<and>
     \<not> Df m \<and> \<not> Csum m \<and> TpSrc m = 0 \<and> TpDst m = 0"
proof -
  have w0: "unat (Tos m) = 0 \<longleftrightarrow> Tos m = 0" "unat (Ttl m) = 0 \<longleftrightarrow> Ttl m = 0"
    "unat (TpSrc m) = 0 \<longleftrightarrow> TpSrc m = 0" "unat (TpDst m) = 0 \<longleftrightarrow> TpDst m = 0"
    by (simp_all add: unat_eq_zero)
  let ?f = "print_masked_number 0xffff ''tpdst'' (unat (TpDst k)) (unat (TpDst m)) \<circ>
    (print_masked_number 0xffff ''tpsrc'' (unat (TpSrc k)) (unat (TpSrc m)) \<circ>
    (put_if (Csum m) ''sum'' (show_bool (Csum k)) \<circ> (put_if (Df m) ''df'' (show_bool (Df k)) \<circ>
    (print_masked_number 0xff ''ttl'' (unat (Ttl k)) (unat (Ttl m)) \<circ>
    (print_masked_number 0xff ''tos'' (unat (Tos k)) (unat (Tos m)) \<circ>
    (printMaskedBytes ''ipv4dst'' (Ipv4Dst k) (Ipv4Dst m) odp_ipv4ToString \<circ>
    (printMaskedBytes ''ipv4src'' (Ipv4Src k) (Ipv4Src m) odp_ipv4ToString \<circ>
    printMaskedBytes ''id'' (TunnelId k) (TunnelId m) EncodeToString)))))))"
  have "idle_if ?f ((((((((AllBytes (TunnelId m) 0 \<and> AllBytes (Ipv4Src m) 0) \<and> AllBytes (Ipv4Dst m) 0) \<and>
      unat (Tos m) = 0) \<and> unat (Ttl m) = 0) \<and> \<not> Df m) \<and> \<not> Csum m) \<and> unat (TpSrc m) = 0) \<and> unat (TpDst m) = 0)"
    by (intro idle_if_comp idle_if_writers)
  from idle_if_text [OF this, of "(''TunnelFlowKey{'', '''')"] show ?thesis
    by (simp only: TunnelFlowKey_String_def Let_def TunnelFlowKey.simps w0 fst_conv append.simps conj_assoc o_apply)
qed

end
