(* ===== verification/Tool_Commands.thy ===== *)
theory Tool_Commands
  imports Tool_Options Flow_Strings Packet
begin

text \<open>
  The commands of \<^verbatim>\<open>tool/odp/main.go\<close> over the model of the library: what they ask of the
  kernel, what they print, and the value they return.

  The state pairs what the process writes with the system of the library.  Texts are lists of
  chunks, in which an error stands for its text.  A function that returns a Go error is modelled
  by an outcome; one that returns a boolean returns \<open>Ok\<close> of it.
\<close>

section \<open>Output\<close>

datatype chunk = Text string | ErrorText error | OptionErrorText option_error | FlagErrorText flag_error

definition newline :: chunk where "newline = Text [CHR 0x0A]"

text \<open>
  The answers to starting \<^verbatim>\<open>tcpdump\<close> and to writing to its pipe, the data written, the times read
  from the clock (seconds and nanoseconds), and how often the channel \<^verbatim>\<open>done\<close> was closed.
\<close>

record out =
  stdout :: "chunk list"
  stderr :: "chunk list"
  stdinPipes :: "u64 option list"
  starts :: "u64 option list"
  pipeWrites :: "u64 option list"
  piped :: bytes
  clock :: "nat \<Rightarrow> int \<times> int"
  doneCloses :: nat

type_synonym st = "out \<times> sys"

definition lib :: "(sys \<Rightarrow> ('a, sys) outcome) \<Rightarrow> st \<Rightarrow> ('a, st) outcome" where
  "lib f s = (case s of (u, w) \<Rightarrow> case f w of (r, w') \<Rightarrow> (r, (u, w')))"

text \<open>A Go error that the caller examines.\<close>

definition attempt :: "('a, 's) outcome \<Rightarrow> (error + 'a, 's) outcome" where
  "attempt r = (case r of (Ok x, s) \<Rightarrow> (Ok (Inr x), s) | (Err e, s) \<Rightarrow> (Ok (Inl e), s)
     | (Crash c, s) \<Rightarrow> (Crash c, s) | (Blocked b, s) \<Rightarrow> (Blocked b, s))"

definition emit :: "chunk list \<Rightarrow> st \<Rightarrow> st" where
  "emit cs s = (case s of (u, w) \<Rightarrow> (u\<lparr>stdout := stdout u @ cs\<rparr>, w))"

definition emit_err :: "chunk list \<Rightarrow> st \<Rightarrow> st" where
  "emit_err cs s = (case s of (u, w) \<Rightarrow> (u\<lparr>stderr := stderr u @ cs\<rparr>, w))"

definition printErr :: "chunk list \<Rightarrow> st \<Rightarrow> (bool, st) outcome" where
  "printErr cs s = (Ok False, emit_err (cs @ [newline]) s)"

section \<open>Parameters and results\<close>

text \<open>
  The orders in which loops range over maps: attributes, the map of datapaths, the key set that
  is encoded (keys and masks) or printed.
\<close>

record choices =
  ch_attrs :: ranger
  ch_flows :: rangers
  ch_names :: "string set \<Rightarrow> string list"
  ch_keys :: "FlowKeys \<Rightarrow> u16 list"
  ch_masks :: "FlowKeys \<Rightarrow> u16 list"
  ch_print :: "FlowKeys \<Rightarrow> u16 list"

text \<open>A command returns, or the process exits in \<^verbatim>\<open>Flags.Parse\<close>.\<close>

datatype finish = Returned bool | Exited exit_reason

definition returned :: "(bool, st) outcome \<Rightarrow> (finish, st) outcome" where
  "returned r = (case r of (x, s) \<Rightarrow> (map_res Returned x, s))"

fun exit_message :: "exit_reason \<Rightarrow> chunk list" where
  "exit_message (FlagFailed e) = [FlagErrorText e]"
| "exit_message ExcessArguments = [Text ''Excess arguments'', newline]"
| "exit_message InsufficientArguments = [Text ''Insufficient arguments'', newline]"

definition parsing ::
    "flag_set \<Rightarrow> string list \<Rightarrow> nat \<Rightarrow> nat \<Rightarrow> (string list \<Rightarrow> flag_set \<Rightarrow> st \<Rightarrow> (finish, st) outcome) \<Rightarrow>
     st \<Rightarrow> (finish, st) outcome" where
  "parsing fs fargs minArgs maxArgs body s =
     (case Flags_Parse fs fargs minArgs maxArgs of
        Inl e \<Rightarrow> (Ok (Exited e), emit_err (exit_message e) s)
      | Inr (args, fs) \<Rightarrow> body args fs s)"

text \<open>
  Opening the interface as every command does, with the deferred \<^verbatim>\<open>Close\<close>, which also runs when
  the command panics; nothing runs after \<^verbatim>\<open>os.Exit\<close>.
\<close>

definition with_dpif ::
    "choices \<Rightarrow> (Dpif \<Rightarrow> st \<Rightarrow> (finish, st) outcome) \<Rightarrow> st \<Rightarrow> (finish, st) outcome" where
  "with_dpif ch body s =
     (case lib (NewDpif (ch_attrs ch)) s of
        (Err e, s) \<Rightarrow> returned (printErr [ErrorText e] s)
      | (Ok dpif, s) \<Rightarrow>
          (case body dpif s of
             (Ok (Exited e), s) \<Rightarrow> (Ok (Exited e), s)
           | (Blocked b, s) \<Rightarrow> (Blocked b, s)
           | (r, s) \<Rightarrow> (r, snd (lib (Dpif_Close dpif) s)))
      | (Crash c, s) \<Rightarrow> (Crash c, s)
      | (Blocked b, s) \<Rightarrow> (Blocked b, s))"

text \<open>\<^verbatim>\<open>if err != nil { return printErr("%s", err) }\<close>, and otherwise go on.\<close>

definition or_print :: "('a, st) outcome \<Rightarrow> ('a \<Rightarrow> st \<Rightarrow> (bool, st) outcome) \<Rightarrow> (bool, st) outcome" where
  "or_print r f =
     and_then (attempt r) (\<lambda>x s. case x of Inl e \<Rightarrow> printErr [ErrorText e] s | Inr y \<Rightarrow> f y s)"

definition succeed :: "'a \<Rightarrow> st \<Rightarrow> (bool, st) outcome" where
  "succeed x s = (Ok True, s)"

section \<open>Datapath commands\<close>

definition addDatapath :: "choices \<Rightarrow> string list \<Rightarrow> st \<Rightarrow> (finish, st) outcome" where
  "addDatapath ch fargs =
     parsing Map.empty fargs 1 1 (\<lambda>args _. with_dpif ch (\<lambda>dpif s. returned (
       and_then (attempt (lib (CreateDatapath dpif (args ! 0)) s)) (\<lambda>r s.
         case r of
           Inr _ \<Rightarrow> (Ok True, s)
         | Inl e \<Rightarrow>
             if IsDatapathNameAlreadyExistsError e
             then printErr [Text (''Network device named '' @ args ! 0 @ '' already exists'')] s
             else printErr [ErrorText e] s))))"

definition cannot_find :: "string \<Rightarrow> string \<Rightarrow> chunk list" where
  "cannot_find what name = [Text (''Cannot find '' @ what @ '' '' @ [CHR 0x22] @ name @ [CHR 0x22])]"

definition lookupDatapath :: "Dpif \<Rightarrow> string \<Rightarrow> st \<Rightarrow> ((DatapathHandle \<times> string) option, st) outcome" where
  "lookupDatapath dpif name s =
     and_then (attempt (lib (LookupDatapath dpif name) s)) (\<lambda>r s.
     case r of
       Inr dph \<Rightarrow> (Ok (Some (dph, name)), s)
     | Inl e \<Rightarrow>
         if \<not> IsNoSuchDatapathError e then (Ok None, snd (printErr [ErrorText e] s))
         else case ParseUint name 10 32 of
           None \<Rightarrow> (Ok None, snd (printErr (cannot_find ''datapath'' name) s))
         | Some ifindex \<Rightarrow>
             and_then (attempt (lib (LookupDatapathByID dpif (of_nat ifindex)) s)) (\<lambda>r s.
             case r of
               Inr dp \<Rightarrow> (Ok (Some (Handle dp, Name dp)), s)
             | Inl e \<Rightarrow>
                 if \<not> IsNoSuchDatapathError e then (Ok None, snd (printErr [ErrorText e] s))
                 else (Ok None, snd (printErr (cannot_find ''datapath'' name) s))))"

text \<open>\<^verbatim>\<open>if dp == nil { return false }\<close>.\<close>

definition with_datapath ::
    "Dpif \<Rightarrow> string \<Rightarrow> (DatapathHandle \<Rightarrow> string \<Rightarrow> st \<Rightarrow> (bool, st) outcome) \<Rightarrow> st \<Rightarrow> (bool, st) outcome" where
  "with_datapath dpif name body s =
     and_then (lookupDatapath dpif name s) (\<lambda>r s.
       case r of None \<Rightarrow> (Ok False, s) | Some (dp, dpname) \<Rightarrow> body dp dpname s)"

definition deleteDatapath :: "choices \<Rightarrow> string list \<Rightarrow> st \<Rightarrow> (finish, st) outcome" where
  "deleteDatapath ch fargs =
     parsing Map.empty fargs 1 1 (\<lambda>args _. with_dpif ch (\<lambda>dpif s. returned (
       with_datapath dpif (args ! 0) (\<lambda>dp _ s. or_print (lib (Delete dp) s) succeed) s)))"

text \<open>The error of \<^verbatim>\<open>EnumerateDatapaths\<close> is assigned and not examined; the map is then nil.\<close>

definition show_datapaths :: "choices \<Rightarrow> Dpif \<Rightarrow> st \<Rightarrow> (bool, st) outcome" where
  "show_datapaths ch dpif s =
     and_then (attempt (lib (EnumerateDatapaths dpif) s)) (\<lambda>r s.
       let dps = (case r of Inl _ \<Rightarrow> Map.empty | Inr dps \<Rightarrow> dps)
       in (Ok True, emit (List.map_filter (\<lambda>name.
            map_option (\<lambda>dp. Text (show_int (sint (dp_ifindex dp)) @ '': '' @ name @ [CHR 0x0A])) (dps name))
            (ch_names ch (dom dps))) s))"

definition listDatapaths :: "choices \<Rightarrow> string list \<Rightarrow> st \<Rightarrow> (finish, st) outcome" where
  "listDatapaths ch fargs =
     parsing Map.empty fargs 0 0 (\<lambda>args _. with_dpif ch (\<lambda>dpif s. returned (show_datapaths ch dpif s)))"

section \<open>Vport commands\<close>

definition addVport :: "choices \<Rightarrow> string \<Rightarrow> VportSpec \<Rightarrow> st \<Rightarrow> (finish, st) outcome" where
  "addVport ch dpname spec =
     with_dpif ch (\<lambda>dpif s. returned (
       with_datapath dpif dpname (\<lambda>dp _ s. or_print (lib (CreateVport dp spec) s) succeed) s))"

definition addNetdevVport :: "choices \<Rightarrow> string list \<Rightarrow> st \<Rightarrow> (finish, st) outcome" where
  "addNetdevVport ch fargs =
     parsing Map.empty fargs 2 2 (\<lambda>args _. addVport ch (args ! 0) (NewNetdevVportSpec (args ! 1)))"

definition addInternalVport :: "choices \<Rightarrow> string list \<Rightarrow> st \<Rightarrow> (finish, st) outcome" where
  "addInternalVport ch fargs =
     parsing Map.empty fargs 2 2 (\<lambda>args _. addVport ch (args ! 0) (NewInternalVportSpec (args ! 1)))"

fun uint_flag :: "flag_value option \<Rightarrow> nat" where
  "uint_flag (Some (FUint n)) = n"
| "uint_flag _ = 0"

definition addUdpVport ::
    "choices \<Rightarrow> string list \<Rightarrow> nat \<Rightarrow> (string \<Rightarrow> u16 \<Rightarrow> VportSpec) \<Rightarrow> st \<Rightarrow> (finish, st) outcome" where
  "addUdpVport ch fargs defaultPort makeVportSpec =
     parsing [''port'' \<mapsto> FUint defaultPort] fargs 2 2 (\<lambda>args fs s.
       let port = uint_flag (fs ''port'') in
       if port > 65535 then returned (printErr [Text ''port number too large''] s)
       else addVport ch (args ! 0) (makeVportSpec (args ! 1) (of_nat port)) s)"

definition addVxlanVport :: "choices \<Rightarrow> string list \<Rightarrow> st \<Rightarrow> (finish, st) outcome" where
  "addVxlanVport ch fargs = addUdpVport ch fargs 4789 NewVxlanVportSpec"

definition addGreVport :: "choices \<Rightarrow> string list \<Rightarrow> st \<Rightarrow> (finish, st) outcome" where
  "addGreVport ch fargs =
     parsing Map.empty fargs 2 2 (\<lambda>args _. addVport ch (args ! 0) (NewGreVportSpec (args ! 1)))"

definition addGeneveVport :: "choices \<Rightarrow> string list \<Rightarrow> st \<Rightarrow> (finish, st) outcome" where
  "addGeneveVport ch fargs = addUdpVport ch fargs 6081 NewGeneveVportSpec"

definition deleteVport :: "choices \<Rightarrow> string list \<Rightarrow> st \<Rightarrow> (finish, st) outcome" where
  "deleteVport ch fargs =
     parsing Map.empty fargs 1 1 (\<lambda>args _. with_dpif ch (\<lambda>dpif s. returned (
       and_then (attempt (lib (LookupVportByName dpif (args ! 0)) s)) (\<lambda>r s.
         case r of
           Inl e \<Rightarrow>
             if IsNoSuchVportError e then printErr (cannot_find ''port'' (args ! 0)) s
             else printErr [ErrorText e] s
         | Inr (dp, vport) \<Rightarrow> or_print (lib (DeleteVport dp (vp_ID vport)) s) succeed))))"

text \<open>A method of a nil \<^verbatim>\<open>Spec\<close> panics.\<close>

fun port_text :: "VportSpec \<Rightarrow> string" where
  "port_text (VxlanVportSpec name port) = '' --port='' @ show_nat (unat port)"
| "port_text (GeneveVportSpec name port) = '' --port='' @ show_nat (unat port)"
| "port_text _ = ''''"

definition printVport :: "string \<Rightarrow> string \<Rightarrow> Vport \<Rightarrow> st \<Rightarrow> (unit, st) outcome" where
  "printVport pfx dpname vport s =
     (case vp_Spec vport of
        None \<Rightarrow> (Crash NilDereference, s)
      | Some spec \<Rightarrow> (Ok (), emit [Text (pfx @ TypeName spec @ '' '' @ dpname @ '' '' @ spec_Name spec),
          Text (port_text spec), newline] s))"

fun print_vports :: "string \<Rightarrow> Vport list \<Rightarrow> st \<Rightarrow> (unit, st) outcome" where
  "print_vports dpname [] s = (Ok (), s)"
| "print_vports dpname (v # vs) s = and_then (printVport '''' dpname v s) (\<lambda>_. print_vports dpname vs)"

definition printVports :: "string \<Rightarrow> DatapathHandle \<Rightarrow> st \<Rightarrow> (bool, st) outcome" where
  "printVports dpname dp s =
     or_print (lib (EnumerateVports dp) s) (\<lambda>vports s.
       and_then (print_vports dpname vports s) succeed)"

fun print_datapaths :: "(string \<rightharpoonup> DatapathHandle) \<Rightarrow> string list \<Rightarrow> st \<Rightarrow> (bool, st) outcome" where
  "print_datapaths dps [] s = (Ok True, s)"
| "print_datapaths dps (dpname # names) s =
     (case dps dpname of
        None \<Rightarrow> print_datapaths dps names s
      | Some dp \<Rightarrow>
          and_then (printVports dpname dp s) (\<lambda>ok s. if \<not> ok then (Ok False, s) else print_datapaths dps names s))"

definition listVports :: "choices \<Rightarrow> string list \<Rightarrow> st \<Rightarrow> (finish, st) outcome" where
  "listVports ch fargs =
     parsing Map.empty fargs 0 1 (\<lambda>args _. with_dpif ch (\<lambda>dpif s. returned (
       if args = [] then
         or_print (lib (EnumerateDatapaths dpif) s) (\<lambda>dps. print_datapaths dps (ch_names ch (dom dps)))
       else with_datapath dpif (args ! 0) (\<lambda>dp dpname. printVports dpname dp) s)))"

section \<open>Printing flows\<close>

definition emits :: "string list \<Rightarrow> st \<Rightarrow> st" where
  "emits ss = emit (map Text ss)"

text \<open>The default case prints the type and the \<^verbatim>\<open>String\<close> of the key.\<close>

fun print_key :: "FlowKey \<Rightarrow> DatapathHandle \<Rightarrow> st \<Rightarrow> (unit, st) outcome" where
  "print_key (FK_InPort fk) dp s =
     and_then (InPort_VportID fk, s) (\<lambda>v s.
     and_then (lib (LookupVportName dp v) s) (\<lambda>name s. (Ok (), emits ['' --in-port='' @ name] s)))"
| "print_key (FK_Ethernet fk) dp s =
     and_then (eth_Key fk, s) (\<lambda>k s. and_then (eth_Mask fk, s) (\<lambda>m s.
       (Ok (), emits (printEthAddrOption ''eth-src'' (EthSrc k) (EthSrc m) @
          printEthAddrOption ''eth-dst'' (EthDst k) (EthDst m)) s)))"
| "print_key (FK_Tunnel fk) dp s = (Ok (), emits (printTunnelOptions fk ''tunnel-'') s)"
| "print_key (FK_Unknown fk) dp s = (Ok (), emits ['' odp.UnknownFlowKey:'' @ UnknownFlowKey_String fk] s)"
| "print_key (FK_Blob fk) dp s = (Ok (), emits ['' odp.BlobFlowKey:'' @ BlobFlowKey_String fk] s)"

fun print_keys :: "FlowKey list \<Rightarrow> DatapathHandle \<Rightarrow> st \<Rightarrow> (unit, st) outcome" where
  "print_keys [] dp s = (Ok (), s)"
| "print_keys (fk # fks) dp s =
     (if Ignored fk then print_keys fks dp s
      else and_then (print_key fk dp s) (\<lambda>_. print_keys fks dp))"

definition printFlowKeys :: "choices \<Rightarrow> FlowKeys \<Rightarrow> DatapathHandle \<Rightarrow> st \<Rightarrow> (unit, st) outcome" where
  "printFlowKeys ch fks dp = print_keys (List.map_filter fks (ch_print ch fks)) dp"

fun print_actions :: "Action list \<Rightarrow> string list \<Rightarrow> DatapathHandle \<Rightarrow> st \<Rightarrow> (string list, st) outcome" where
  "print_actions [] outputs dp s = (Ok outputs, s)"
| "print_actions (OutputAction v # as) outputs dp s =
     and_then (lib (LookupVportName dp v) s) (\<lambda>name. print_actions as (outputs @ [name]) dp)"
| "print_actions (SetTunnelAction ta pr # as) outputs dp s =
     print_actions as outputs dp (emits (printSetTunnelOptions ta pr) s)"
| "print_actions (SetUnknownAction t d # as) outputs dp s =
     print_actions as outputs dp (emits ['' '' @ Action_String (SetUnknownAction t d)] s)"

definition printFlowActions :: "Action list \<Rightarrow> DatapathHandle \<Rightarrow> st \<Rightarrow> (unit, st) outcome" where
  "printFlowActions as dp s =
     and_then (print_actions as [] dp s) (\<lambda>outputs s.
       (Ok (), if outputs \<noteq> [] then emits ['' --output='' @ join '','' outputs] s else s))"

section \<open>Flow commands\<close>

definition flow_flags :: flag_set where
  "flow_flags =
     (addTunnelFlags ''set-tunnel-'' (addTunnelFlags ''tunnel-''
       [''in-port'' \<mapsto> FString '''', ''eth-src'' \<mapsto> FString '''', ''eth-dst'' \<mapsto> FString '''']))
     (''output'' \<mapsto> FString '''')"

fun add_outputs :: "DatapathHandle \<Rightarrow> string list \<Rightarrow> FlowSpec \<Rightarrow> st \<Rightarrow> (error + FlowSpec, st) outcome" where
  "add_outputs dp [] flow s = (Ok (Inr flow), s)"
| "add_outputs dp (vpname # vpnames) flow s =
     and_then (attempt (lib (dp_LookupVportByName dp vpname) s)) (\<lambda>r s.
       case r of
         Inl e \<Rightarrow> (Ok (Inl e), s)
       | Inr vport \<Rightarrow> add_outputs dp vpnames (AddAction (NewOutputAction (vp_ID vport)) flow) s)"

text \<open>
  The part of \<^verbatim>\<open>flagsToFlowSpec\<close> after the flags were parsed.  \<^verbatim>\<open>FlowSpec\<close> is passed by value to
  \<^verbatim>\<open>handleEthernetFlowKeyOptions\<close>, but its key set is a map, which is shared.
\<close>

definition fail_opt :: "chunk list \<Rightarrow> st \<Rightarrow> ('a option, st) outcome" where
  "fail_opt cs s = (Ok None, snd (printErr cs s))"

definition add_in_port :: "DatapathHandle \<Rightarrow> string \<Rightarrow> FlowSpec \<Rightarrow> st \<Rightarrow> (error + FlowSpec, st) outcome" where
  "add_in_port dp inPort flow s =
     (if inPort = '''' then (Ok (Inr flow), s)
      else and_then (attempt (lib (dp_LookupVportByName dp inPort) s)) (\<lambda>r s.
        case r of
          Inl e \<Rightarrow> (Ok (Inl e), s)
        | Inr vport \<Rightarrow> (Ok (Inr (AddKey (NewInPortFlowKey (vp_ID vport)) flow)), s)))"

definition add_tunnel :: "TunnelFlowKey \<Rightarrow> FlowSpec \<Rightarrow> FlowSpec" where
  "add_tunnel fk flow = (if \<not> Ignored (FK_Tunnel fk) then AddKey (FK_Tunnel fk) flow else flow)"

definition add_set_tunnel :: "Action option \<Rightarrow> FlowSpec \<Rightarrow> FlowSpec" where
  "add_set_tunnel a flow = (case a of None \<Rightarrow> flow | Some a \<Rightarrow> AddAction a flow)"

definition read_flow :: "DatapathHandle \<Rightarrow> flag_set \<Rightarrow> st \<Rightarrow> (FlowSpec option, st) outcome" where
  "read_flow dp fs s =
     and_then (add_in_port dp (string_flag (fs ''in-port'')) NewFlowSpec s) (\<lambda>r s. case r of
       Inl e \<Rightarrow> fail_opt [ErrorText e] s
     | Inr flow \<Rightarrow>
     and_then (handleEthernetFlowKeyOptions flow (string_flag (fs ''eth-src'')) (string_flag (fs ''eth-dst'')), s) (\<lambda>r s.
     case r of
       Inl e \<Rightarrow> fail_opt [OptionErrorText e] s
     | Inr flow \<Rightarrow>
     (case parseTunnelFlags (tunnel_flags ''tunnel-'' fs) of
       Inl e \<Rightarrow> fail_opt [OptionErrorText e] s
     | Inr flowKey \<Rightarrow>
     (case parseSetTunnelFlags (tunnel_flags ''set-tunnel-'' fs) of
       Inl e \<Rightarrow> fail_opt [OptionErrorText e] s
     | Inr setTunAttrs \<Rightarrow>
     (let flow = add_set_tunnel setTunAttrs (add_tunnel flowKey flow);
          output = string_flag (fs ''output'') in
      if output = '''' then (Ok (Some flow), s)
      else and_then (add_outputs dp (split_on (CHR '','') output) flow s) (\<lambda>r s.
        case r of Inl e \<Rightarrow> fail_opt [ErrorText e] s | Inr flow \<Rightarrow> (Ok (Some flow), s)))))))"

definition flagsToFlowSpec ::
    "string list \<Rightarrow> Dpif \<Rightarrow> (DatapathHandle \<Rightarrow> FlowSpec \<Rightarrow> st \<Rightarrow> (bool, st) outcome) \<Rightarrow> st \<Rightarrow> (finish, st) outcome" where
  "flagsToFlowSpec fargs dpif body =
     parsing flow_flags fargs 1 1 (\<lambda>args fs s. returned (
       with_datapath dpif (args ! 0) (\<lambda>dp _ s.
         and_then (read_flow dp fs s) (\<lambda>r s. case r of None \<Rightarrow> (Ok False, s) | Some flow \<Rightarrow> body dp flow s)) s))"

definition addFlow :: "choices \<Rightarrow> string list \<Rightarrow> st \<Rightarrow> (finish, st) outcome" where
  "addFlow ch fargs =
     with_dpif ch (\<lambda>dpif. flagsToFlowSpec fargs dpif (\<lambda>dp flow s.
       or_print (lib (CreateFlow (ch_keys ch (flow_keys flow)) (ch_masks ch (flow_keys flow)) dp flow) s) succeed))"

text \<open>Deleting and clearing report a missing flow in their own words.\<close>

definition or_no_such_flow :: "(unit, st) outcome \<Rightarrow> (bool, st) outcome" where
  "or_no_such_flow r =
     and_then (attempt r) (\<lambda>x s. case x of
       Inr _ \<Rightarrow> (Ok True, s)
     | Inl e \<Rightarrow> if IsNoSuchFlowError e then printErr [Text ''No such flow''] s else printErr [ErrorText e] s)"

definition deleteFlow :: "choices \<Rightarrow> string list \<Rightarrow> st \<Rightarrow> (finish, st) outcome" where
  "deleteFlow ch fargs =
     with_dpif ch (\<lambda>dpif. flagsToFlowSpec fargs dpif (\<lambda>dp flow s.
       or_no_such_flow (lib (DeleteFlow (ch_keys ch (flow_keys flow)) (ch_masks ch (flow_keys flow)) dp (flow_keys flow)) s)))"

definition clearFlow :: "choices \<Rightarrow> string list \<Rightarrow> st \<Rightarrow> (finish, st) outcome" where
  "clearFlow ch fargs =
     with_dpif ch (\<lambda>dpif. flagsToFlowSpec fargs dpif (\<lambda>dp flow s.
       or_no_such_flow (lib (ClearFlow (ch_keys ch (flow_keys flow)) (ch_masks ch (flow_keys flow)) dp flow) s)))"

fun bool_flag :: "flag_value option \<Rightarrow> bool" where
  "bool_flag (Some (FBool b)) = b"
| "bool_flag _ = False"

definition stats_text :: "FlowInfo \<Rightarrow> string" where
  "stats_text fi = '': '' @ show_nat (unat (Packets fi)) @ '' packets, '' @ show_nat (unat (Bytes fi)) @
     '' bytes, used '' @ show_nat (unat (Used fi))"

fun print_flows ::
    "choices \<Rightarrow> bool \<Rightarrow> string \<Rightarrow> DatapathHandle \<Rightarrow> FlowInfo list \<Rightarrow> st \<Rightarrow> (unit, st) outcome" where
  "print_flows ch showStats dpname dp [] s = (Ok (), s)"
| "print_flows ch showStats dpname dp (fi # fis) s =
     and_then (printFlowKeys ch (flow_keys fi) dp (emits [dpname] s)) (\<lambda>_ s.
     and_then (printFlowActions (flow_actions fi) dp s) (\<lambda>_ s.
     print_flows ch showStats dpname dp fis
       (emit [newline] (if showStats then emits [stats_text fi] s else s))))"

definition listFlows :: "choices \<Rightarrow> string list \<Rightarrow> st \<Rightarrow> (finish, st) outcome" where
  "listFlows ch fargs =
     parsing [''stats'' \<mapsto> FBool False] fargs 1 1 (\<lambda>args fs. with_dpif ch (\<lambda>dpif s. returned (
       with_datapath dpif (args ! 0) (\<lambda>dp dpname s.
         or_print (lib (EnumerateFlows (ch_flows ch) dp) s) (\<lambda>flows s.
         or_print (print_flows ch (bool_flag (fs ''stats'')) dpname dp flows s) succeed)) s)))"

section \<open>Listening\<close>

definition consumer_Error :: "error \<Rightarrow> bool \<Rightarrow> out \<Rightarrow> out" where
  "consumer_Error err stopped u =
     (let u = u\<lparr>stdout := stdout u @ [Text ''Error: '', ErrorText err, newline]\<rparr>
      in if stopped then u\<lparr>doneCloses := doneCloses u + 1\<rparr> else u)"

text \<open>The headers written to \<^verbatim>\<open>tcpdump\<close>.\<close>

record pcapHeader =
  magicNumber :: u32
  versionMajor :: u16
  versionMinor :: u16
  thisZone :: i32
  sigFigs :: u32
  snapLen :: u32
  network :: u32

definition pcapHeader_bytes :: "pcapHeader \<Rightarrow> bytes" where
  "pcapHeader_bytes h = enc_word 4 (magicNumber h) @ enc_word 2 (versionMajor h) @ enc_word 2 (versionMinor h) @
     enc_word 4 (thisZone h) @ enc_word 4 (sigFigs h) @ enc_word 4 (snapLen h) @ enc_word 4 (network h)"

record pcapPacketHeader =
  sec :: u32
  usec :: u32
  inclLen :: u32
  origLen :: u32

definition pcapPacketHeader_bytes :: "pcapPacketHeader \<Rightarrow> bytes" where
  "pcapPacketHeader_bytes h = enc_word 4 (sec h) @ enc_word 4 (usec h) @ enc_word 4 (inclLen h) @ enc_word 4 (origLen h)"

definition pipe_write :: "bytes \<Rightarrow> st \<Rightarrow> (unit, st) outcome" where
  "pipe_write b s = (case s of (u, w) \<Rightarrow>
     let r = answer (pipeWrites u); u = u\<lparr>pipeWrites := tl (pipeWrites u)\<rparr>
     in (r, (if is_ok r then u\<lparr>piped := piped u @ b\<rparr> else u, w)))"

definition openTcpdump :: "st \<Rightarrow> (unit, st) outcome" where
  "openTcpdump s = (case s of (u, w) \<Rightarrow>
     and_then (answer (stdinPipes u), (u\<lparr>stdinPipes := tl (stdinPipes u)\<rparr>, w)) (\<lambda>_ (u, w).
     and_then (answer (starts u), (u\<lparr>starts := tl (starts u)\<rparr>, w)) (\<lambda>_.
     pipe_write (pcapHeader_bytes
       \<lparr>magicNumber = 0xa1b23c4d, versionMajor = 2, versionMinor = 4, thisZone = 0, sigFigs = 0,
        snapLen = 65535, network = 1\<rparr>))))"

definition writeTcpdumpPacket :: "int \<times> int \<Rightarrow> bytes \<Rightarrow> st \<Rightarrow> (unit, st) outcome" where
  "writeTcpdumpPacket t packet s =
     and_then (pipe_write (pcapPacketHeader_bytes
       \<lparr>sec = of_int (fst t), usec = of_int (snd t), inclLen = of_nat (length packet),
        origLen = of_nat (length packet)\<rparr>) s) (\<lambda>_. pipe_write packet)"

definition time_Now :: "st \<Rightarrow> (int \<times> int) \<times> st" where
  "time_Now s = (case s of (u, w) \<Rightarrow> (clock u 0, (u\<lparr>clock := (\<lambda>i. clock u (Suc i))\<rparr>, w)))"

definition listen_miss ::
    "choices \<Rightarrow> bool \<Rightarrow> string \<Rightarrow> DatapathHandle \<Rightarrow> bytes option \<Rightarrow> FlowKeys \<Rightarrow> st \<Rightarrow> (unit, st) outcome" where
  "listen_miss ch showKeys dpname dp packet flowKeys s =
     and_then (if showKeys
       then and_then (printFlowKeys ch flowKeys dp (emits [''['' @ dpname] s)) (\<lambda>_ s. (Ok (), emit [Text '']'', newline] s))
       else (Ok (), s)) (\<lambda>_ s.
     case time_Now s of (t, s) \<Rightarrow> writeTcpdumpPacket t (nil_bytes packet) s)"

text \<open>
  The command waits until the consumer has been told that it is stopped: it returns when the
  goroutine of \<^verbatim>\<open>ConsumeMisses\<close> has ended.
\<close>

definition listenOnDatapath :: "choices \<Rightarrow> string list \<Rightarrow> st \<Rightarrow> (finish, st) outcome" where
  "listenOnDatapath ch fargs =
     parsing [''keys'' \<mapsto> FBool False] fargs 1 1 (\<lambda>args fs. with_dpif ch (\<lambda>dpif s. returned (
       with_datapath dpif (args ! 0) (\<lambda>dp dpname s.
         and_then (attempt (openTcpdump s)) (\<lambda>r s. case r of
           Inl e \<Rightarrow> printErr [Text ''Error starting tcpdump: '', ErrorText e] s
         | Inr _ \<Rightarrow>
             or_print (lib (ConsumeMisses dp) s) (\<lambda>ms s.
               and_then (consumeMisses (ch_attrs ch)
                 \<lparr>Miss = listen_miss ch (bool_flag (fs ''keys'')) dpname dp, miss_Error = consumer_Error\<rparr> ms s)
                 succeed))) s)))"

definition report_vport :: "Dpif \<Rightarrow> string \<Rightarrow> i32 \<Rightarrow> Vport \<Rightarrow> st \<Rightarrow> (unit, st) outcome" where
  "report_vport dpif pfx dpid vport s =
     and_then (lib (LookupDatapathByID dpif dpid) s) (\<lambda>dp. printVport pfx (Name dp) vport)"

definition vportEventsConsumer :: "Dpif \<Rightarrow> out VportEventsConsumer" where
  "vportEventsConsumer dpif =
     \<lparr>VportCreated = report_vport dpif ''add '', VportDeleted = report_vport dpif ''delete '',
      vport_Error = consumer_Error\<rparr>"

definition listenForVports :: "choices \<Rightarrow> string list \<Rightarrow> st \<Rightarrow> (finish, st) outcome" where
  "listenForVports ch fargs =
     parsing Map.empty fargs 0 0 (\<lambda>args _. with_dpif ch (\<lambda>dpif s. returned (
       or_print (lib (dpif_ConsumeVportEvents dpif) s) (\<lambda>consumeDpif s.
         and_then (consumeVportEvents consumeDpif (vportEventsConsumer dpif) (- 1) s) succeed))))"

section \<open>The program\<close>

fun handle :: "Tool_Dispatch.handler \<Rightarrow> choices \<Rightarrow> string list \<Rightarrow> st \<Rightarrow> (finish, st) outcome" where
  "handle ListDatapaths = listDatapaths"
| "handle AddDatapath = addDatapath"
| "handle DeleteDatapath = deleteDatapath"
| "handle ListenOnDatapath = listenOnDatapath"
| "handle ListVports = listVports"
| "handle AddNetdevVport = addNetdevVport"
| "handle AddInternalVport = addInternalVport"
| "handle AddVxlanVport = addVxlanVport"
| "handle AddGreVport = addGreVport"
| "handle AddGeneveVport = addGeneveVport"
| "handle DeleteVportCmd = deleteVport"
| "handle ListenForVports = listenForVports"
| "handle AddFlow = addFlow"
| "handle DeleteFlowCmd = deleteFlow"
| "handle ClearFlowCmd = clearFlow"
| "handle ListFlows = listFlows"

definition quoted :: "string \<Rightarrow> string" where
  "quoted s = [CHR 0x22] @ s @ [CHR 0x22]"

definition try_help :: "string \<Rightarrow> string \<Rightarrow> string list \<Rightarrow> chunk list" where
  "try_help msg prog path = [Text (msg @ quoted (join '' '' path) @ ''.  Try '' @ quoted (prog @ '' help''))]"

text \<open>The exit status of the process; \<open>flagStatus\<close> is the one the flag package exits with.\<close>

definition exit_status :: "(flag_error \<Rightarrow> nat) \<Rightarrow> (finish, st) outcome \<Rightarrow> (nat, st) outcome" where
  "exit_status flagStatus r = (case r of (x, s) \<Rightarrow> (map_res (\<lambda>f. case f of
       Returned ok \<Rightarrow> if ok then 0 else 1
     | Exited (FlagFailed e) \<Rightarrow> flagStatus e
     | Exited _ \<Rightarrow> 1) x, s))"

definition main :: "(flag_error \<Rightarrow> nat) \<Rightarrow> choices \<Rightarrow> string list \<Rightarrow> st \<Rightarrow> (nat, st) outcome" where
  "main flagStatus ch osArgs s =
     exit_status flagStatus (case run commands osArgs 1 of
       SubcommandRequired path \<Rightarrow> returned (printErr (try_help ''Subcommand required by '' (osArgs ! 0) path) s)
     | Usage ls \<Rightarrow> (Ok (Returned False),
         emit_err (Text ''Usage:'' # newline # concat (map (\<lambda>l. [Text l, newline]) ls)) s)
     | UnknownCommand path \<Rightarrow> returned (printErr (try_help ''Unknown command '' (osArgs ! 0) path) s)
     | AmbiguousCommand path \<Rightarrow> returned (printErr (try_help ''Ambiguous command '' (osArgs ! 0) path) s)
     | Invoke h fargs \<Rightarrow> handle h ch fargs s)"

end
