(* ===== verification/Tool_Descriptors.thy ===== *)
theory Tool_Descriptors
  imports Tool_Commands
begin

text \<open>
  The commands that do not listen close the descriptors they open.  The interface to the library is
  that a call keeps the sockets: \<open>library_call\<close>, interpreted for every call the commands make.
\<close>

section \<open>Calls that keep the sockets\<close>

definition kept :: "sys \<Rightarrow> ('a, st) outcome \<Rightarrow> bool" where
  "kept w r \<longleftrightarrow> same_sockets (snd (snd r)) w"

named_theorems keeps \<open>sockets are kept\<close>

locale library_call =
  fixes call :: "sys \<Rightarrow> ('a, sys) outcome"
  assumes keeps_sockets: "same_sockets (snd (call w)) w"
begin

lemma kept_call: "same_sockets (snd s) w \<Longrightarrow> kept w (lib call s)"
  using same_sockets_trans [OF keeps_sockets]
  by (cases s; cases "call (snd s)") (simp add: kept_def lib_def, metis snd_conv)

lemma kept_attempt: "same_sockets (snd s) w \<Longrightarrow> kept w (attempt (lib call s))"
  using kept_call [of s w]
  by (cases "lib call s"; cases "fst (lib call s)") (simp_all add: kept_def attempt_def)

end

lemma and_then_pure_same:
  "same_sockets (snd r) w \<Longrightarrow> (\<And>x v. snd (f x v) = v) \<Longrightarrow> same_sockets (snd (and_then r f)) w"
  by (cases r; cases "fst r") simp_all

lemmas ovs_call_then = and_then_pure_same [OF ovs_call_same]

interpretation create_datapath: library_call "CreateDatapath dpif name" for dpif name
  by unfold_locales (simp add: CreateDatapath_def Let_def ovs_call_then)

interpretation lookup_datapath: library_call "LookupDatapath dpif name" for dpif name
  by unfold_locales (simp add: LookupDatapath_def ovs_call_then)

interpretation lookup_datapath_id: library_call "LookupDatapathByID dpif i" for dpif i
  by unfold_locales (simp add: LookupDatapathByID_def ovs_call_then)

interpretation delete_datapath: library_call "Delete dp" for dp
  by unfold_locales (simp add: Delete_def ovs_call_then)

interpretation create_vport: library_call "CreateVport dp spec" for dp spec
  by unfold_locales (simp add: CreateVport_def ovs_call_then)

lemma lookupVport_same: "same_sockets (snd (lookupVport dpif i name w)) w"
  by (simp add: lookupVport_def ovs_call_then)

interpretation lookup_vport: library_call "LookupVportByName dpif name" for dpif name
  by unfold_locales (simp add: LookupVportByName_def and_then_pure_same [OF lookupVport_same] split: prod.split)

interpretation lookup_dp_vport: library_call "dp_LookupVportByName dp name" for dp name
  by unfold_locales (simp add: dp_LookupVportByName_def and_then_pure_same [OF lookupVport_same] split: prod.split)

interpretation lookup_vport_name: library_call "LookupVportName dp v" for dp v
proof
  fix w
  have "same_sockets (snd (LookupVport dp v w)) w" by (simp add: LookupVport_def ovs_call_then)
  then show "same_sockets (snd (LookupVportName dp v w)) w"
    by (cases "LookupVport dp v w"; cases "fst (LookupVport dp v w)") (simp_all add: LookupVportName_def)
qed

interpretation delete_vport: library_call "DeleteVport dp v" for dp v
  by unfold_locales (simp add: DeleteVport_def ovs_call_then)

interpretation enumerate_vports: library_call "EnumerateVports dp" for dp
  by unfold_locales (rule EnumerateVports_same)

interpretation enumerate_datapaths: library_call "EnumerateDatapaths dpif" for dpif
proof
  have "snd (snd (enum_datapath_handler dpif msg st)) = snd st" for msg st
    by (cases "parseDatapathInfo dpif msg (uint OVS_DP_CMD_GET)"; cases st) (auto simp: enum_datapath_handler_def)
  then show "same_sockets (snd (EnumerateDatapaths dpif w)) w" for w
    unfolding EnumerateDatapaths_def by (rule ovs_dump_same)
qed

interpretation enumerate_flows: library_call "EnumerateFlows rng dp" for rng dp
proof
  have "snd (snd (enum_flow_handler rng dp msg st)) = snd st" for msg st
    by (cases "res_bind (parseFlowMsg dp msg (uint OVS_FLOW_CMD_GET)) (parseFlowInfo rng)"; cases st)
      (auto simp: enum_flow_handler_def)
  then show "same_sockets (snd (EnumerateFlows rng dp w)) w" for w
    unfolding EnumerateFlows_def by (rule ovs_dump_same)
qed

interpretation create_flow: library_call "CreateFlow ordK ordM dp f" for ordK ordM dp f
  by unfold_locales (simp add: CreateFlow_def ovs_call_then)

interpretation delete_flow: library_call "DeleteFlow ordK ordM dp fks" for ordK ordM dp fks
  by unfold_locales (simp add: DeleteFlow_def ovs_call_then)

interpretation clear_flow: library_call "ClearFlow ordK ordM dp f" for ordK ordM dp f
  by unfold_locales (simp add: ClearFlow_def ovs_call_then)

section \<open>Commands\<close>

lemma kept_pure [keeps]: "same_sockets (snd s) w \<Longrightarrow> kept w (r, s)"
  by (simp add: kept_def)

lemma kept_and_then [keeps]:
  assumes "kept w r" "\<And>x s. same_sockets (snd s) w \<Longrightarrow> kept w (f x s)"
  shows "kept w (and_then r f)"
  using assms by (cases r; cases "fst r") (simp_all add: kept_def)

lemma kept_attempt_outcome [keeps]: "kept w r \<Longrightarrow> kept w (attempt r)"
  by (cases r; cases "fst r") (simp_all add: kept_def attempt_def)

lemma kept_printErr [keeps]: "same_sockets (snd s) w \<Longrightarrow> kept w (printErr cs s)"
  by (cases s) (simp add: kept_def printErr_def emit_err_def)

lemma kept_succeed [keeps]: "same_sockets (snd s) w \<Longrightarrow> kept w (succeed x s)"
  by (simp add: kept_def succeed_def)

lemma kept_or_print [keeps]:
  "kept w r \<Longrightarrow> (\<And>x s. same_sockets (snd s) w \<Longrightarrow> kept w (f x s)) \<Longrightarrow> kept w (or_print r f)"
  unfolding or_print_def by (intro keeps) (auto intro: keeps split: sum.split)

lemma kept_returned [keeps]: "kept w r \<Longrightarrow> kept w (returned r)"
  by (cases r) (simp add: kept_def returned_def)

lemma same_emit [simp]:
  "snd (emit cs s) = snd s" "snd (emits ss s) = snd s" "snd (emit_err cs s) = snd s"
  "snd (snd (printErr cs s)) = snd s"
  by (cases s; simp add: emit_def emits_def emit_err_def printErr_def)+

lemmas [keeps] =
  create_datapath.kept_call lookup_datapath.kept_call lookup_datapath_id.kept_call delete_datapath.kept_call
  create_vport.kept_call lookup_vport.kept_call lookup_dp_vport.kept_call lookup_vport_name.kept_call
  delete_vport.kept_call enumerate_vports.kept_call enumerate_datapaths.kept_call enumerate_flows.kept_call
  create_flow.kept_call delete_flow.kept_call clear_flow.kept_call

text \<open>Case distinctions keep the sockets when their branches do.\<close>

lemma kept_if [keeps]: "(b \<Longrightarrow> kept w x) \<Longrightarrow> (\<not> b \<Longrightarrow> kept w y) \<Longrightarrow> kept w (if b then x else y)"
  by simp

lemma kept_sum [keeps]:
  "(\<And>e. x = Inl e \<Longrightarrow> kept w (f e)) \<Longrightarrow> (\<And>y. x = Inr y \<Longrightarrow> kept w (g y)) \<Longrightarrow>
     kept w (case x of Inl e \<Rightarrow> f e | Inr y \<Rightarrow> g y)"
  by (cases x) simp_all

lemma kept_option [keeps]:
  "(x = None \<Longrightarrow> kept w n) \<Longrightarrow> (\<And>y. x = Some y \<Longrightarrow> kept w (g y)) \<Longrightarrow> kept w (case x of None \<Rightarrow> n | Some y \<Rightarrow> g y)"
  by (cases x) simp_all

lemma kept_prod [keeps]: "(\<And>a b. x = (a, b) \<Longrightarrow> kept w (f a b)) \<Longrightarrow> kept w (case x of (a, b) \<Rightarrow> f a b)"
  by (cases x) simp

lemma kept_Let [keeps]: "(\<And>y. y = x \<Longrightarrow> kept w (f y)) \<Longrightarrow> kept w (Let x f)"
  by simp

lemma kept_lookupDatapath [keeps]: "same_sockets (snd s) w \<Longrightarrow> kept w (lookupDatapath dpif name s)"
  unfolding lookupDatapath_def by (intro keeps; simp)

lemma kept_with_datapath [keeps]:
  "same_sockets (snd s) w \<Longrightarrow> (\<And>dp n s. same_sockets (snd s) w \<Longrightarrow> kept w (body dp n s)) \<Longrightarrow>
     kept w (with_datapath dpif name body s)"
  unfolding with_datapath_def by (intro keeps; simp)

lemma kept_print_vports [keeps]: "same_sockets (snd s) w \<Longrightarrow> kept w (print_vports dpname vs s)"
proof (induction vs arbitrary: s)
  case (Cons v vs)
  then show ?case unfolding print_vports.simps printVport_def by (intro keeps; simp)
qed (simp add: keeps)

lemma kept_printVports [keeps]: "same_sockets (snd s) w \<Longrightarrow> kept w (printVports dpname dp s)"
  unfolding printVports_def by (intro keeps; simp)

lemma kept_print_datapaths [keeps]: "same_sockets (snd s) w \<Longrightarrow> kept w (print_datapaths dps names s)"
proof (induction names arbitrary: s)
  case (Cons n ns)
  then show ?case unfolding print_datapaths.simps by (intro keeps; simp)
qed (simp add: keeps)

lemma kept_print_key [keeps]: "same_sockets (snd s) w \<Longrightarrow> kept w (print_key fk dp s)"
  by (cases fk; simp only: print_key.simps; intro keeps; simp)

lemma kept_print_keys [keeps]: "same_sockets (snd s) w \<Longrightarrow> kept w (print_keys fks dp s)"
proof (induction fks arbitrary: s)
  case (Cons fk fks)
  then show ?case unfolding print_keys.simps by (intro keeps; simp)
qed (simp add: keeps)

lemma kept_printFlowKeys [keeps]: "same_sockets (snd s) w \<Longrightarrow> kept w (printFlowKeys ch fks dp s)"
  unfolding printFlowKeys_def by (rule kept_print_keys)

lemma kept_print_actions [keeps]: "same_sockets (snd s) w \<Longrightarrow> kept w (print_actions as outputs dp s)"
proof (induction as arbitrary: outputs s)
  case (Cons a as)
  show ?case
  proof (cases a)
    case (OutputAction v)
    then show ?thesis using Cons by (simp only: print_actions.simps) (intro keeps; simp)
  qed (use Cons in simp_all)
qed (simp add: keeps)

lemma kept_printFlowActions [keeps]: "same_sockets (snd s) w \<Longrightarrow> kept w (printFlowActions as dp s)"
  unfolding printFlowActions_def by (intro keeps; simp)

lemma kept_print_flows [keeps]: "same_sockets (snd s) w \<Longrightarrow> kept w (print_flows ch st dpname dp fis s)"
proof (induction fis arbitrary: s)
  case (Cons fi fis)
  then show ?case unfolding print_flows.simps by (intro keeps; simp)
qed (simp add: keeps)

lemma kept_add_outputs [keeps]: "same_sockets (snd s) w \<Longrightarrow> kept w (add_outputs dp names flow s)"
proof (induction names arbitrary: flow s)
  case (Cons n ns)
  then show ?case unfolding add_outputs.simps by (intro keeps; simp)
qed (simp add: keeps)

lemma kept_read_flow [keeps]: "same_sockets (snd s) w \<Longrightarrow> kept w (read_flow dp fs s)"
  unfolding read_flow_def add_in_port_def fail_opt_def by (intro keeps; simp)

lemma kept_or_no_such_flow [keeps]: "kept w r \<Longrightarrow> kept w (or_no_such_flow r)"
  unfolding or_no_such_flow_def by (intro keeps; simp)

section \<open>Descriptors are closed\<close>

lemma NewDpif_opens:
  assumes "NewDpif rng w = (Ok d, w')" "good_fds w"
  obtains fd pid where "0 \<le> fd" "sockets w' (dpif_sock d) = \<lparr>sock_fd = fd, sock_pid = pid\<rparr>" "open_fds w' = fd # open_fds w"
proof -
  obtain s w1 where op1: "OpenNetlinkSocket NETLINK_GENERIC w = (Ok s, w1)"
    using assms(1) by (cases "OpenNetlinkSocket NETLINK_GENERIC w"; cases "fst (OpenNetlinkSocket NETLINK_GENERIC w)")
      (auto simp: NewDpif_def)
  obtain fd pid where d: "dpif_sock d = nsockets w" "sockets w' = (sockets w)(dpif_sock d := \<lparr>sock_fd = fd, sock_pid = pid\<rparr>)"
    "open_fds w' = fd # open_fds w"
    using assms(1) by (rule NewDpif_Ok)
  obtain fd' pid' where s: "s = nsockets w" "sockets w1 = (sockets w)(s := \<lparr>sock_fd = fd', sock_pid = pid'\<rparr>)"
    "open_fds w1 = fd' # open_fds w"
    by (rule OpenNetlinkSocket_Ok [OF op1])
  have "0 \<le> fd'" using op1 s(2) assms(2)
    by (auto simp: OpenNetlinkSocket_def Let_def fun_eq_iff good_fds_def
        split: list.splits sum.splits option.splits sockaddr.splits if_splits)
  moreover have "fd = fd'"
  proof -
    obtain fams where "lookup_families rng s familyNames [] w1 = (Ok fams, w')"
      using assms(1) op1 by (auto simp: NewDpif_def split: prod.splits res.splits)
    then have "same_fds w' w1" using lookup_families_same_fds [of rng s familyNames "[]" w1] by simp
    then show ?thesis using d(3) s(3) by (simp add: same_fds_def)
  qed
  ultimately show thesis using that d by simp
qed

lemma with_dpif_balanced:
  assumes "with_dpif ch body (u, w) = (Ok (Returned b), (u', w'))" "good_fds w"
    and body: "\<And>dpif s. kept (snd s) (body dpif s)"
  shows "open_fds w' = open_fds w"
proof -
  obtain r w1 where n: "NewDpif (ch_attrs ch) w = (r, w1)" by (rule prod.exhaust)
  show ?thesis
  proof (cases r)
    case (Ok dpif)
    obtain fd pid where d: "0 \<le> fd" "sockets w1 (dpif_sock dpif) = \<lparr>sock_fd = fd, sock_pid = pid\<rparr>" "open_fds w1 = fd # open_fds w"
      by (rule NewDpif_opens [OF n [unfolded Ok] assms(2)])
    obtain q u2 w2 where q: "body dpif (u, w1) = (q, (u2, w2))" by (metis prod.exhaust)
    then have same: "same_sockets w2 w1" using body [of "(u, w1)" dpif] by (simp add: kept_def)
    have "w' = snd (Dpif_Close dpif w2)"
      using assms(1) n Ok q by (auto simp: with_dpif_def lib_def split: res.splits finish.splits prod.splits)
    then have "open_fds w' = remove1 (sock_fd (sockets w2 (dpif_sock dpif))) (open_fds w2)"
      using same d by (simp add: Dpif_Close_def Close_open_fds(1) same_sockets_def)
    then show ?thesis using same d by (simp add: same_sockets_def)
  next
    case (Err e)
    then have "w' = w1" using assms(1) n by (auto simp: with_dpif_def lib_def returned_def printErr_def emit_err_def)
    then show ?thesis using NewDpif_Err [of _ w e w1] n Err assms(2) by simp
  qed (use assms(1) n in \<open>auto simp: with_dpif_def lib_def\<close>)
qed

lemma parsing_balanced:
  assumes "parsing fs fargs lo hi body (u, w) = (Ok (Returned b), (u', w'))"
    and "\<And>args fs. body args fs (u, w) = (Ok (Returned b), (u', w')) \<Longrightarrow> P"
  shows P
  using assms by (auto simp: parsing_def split: sum.splits)

lemma kept_flagsToFlowSpec [keeps]:
  assumes "same_sockets (snd s) w" "\<And>dp flow s. same_sockets (snd s) w \<Longrightarrow> kept w (body dp flow s)"
  shows "kept w (flagsToFlowSpec fargs dpif body s)"
  unfolding flagsToFlowSpec_def parsing_def using assms by (intro keeps; simp)

lemma addVport_balanced:
  "addVport ch dpname spec (u, w) = (Ok (Returned b), (u', w')) \<Longrightarrow> good_fds w \<Longrightarrow> open_fds w' = open_fds w"
  unfolding addVport_def by (erule with_dpif_balanced, assumption) (intro keeps; simp)

text \<open>A command that parses its flags and then uses the interface.\<close>

lemma parse_then_dpif:
  assumes "parsing fs fargs lo hi (\<lambda>args fs. with_dpif ch (body args fs)) (u, w) = (Ok (Returned b), (u', w'))" "good_fds w"
    and "\<And>args fs dpif s. kept (snd s) (body args fs dpif s)"
  shows "open_fds w' = open_fds w"
  using assms(1)
proof (rule parsing_balanced)
  fix args fs
  assume "with_dpif ch (body args fs) (u, w) = (Ok (Returned b), (u', w'))"
  from this assms(2,3) show "open_fds w' = open_fds w" by (rule with_dpif_balanced)
qed

lemma datapath_commands_balanced:
  assumes "good_fds w"
  shows "addDatapath ch fargs (u, w) = (Ok (Returned b), (u', w')) \<Longrightarrow> open_fds w' = open_fds w"
    "deleteDatapath ch fargs (u, w) = (Ok (Returned b), (u', w')) \<Longrightarrow> open_fds w' = open_fds w"
    "listDatapaths ch fargs (u, w) = (Ok (Returned b), (u', w')) \<Longrightarrow> open_fds w' = open_fds w"
  unfolding addDatapath_def deleteDatapath_def listDatapaths_def show_datapaths_def
  by (erule parse_then_dpif [OF _ assms]; intro keeps; simp)+

lemma vport_commands_balanced:
  assumes "good_fds w"
  shows "deleteVport ch fargs (u, w) = (Ok (Returned b), (u', w')) \<Longrightarrow> open_fds w' = open_fds w"
    "listVports ch fargs (u, w) = (Ok (Returned b), (u', w')) \<Longrightarrow> open_fds w' = open_fds w"
  unfolding deleteVport_def listVports_def
  by (erule parse_then_dpif [OF _ assms]; intro keeps; simp)+

lemma add_vport_commands_balanced:
  assumes "good_fds w"
  shows "addNetdevVport ch fargs (u, w) = (Ok (Returned b), (u', w')) \<Longrightarrow> open_fds w' = open_fds w"
    "addInternalVport ch fargs (u, w) = (Ok (Returned b), (u', w')) \<Longrightarrow> open_fds w' = open_fds w"
    "addGreVport ch fargs (u, w) = (Ok (Returned b), (u', w')) \<Longrightarrow> open_fds w' = open_fds w"
    "addUdpVport ch fargs port mk (u, w) = (Ok (Returned b), (u', w')) \<Longrightarrow> open_fds w' = open_fds w"
  unfolding addNetdevVport_def addInternalVport_def addGreVport_def addUdpVport_def
  by (erule parsing_balanced, auto simp: Let_def returned_def printErr_def emit_err_def split: if_splits
      intro: addVport_balanced [OF _ assms])+

lemma flow_commands_balanced:
  assumes "good_fds w"
  shows "addFlow ch fargs (u, w) = (Ok (Returned b), (u', w')) \<Longrightarrow> open_fds w' = open_fds w"
    "deleteFlow ch fargs (u, w) = (Ok (Returned b), (u', w')) \<Longrightarrow> open_fds w' = open_fds w"
    "clearFlow ch fargs (u, w) = (Ok (Returned b), (u', w')) \<Longrightarrow> open_fds w' = open_fds w"
  unfolding addFlow_def deleteFlow_def clearFlow_def
  by (erule with_dpif_balanced [OF _ assms]; intro keeps; simp)+

lemma listFlows_balanced:
  "good_fds w \<Longrightarrow> listFlows ch fargs (u, w) = (Ok (Returned b), (u', w')) \<Longrightarrow> open_fds w' = open_fds w"
  unfolding listFlows_def by (erule parse_then_dpif, assumption, intro keeps; simp)

section \<open>Properties\<close>

text \<open>
  Property C18: a command that returns has closed every descriptor it opened, on every path: whether
  the family lookup fails, the datapath is missing, the kernel refuses the request or a name
  cannot be looked up.  The two listening commands are excepted.
\<close>

theorem commands_close_descriptors:
  assumes "handle h ch fargs (u, w) = (Ok (Returned b), (u', w'))" "good_fds w"
    and "h \<noteq> ListenOnDatapath" "h \<noteq> ListenForVports"
  shows "open_fds w' = open_fds w"
  using assms datapath_commands_balanced vport_commands_balanced add_vport_commands_balanced flow_commands_balanced
    listFlows_balanced
  by (cases h) (auto simp: addVxlanVport_def addGeneveVport_def)

definition demo_out :: out where
  "demo_out = \<lparr>stdout = [], stderr = [], stdinPipes = [], starts = [], pipeWrites = [], piped = [],
     clock = (\<lambda>_. (0, 0)), doneCloses = 0\<rparr>"

definition demo_choices :: choices where
  "demo_choices = \<lparr>ch_attrs = ascending, ch_flows = \<lparr>rngK = ascending, rngM = ascending, rngS = ascending\<rparr>,
     ch_names = (\<lambda>_. []), ch_keys = (\<lambda>_. []), ch_masks = (\<lambda>_. []), ch_print = (\<lambda>_. [])\<rparr>"

theorem commands_close_descriptors_witness:
  "\<exists>u' w'. handle DeleteDatapath demo_choices [''dp''] (demo_out, (idle_sys [])\<lparr>opens := [bad_bind]\<rparr>) =
      (Ok (Returned False), (u', w')) \<and> stderr u' = [ErrorText (Errno 98), newline] \<and> open_fds w' = []"
proof -
  let ?w = "(idle_sys [])\<lparr>opens := [bad_bind]\<rparr>"
  have "good_fds ?w" "open_fds ?w = []" by (simp_all add: good_fds_def bad_bind_def)
  moreover obtain w' where n: "NewDpif ascending ?w = (Err (Errno 98), w')"
    by (simp add: NewDpif_def OpenNetlinkSocket_def bad_bind_def Let_def)
  moreover have p: "Flags_Parse Map.empty [''dp''] 1 1 = Inr ([''dp''], Map.empty)"
    by (simp add: Flags_Parse_def)
  have h: "handle DeleteDatapath demo_choices [''dp''] (demo_out, ?w) =
      (Ok (Returned False), (demo_out\<lparr>stderr := [ErrorText (Errno 98), newline]\<rparr>, w'))"
    using n p by (simp add: deleteDatapath_def parsing_def with_dpif_def lib_def returned_def printErr_def emit_err_def
        demo_choices_def demo_out_def)
  ultimately show ?thesis using commands_close_descriptors [OF h] by simp
qed

end
