(* ===== verification/Tool_Flow_Lines.thy ===== *)
theory Tool_Flow_Lines
  imports Tool_Descriptors
begin

text \<open>
  The lines that \<^verbatim>\<open>odp flow list\<close> prints are arguments that \<^verbatim>\<open>odp flow add\<close> accepts: a line, split into
  words by the shell, describes the flow it was printed for.
\<close>

section \<open>The shell\<close>

text \<open>Words are separated by blanks outside double quotes, which are removed.\<close>

fun shell_loop :: "bool \<Rightarrow> string \<Rightarrow> string \<Rightarrow> string list" where
  "shell_loop quot word [] = [word]"
| "shell_loop quot word (c # cs) =
     (if c = CHR 0x22 then shell_loop (\<not> quot) word cs
      else if c = CHR '' '' \<and> \<not> quot then word # shell_loop False [] cs
      else shell_loop quot (word @ [c]) cs)"

definition shell_words :: "string \<Rightarrow> string list" where
  "shell_words line = shell_loop False [] line"

text \<open>A piece of a word: no blanks, quotes in pairs.\<close>

definition piece :: "string \<Rightarrow> bool" where
  "piece s \<longleftrightarrow> CHR '' '' \<notin> set s \<and> even (count_list s (CHR 0x22))"

lemma piece_append: "piece a \<Longrightarrow> piece b \<Longrightarrow> piece (a @ b)"
  by (simp add: piece_def)

lemma piece_plain: "CHR '' '' \<notin> set s \<Longrightarrow> CHR 0x22 \<notin> set s \<Longrightarrow> piece s"
  by (simp add: piece_def count_list_0_iff)

lemma shell_loop_word:
  "CHR '' '' \<notin> set s \<Longrightarrow>
     shell_loop quot word (s @ rest) = shell_loop (quot \<noteq> odd (count_list s (CHR 0x22))) (word @ unquote s) rest"
proof (induction s arbitrary: quot word)
  case (Cons c s)
  have "(\<not> quot) = (even k) \<longleftrightarrow> quot = odd k" for k :: nat by auto
  with Cons show ?case by (auto simp: unquote_simps)
qed (simp add: unquote_simps)

lemma shell_loop_piece:
  assumes "piece s"
  shows "shell_loop False word s = [word @ unquote s]"
    "shell_loop False word (s @ CHR '' '' # rest) = (word @ unquote s) # shell_loop False [] rest"
  using assms shell_loop_word [of s False word "[]"] shell_loop_word [of s False word "CHR '' '' # rest"]
  by (simp_all add: piece_def)

lemma shell_words_pieces:
  assumes "piece w" "list_all piece ws"
  shows "shell_words (w @ concat (map (\<lambda>x. '' '' @ x) ws)) = unquote w # map unquote ws"
  using assms
proof (induction ws arbitrary: w)
  case Nil
  then show ?case by (simp add: shell_words_def shell_loop_piece)
next
  case (Cons x ws)
  then show ?case by (simp add: shell_words_def shell_loop_piece)
qed

section \<open>The order of options\<close>

text \<open>Options with different names can be given in any order.\<close>

definition good_option :: "flag_set \<Rightarrow> string \<times> string \<Rightarrow> bool" where
  "good_option fs nv = (case nv of (n, v) \<Rightarrow>
     flag_name n \<and> (case fs n of None \<Rightarrow> False | Some old \<Rightarrow> set_flag old v \<noteq> None))"

definition options_set :: "(string \<rightharpoonup> string) \<Rightarrow> flag_set \<Rightarrow> flag_set" where
  "options_set m fs = (\<lambda>n. case m n of None \<Rightarrow> fs n
     | Some v \<Rightarrow> Option.bind (fs n) (\<lambda>old. set_flag old v))"

lemma set_flags_any_order:
  "distinct (map fst opts) \<Longrightarrow>
     set_flags opts fs = (if list_all (good_option fs) opts then Some (options_set (map_of opts) fs) else None)"
proof (induction opts arbitrary: fs)
  case (Cons nv opts)
  obtain n v where nv: "nv = (n, v)" by (rule prod.exhaust)
  have n: "n \<notin> fst ` set opts" "distinct (map fst opts)" using Cons.prems nv by auto
  show ?case
  proof (cases "good_option fs (n, v)")
    case True
    then obtain old new where o: "flag_name n" "fs n = Some old" "set_flag old v = Some new"
      by (auto simp: good_option_def split: option.splits)
    have "list_all (good_option (fs(n \<mapsto> new))) opts = list_all (good_option fs) opts"
      using n(1) by (intro list.pred_cong refl) (auto simp: good_option_def image_iff split: prod.split)
    moreover have "options_set (map_of opts) (fs(n \<mapsto> new)) = options_set (map_of ((n, v) # opts)) fs"
      using o n(1) by (auto simp: options_set_def fun_eq_iff map_of_eq_None_iff [THEN iffD2] split: option.splits)
    ultimately show ?thesis using Cons.IH [OF n(2), of "fs(n \<mapsto> new)"] True o nv by (simp del: fun_upd_apply)
  qed (auto simp: nv good_option_def bind_eq_None_conv split: option.splits)
qed (simp add: options_set_def)

lemma set_flags_permuted:
  assumes "distinct (map fst opts)" "mset opts = mset opts'"
  shows "set_flags opts fs = set_flags opts' fs"
proof -
  have d: "distinct (map fst opts')" using assms by (metis mset_map mset_eq_imp_distinct_iff)
  have "map_of opts = map_of opts'" using assms d by (metis map_of_inject_set mset_eq_setD)
  moreover have "list_all (good_option fs) opts = list_all (good_option fs) opts'"
    using assms(2) by (metis list_all_iff mset_eq_setD)
  ultimately show ?thesis using assms(1) d by (simp add: set_flags_any_order)
qed

section \<open>Flows the tool can describe\<close>

record flow_desc =
  d_in :: "u32 option"
  d_sk :: bytes
  d_sm :: bytes
  d_dk :: bytes
  d_dm :: bytes
  d_tun :: "(TunnelAttrs \<times> TunnelAttrsPresence) option"
  d_set :: "(TunnelAttrs \<times> TunnelAttrsPresence) option"
  d_out :: "u32 list"

definition none_pr :: TunnelAttrsPresence where
  "none_pr = \<lparr>pTunnelId = False, pIpv4Src = False, pIpv4Dst = False, pTos = False, pTtl = False, pDf = False,
     pCsum = False, pTpSrc = False, pTpDst = False\<rparr>"

definition given :: "(TunnelAttrs \<times> TunnelAttrsPresence) option \<Rightarrow> TunnelAttrs \<times> TunnelAttrsPresence" where
  "given t = (case t of None \<Rightarrow> (zero_ta, none_pr) | Some x \<Rightarrow> x)"

definition in_key :: "u32 option \<Rightarrow> FlowSpec \<Rightarrow> FlowSpec" where
  "in_key i f = (case i of None \<Rightarrow> f | Some v \<Rightarrow> AddKey (NewInPortFlowKey v) f)"

definition tunnel_key :: "(TunnelAttrs \<times> TunnelAttrsPresence) option \<Rightarrow> FlowSpec \<Rightarrow> FlowSpec" where
  "tunnel_key t f = (case t of None \<Rightarrow> f | Some (ta, pr) \<Rightarrow> AddKey (FK_Tunnel (exact_key ta pr)) f)"

definition set_action :: "(TunnelAttrs \<times> TunnelAttrsPresence) option \<Rightarrow> Action list" where
  "set_action t = (case t of None \<Rightarrow> [] | Some (ta, pr) \<Rightarrow> [SetTunnelAction ta pr])"

definition desc_flow :: "flow_desc \<Rightarrow> FlowSpec" where
  "desc_flow d =
     AddActions (set_action (d_set d) @ map OutputAction (d_out d))
       (tunnel_key (d_tun d) (AddKey (FK_Ethernet (eth_fk (d_sk d) (d_sm d) (d_dk d) (d_dm d)))
          (in_key (d_in d) NewFlowSpec)))"

text \<open>A name of a vport that can stand in a line.\<close>

definition plain_name :: "string \<Rightarrow> bool" where
  "plain_name n \<longleftrightarrow> n \<noteq> '''' \<and> CHR '' '' \<notin> set n \<and> CHR '','' \<notin> set n \<and> CHR 0x22 \<notin> set n"

definition tunnel_ok :: "TunnelAttrs \<times> TunnelAttrsPresence \<Rightarrow> bool" where
  "tunnel_ok t \<longleftrightarrow> ta_wf (fst t) \<and> \<not> Ignored (FK_Tunnel (exact_key (fst t) (snd t)))"

definition set_ok :: "TunnelAttrs \<times> TunnelAttrsPresence \<Rightarrow> bool" where
  "set_ok t \<longleftrightarrow> ta_wf (fst t) \<and> any_present (snd t) \<and> ta_restrict (fst t) (snd t) = fst t"

definition desc_ports :: "flow_desc \<Rightarrow> u32 list" where
  "desc_ports d = (case d_in d of None \<Rightarrow> [] | Some v \<Rightarrow> [v]) @ d_out d"

definition desc_good :: "(u32 \<Rightarrow> string) \<Rightarrow> flow_desc \<Rightarrow> bool" where
  "desc_good nm d \<longleftrightarrow>
     length (d_sk d) = 6 \<and> length (d_sm d) = 6 \<and> length (d_dk d) = 6 \<and> length (d_dm d) = 6 \<and>
     (d_sm d = replicate 6 0 \<longrightarrow> d_sk d = replicate 6 0) \<and> (d_dm d = replicate 6 0 \<longrightarrow> d_dk d = replicate 6 0) \<and>
     pred_option tunnel_ok (d_tun d) \<and> pred_option set_ok (d_set d) \<and>
     list_all (\<lambda>v. plain_name (nm v)) (desc_ports d)"

section \<open>The options of a flow\<close>

definition in_opts :: "(u32 \<Rightarrow> string) \<Rightarrow> u32 option \<Rightarrow> (string \<times> string) list" where
  "in_opts nm i = opt_if (i \<noteq> None) ''in-port'' (nm (the i))"

definition eth_opts :: "bytes \<Rightarrow> bytes \<Rightarrow> bytes \<Rightarrow> bytes \<Rightarrow> (string \<times> string) list" where
  "eth_opts sk sm dk dm =
     opt_if (sm \<noteq> replicate 6 0) ''eth-src'' (eth_text sk sm) @ opt_if (dm \<noteq> replicate 6 0) ''eth-dst'' (eth_text dk dm)"

definition given_opts :: "string \<Rightarrow> (TunnelAttrs \<times> TunnelAttrsPresence) option \<Rightarrow> (string \<times> string) list" where
  "given_opts pfx t = tunnel_opts pfx (fst (given t)) (snd (given t))"

definition out_opts :: "(u32 \<Rightarrow> string) \<Rightarrow> u32 list \<Rightarrow> (string \<times> string) list" where
  "out_opts nm vs = opt_if (vs \<noteq> []) ''output'' (join '','' (map nm vs))"

definition desc_opts :: "(u32 \<Rightarrow> string) \<Rightarrow> flow_desc \<Rightarrow> (string \<times> string) list" where
  "desc_opts nm d = in_opts nm (d_in d) @ eth_opts (d_sk d) (d_sm d) (d_dk d) (d_dm d) @
     given_opts ''tunnel-'' (d_tun d) @ given_opts ''set-tunnel-'' (d_set d) @ out_opts nm (d_out d)"

text \<open>The flags after the options were read.\<close>

definition desc_flags :: "(u32 \<Rightarrow> string) \<Rightarrow> flow_desc \<Rightarrow> flag_set" where
  "desc_flags nm d =
     upd_if (d_out d \<noteq> []) ''output'' (FString (join '','' (map nm (d_out d))))
     (tunnel_updates ''set-tunnel-'' (fst (given (d_set d))) (snd (given (d_set d)))
     (tunnel_updates ''tunnel-'' (fst (given (d_tun d))) (snd (given (d_tun d)))
     (upd_if (d_dm d \<noteq> replicate 6 0) ''eth-dst'' (FString (eth_text (d_dk d) (d_dm d)))
     (upd_if (d_sm d \<noteq> replicate 6 0) ''eth-src'' (FString (eth_text (d_sk d) (d_sm d)))
     (upd_if (d_in d \<noteq> None) ''in-port'' (FString (nm (the (d_in d)))) flow_flags)))))"

text \<open>Flags of another name are not touched.\<close>

lemma tunnel_updates_other: "\<not> prefix pfx n \<Longrightarrow> tunnel_updates pfx ta pr fs n = fs n"
proof -
  assume "\<not> prefix pfx n"
  then have "n \<noteq> pfx @ m" for m by auto
  then show ?thesis by (simp only: tunnel_updates_def upd_if_apply simp_thms if_False)
qed

lemma tunnel_flags_frame:
  assumes "\<And>m. fs' (pfx @ m) = fs (pfx @ m)"
  shows "tunnel_flags pfx fs' = tunnel_flags pfx fs" "has_tunnel_flags pfx fs' = has_tunnel_flags pfx fs"
  by (simp_all add: tunnel_flags_def has_tunnel_flags_def assms)

lemma upd_if_frame: "\<not> prefix pfx n \<Longrightarrow> upd_if b n v fs (pfx @ m) = fs (pfx @ m)"
  by auto

lemma other_prefix:
  "tunnel_updates ''tunnel-'' ta pr fs (''set-tunnel-'' @ m) = fs (''set-tunnel-'' @ m)"
  "tunnel_updates ''set-tunnel-'' ta pr fs (''tunnel-'' @ m) = fs (''tunnel-'' @ m)"
  by (rule tunnel_updates_other, simp)+

lemma tunnel_flags_upd_if:
  assumes "\<not> prefix pfx n"
  shows "tunnel_flags pfx (upd_if b n v fs) = tunnel_flags pfx fs"
    "has_tunnel_flags pfx (upd_if b n v fs) = has_tunnel_flags pfx fs"
  by (rule tunnel_flags_frame, rule upd_if_frame, rule assms)+

lemma tunnel_flags_other:
  "tunnel_flags ''tunnel-'' (tunnel_updates ''set-tunnel-'' ta pr fs) = tunnel_flags ''tunnel-'' fs"
  "tunnel_flags ''set-tunnel-'' (tunnel_updates ''tunnel-'' ta pr fs) = tunnel_flags ''set-tunnel-'' fs"
  "has_tunnel_flags ''set-tunnel-'' (tunnel_updates ''tunnel-'' ta pr fs) = has_tunnel_flags ''set-tunnel-'' fs"
  by (rule tunnel_flags_frame, rule other_prefix)+

lemma flow_flags_tunnel:
  "has_tunnel_flags ''tunnel-'' flow_flags" "has_tunnel_flags ''set-tunnel-'' flow_flags"
  "tunnel_flags ''tunnel-'' flow_flags = no_tunnel_flags" "tunnel_flags ''set-tunnel-'' flow_flags = no_tunnel_flags"
  by (simp_all add: flow_flags_def has_tunnel_flags_def tunnel_flags_def no_tunnel_flags_def addTunnelFlags_def)

lemma flow_flags_strings:
  "flow_flags ''in-port'' = Some (FString '''')" "flow_flags ''eth-src'' = Some (FString '''')"
  "flow_flags ''eth-dst'' = Some (FString '''')" "flow_flags ''output'' = Some (FString '''')"
  by (simp_all add: flow_flags_def addTunnelFlags_def)

lemma flow_flag_names:
  "flag_name ''in-port''" "flag_name ''eth-src''" "flag_name ''eth-dst''" "flag_name ''output''"
  "flag_name ''tunnel-''" "flag_name ''set-tunnel-''"
  by (simp_all add: flag_name_def)

lemma not_prefix:
  "\<not> prefix ''tunnel-'' ''in-port''" "\<not> prefix ''tunnel-'' ''eth-src''" "\<not> prefix ''tunnel-'' ''eth-dst''"
  "\<not> prefix ''tunnel-'' ''output''" "\<not> prefix ''set-tunnel-'' ''in-port''" "\<not> prefix ''set-tunnel-'' ''eth-src''"
  "\<not> prefix ''set-tunnel-'' ''eth-dst''" "\<not> prefix ''set-tunnel-'' ''output''"
  by simp_all

lemma is_string_frame: "is_string_flag (fs n) \<Longrightarrow> is_string_flag (upd_if b m (FString v) fs n)"
  by simp

lemma set_desc_flags: "set_flags (desc_opts nm d) flow_flags = Some (desc_flags nm d)"
proof -
  let ?f1 = "upd_if (d_in d \<noteq> None) ''in-port'' (FString (nm (the (d_in d)))) flow_flags"
  let ?f2 = "upd_if (d_sm d \<noteq> replicate 6 0) ''eth-src'' (FString (eth_text (d_sk d) (d_sm d))) ?f1"
  let ?f3 = "upd_if (d_dm d \<noteq> replicate 6 0) ''eth-dst'' (FString (eth_text (d_dk d) (d_dm d))) ?f2"
  let ?f4 = "tunnel_updates ''tunnel-'' (fst (given (d_tun d))) (snd (given (d_tun d))) ?f3"
  let ?f5 = "tunnel_updates ''set-tunnel-'' (fst (given (d_set d))) (snd (given (d_set d))) ?f4"
  have k: "is_string_flag (flow_flags ''in-port'')" "is_string_flag (?f1 ''eth-src'')" "is_string_flag (?f2 ''eth-dst'')"
    by (simp_all add: flow_flags_strings)
  have t: "has_tunnel_flags ''tunnel-'' ?f3"
    using flow_flags_tunnel(1) by (simp only: tunnel_flags_upd_if not_prefix not_False_eq_True)
  have st: "has_tunnel_flags ''set-tunnel-'' ?f4"
    using flow_flags_tunnel(2) by (simp only: tunnel_flags_other tunnel_flags_upd_if not_prefix not_False_eq_True)
  have "?f5 ''output'' = flow_flags ''output''"
    by (simp only: tunnel_updates_other not_prefix not_False_eq_True upd_if_apply) simp
  then have o: "is_string_flag (?f5 ''output'')" by (simp add: flow_flags_strings)
  have "set_flags (desc_opts nm d @ []) flow_flags = set_flags [] (desc_flags nm d)"
    unfolding desc_opts_def in_opts_def eth_opts_def given_opts_def out_opts_def append_assoc desc_flags_def
    by (simp only: set_flags_opt_if(1) [where fs = flow_flags, OF flow_flag_names(1) k(1)] set_flags_opt_if(1) [where fs = ?f1, OF flow_flag_names(2) k(2)]
        set_flags_opt_if(1) [where fs = ?f2, OF flow_flag_names(3) k(3)] set_tunnel_flags [OF flow_flag_names(5) t]
        set_tunnel_flags [OF flow_flag_names(6) st] set_flags_opt_if(1) [where fs = ?f5, OF flow_flag_names(4) o])
  then show ?thesis by simp
qed

lemma desc_flags_values:
  "string_flag (desc_flags nm d ''in-port'') = (if d_in d \<noteq> None then nm (the (d_in d)) else '''')"
  "string_flag (desc_flags nm d ''eth-src'') = (if d_sm d \<noteq> replicate 6 0 then eth_text (d_sk d) (d_sm d) else '''')"
  "string_flag (desc_flags nm d ''eth-dst'') = (if d_dm d \<noteq> replicate 6 0 then eth_text (d_dk d) (d_dm d) else '''')"
  "string_flag (desc_flags nm d ''output'') = (if d_out d \<noteq> [] then join '','' (map nm (d_out d)) else '''')"
  unfolding desc_flags_def upd_if_apply by (simp_all add: tunnel_updates_other not_prefix flow_flags_strings)

lemma desc_flags_tunnels:
  "tunnel_flags ''tunnel-'' (desc_flags nm d) = given_tunnel_flags (fst (given (d_tun d))) (snd (given (d_tun d)))"
  "tunnel_flags ''set-tunnel-'' (desc_flags nm d) = given_tunnel_flags (fst (given (d_set d))) (snd (given (d_set d)))"
proof -
  let ?f3 = "upd_if (d_dm d \<noteq> replicate 6 0) ''eth-dst'' (FString (eth_text (d_dk d) (d_dm d)))
     (upd_if (d_sm d \<noteq> replicate 6 0) ''eth-src'' (FString (eth_text (d_sk d) (d_sm d)))
     (upd_if (d_in d \<noteq> None) ''in-port'' (FString (nm (the (d_in d)))) flow_flags))"
  let ?f4 = "tunnel_updates ''tunnel-'' (fst (given (d_tun d))) (snd (given (d_tun d))) ?f3"
  have "tunnel_flags ''tunnel-'' ?f3 = no_tunnel_flags"
    using flow_flags_tunnel(3) by (simp only: tunnel_flags_upd_if not_prefix not_False_eq_True)
  from tunnel_flags_updates [OF this]
  show "tunnel_flags ''tunnel-'' (desc_flags nm d) = given_tunnel_flags (fst (given (d_tun d))) (snd (given (d_tun d)))"
    unfolding desc_flags_def by (simp only: tunnel_flags_upd_if tunnel_flags_other not_prefix not_False_eq_True)
  have "tunnel_flags ''set-tunnel-'' ?f4 = no_tunnel_flags"
    using flow_flags_tunnel(4) by (simp only: tunnel_flags_other tunnel_flags_upd_if not_prefix not_False_eq_True)
  from tunnel_flags_updates [OF this]
  show "tunnel_flags ''set-tunnel-'' (desc_flags nm d) = given_tunnel_flags (fst (given (d_set d))) (snd (given (d_set d)))"
    unfolding desc_flags_def by (simp only: tunnel_flags_upd_if not_prefix not_False_eq_True)
qed

section \<open>Reading the options\<close>

text \<open>A sequence of requests that all succeed.\<close>

fun lookups :: "('k \<Rightarrow> sys \<Rightarrow> ('v, sys) outcome) \<Rightarrow> 'k list \<Rightarrow> sys \<Rightarrow> ('v list, sys) outcome" where
  "lookups f [] w = (Ok [], w)"
| "lookups f (k # ks) w =
     and_then (f k w) (\<lambda>v w. and_then (lookups f ks w) (\<lambda>vs w. (Ok (v # vs), w)))"

lemma lookups_Cons_Ok:
  "lookups f (k # ks) w = (Ok vs, w') \<longleftrightarrow>
     (\<exists>v w1 rest. f k w = (Ok v, w1) \<and> lookups f ks w1 = (Ok rest, w') \<and> vs = v # rest)"
proof (cases "fst (f k w)")
  case (Ok v)
  then obtain w1 where f: "f k w = (Ok v, w1)" by (cases "f k w") simp
  then show ?thesis by (cases "lookups f ks w1"; cases "fst (lookups f ks w1)") auto
qed (cases "f k w"; simp)+

lemma lookups_append_Ok:
  "lookups f (ks @ ks') w = (Ok vs, w') \<longleftrightarrow>
     (\<exists>a w1 b. lookups f ks w = (Ok a, w1) \<and> lookups f ks' w1 = (Ok b, w') \<and> vs = a @ b)"
proof (induction ks arbitrary: w vs)
  case (Cons k ks)
  show ?case by (auto simp: lookups_Cons_Ok Cons.IH simp del: lookups.simps(2))
qed simp

lemma lookups_length: "lookups f ks w = (Ok vs, w') \<Longrightarrow> length vs = length ks"
  by (induction ks arbitrary: w vs) (auto simp: lookups_Cons_Ok simp del: lookups.simps(2))

lemma AddAction_AddActions: "AddActions as (AddAction a f) = AddActions (a # as) f"
  by (simp add: AddAction_def AddActions_def)

lemma add_outputs_lookups:
  "lookups (dp_LookupVportByName dp) names w = (Ok vports, w') \<Longrightarrow>
     add_outputs dp names flow (u, w) = (Ok (Inr (AddActions (map (\<lambda>v. OutputAction (vp_ID v)) vports) flow)), (u, w'))"
proof (induction names arbitrary: w vports flow)
  case (Cons n ns)
  then obtain v w1 rest where "dp_LookupVportByName dp n w = (Ok v, w1)"
    "lookups (dp_LookupVportByName dp) ns w1 = (Ok rest, w')" "vports = v # rest"
    by (auto simp: lookups_Cons_Ok simp del: lookups.simps(2))
  with Cons.IH show ?case
    by (simp add: lib_def attempt_def NewOutputAction_def AddAction_AddActions)
qed (simp add: AddActions_def)

lemma given_wf:
  "pred_option tunnel_ok t \<Longrightarrow> ta_wf (fst (given t))" "pred_option set_ok t \<Longrightarrow> ta_wf (fst (given t))"
  by (cases t; simp add: given_def tunnel_ok_def set_ok_def ta_wf_def zero_ta_def)+

lemma add_tunnel_given:
  "pred_option tunnel_ok t \<Longrightarrow> add_tunnel (exact_key (fst (given t)) (snd (given t))) f = tunnel_key t f"
proof (cases t)
  case None
  then show ?thesis
    by (simp add: given_def add_tunnel_def tunnel_key_def exact_key_def tunnel_Ignored_def tap_mask_def none_pr_def)
next
  case (Some x)
  assume "pred_option tunnel_ok t"
  with Some have "\<not> Ignored (FK_Tunnel (exact_key (fst x) (snd x)))" by (simp add: tunnel_ok_def)
  then show ?thesis using Some by (simp only: given_def add_tunnel_def tunnel_key_def option.case prod.case_eq_if if_True not_False_eq_True)
qed

lemma add_set_given:
  assumes "pred_option set_ok t"
  shows "add_set_tunnel (if any_present (snd (given t))
      then Some (SetTunnelAction (ta_restrict (fst (given t)) (snd (given t))) (snd (given t))) else None) f =
    AddActions (set_action t) f"
  using assms
  by (cases t) (auto simp: given_def set_ok_def add_set_tunnel_def set_action_def any_present_def none_pr_def
      AddActions_def AddAction_def)

lemma AddActions_AddActions: "AddActions as (AddActions bs f) = AddActions (bs @ as) f"
  by (simp add: AddActions_def)

lemma read_in_port:
  assumes "lookups (dp_LookupVportByName dp) (case i of None \<Rightarrow> [] | Some v \<Rightarrow> [nm v]) w = (Ok vports, w')"
    "map vp_ID vports = (case i of None \<Rightarrow> [] | Some v \<Rightarrow> [v])" "\<And>v. i = Some v \<Longrightarrow> nm v \<noteq> ''''"
  shows "add_in_port dp (if i \<noteq> None then nm (the i) else '''') f (u, w) = (Ok (Inr (in_key i f)), (u, w'))"
proof (cases i)
  case None
  then show ?thesis using assms(1) by (simp add: add_in_port_def in_key_def)
next
  case (Some v)
  then obtain p where "dp_LookupVportByName dp (nm v) w = (Ok p, w')" "vp_ID p = v"
    using assms(1,2) by (auto simp: lookups_Cons_Ok simp del: lookups.simps(2))
  then show ?thesis using Some assms(3) by (simp add: add_in_port_def in_key_def lib_def attempt_def)
qed

lemma read_eth:
  assumes "length sk = 6" "length sm = 6" "length dk = 6" "length dm = 6"
    "sm = replicate 6 0 \<Longrightarrow> sk = replicate 6 0" "dm = replicate 6 0 \<Longrightarrow> dk = replicate 6 0"
  shows "handleEthernetFlowKeyOptions f (if sm \<noteq> replicate 6 0 then eth_text sk sm else '''')
      (if dm \<noteq> replicate 6 0 then eth_text dk dm else '''') = Ok (Inr (AddKey (FK_Ethernet (eth_fk sk sm dk dm)) f))"
proof -
  have "handleEthernetAddrOption (if m \<noteq> replicate 6 0 then eth_text k m else '''') = (k, m, None)"
    if "length k = 6" "length m = 6" "m = replicate 6 0 \<Longrightarrow> k = replicate 6 0" for k m
  proof -
    have "handleEthernetAddrOption '''' = (replicate 6 0, replicate 6 0, None)" by (simp add: handleEthernetAddrOption_def)
    then show ?thesis using that handleEthernetAddrOption_text [of k m] by simp
  qed
  then show ?thesis using handleEthernetFlowKeyOptions_result [of _ sk sm None _ dk dm None f] assms by simp
qed

lemma join_nonempty: "ws \<noteq> [] \<Longrightarrow> '''' \<notin> set ws \<Longrightarrow> join sep ws \<noteq> ''''"
  by (cases "(sep, ws)" rule: join.cases) auto

lemma read_desc:
  assumes "desc_good nm d"
    "lookups (dp_LookupVportByName dp) (map nm (desc_ports d)) w = (Ok vports, w')" "map vp_ID vports = desc_ports d"
  shows "read_flow dp (desc_flags nm d) (u, w) = (Ok (Some (desc_flow d)), (u, w'))"
proof -
  let ?ins = "case d_in d of None \<Rightarrow> [] | Some v \<Rightarrow> [v]"
  have ins: "map nm ?ins = (case d_in d of None \<Rightarrow> [] | Some v \<Rightarrow> [nm v])" by (simp split: option.split)
  obtain a w1 b where l: "lookups (dp_LookupVportByName dp) (map nm ?ins) w = (Ok a, w1)"
    "lookups (dp_LookupVportByName dp) (map nm (d_out d)) w1 = (Ok b, w')" "vports = a @ b"
    using assms(2) by (auto simp: desc_ports_def lookups_append_Ok)
  have ids: "map vp_ID a = ?ins" "map vp_ID b = d_out d"
    using assms(3) l(3) lookups_length [OF l(1)] by (simp_all add: desc_ports_def append_eq_append_conv)
  note g = assms(1) [unfolded desc_good_def desc_ports_def]
  have names: "plain_name (nm v)" if "v \<in> set (desc_ports d)" for v
    using that assms(1) by (simp add: desc_good_def list_all_iff)
  have "add_in_port dp (if d_in d \<noteq> None then nm (the (d_in d)) else '''') NewFlowSpec (u, w) =
      (Ok (Inr (in_key (d_in d) NewFlowSpec)), (u, w1))"
    by (rule read_in_port [OF l(1) [unfolded ins] ids(1)]) (use names in \<open>auto simp: desc_ports_def plain_name_def\<close>)
  note part1 = this read_eth [of "d_sk d" "d_sm d" "d_dk d" "d_dm d" "in_key (d_in d) NewFlowSpec"]
  have "parseTunnelFlags (tunnel_flags ''tunnel-'' (desc_flags nm d)) =
      Inr (exact_key (fst (given (d_tun d))) (snd (given (d_tun d))))"
    "parseTunnelFlags (tunnel_flags ''set-tunnel-'' (desc_flags nm d)) =
      Inr (exact_key (fst (given (d_set d))) (snd (given (d_set d))))"
    using g given_wf by (simp_all add: desc_flags_tunnels parse_given_flags)
  note part2 = this(1) parseSetTunnelFlags_exact [OF this(2)]
  have part3: "add_outputs dp (split_on (CHR '','') (join '','' (map nm (d_out d)))) f (u, w1) =
      (Ok (Inr (AddActions (map OutputAction (d_out d)) f)), (u, w'))" if "d_out d \<noteq> []" for f
  proof -
    have "split_on (CHR '','') (join '','' (map nm (d_out d))) = map nm (d_out d)"
      using that names by (intro split_join) (auto simp: desc_ports_def plain_name_def)
    moreover have "map (\<lambda>v. OutputAction (vp_ID v)) b = map OutputAction (d_out d)"
      by (simp flip: ids(2))
    ultimately show ?thesis using add_outputs_lookups [OF l(2)] by simp
  qed
  have nonempty: "join '','' (map nm (d_out d)) \<noteq> ''''" if "d_out d \<noteq> []"
  proof (rule join_nonempty)
    have "nm v \<noteq> ''''" if "v \<in> set (d_out d)" for v using that names [of v] by (simp add: desc_ports_def plain_name_def)
    then show "'''' \<notin> set (map nm (d_out d))" by (metis imageE list.set_map)
  qed (use that in simp)
  have w': "d_out d = [] \<Longrightarrow> w' = w1" using l(2) by simp
  show ?thesis
    using g part1 part2 part3 nonempty w'
    by (simp add: read_flow_def desc_flags_values add_tunnel_given add_set_given Let_def desc_flow_def AddActions_AddActions)
qed

section \<open>Printing the options\<close>

lemma emits_emits [simp]: "emits a (emits b s) = emits (b @ a) s" "emits [] s = s"
  by (cases s; simp add: emits_def emit_def)+

lemma emits_pair: "emits ts (u, w) = (u\<lparr>stdout := stdout u @ map Text ts\<rparr>, w)"
  by (simp add: emits_def emit_def)

text \<open>The ports a key names, and the texts printed for a key.\<close>

fun key_ports :: "FlowKey \<Rightarrow> u32 list" where
  "key_ports (FK_InPort k) = (case InPort_VportID k of Ok v \<Rightarrow> [v] | _ \<Rightarrow> [])"
| "key_ports _ = []"

fun key_texts :: "(u32 \<Rightarrow> string) \<Rightarrow> FlowKey \<Rightarrow> string list" where
  "key_texts nm (FK_InPort k) = map (\<lambda>v. '' --in-port='' @ nm v) (key_ports (FK_InPort k))"
| "key_texts nm (FK_Ethernet k) =
     (case (eth_Key k, eth_Mask k) of
        (Ok a, Ok m) \<Rightarrow> printEthAddrOption ''eth-src'' (EthSrc a) (EthSrc m) @ printEthAddrOption ''eth-dst'' (EthDst a) (EthDst m)
      | _ \<Rightarrow> [])"
| "key_texts nm (FK_Tunnel k) = printTunnelOptions k ''tunnel-''"
| "key_texts nm _ = []"

lemma InPort_VportID_new: "\<exists>k. NewInPortFlowKey v = FK_InPort k \<and> InPort_VportID k = Ok v \<and> \<not> blob_Ignored k"
proof -
  let ?k = "\<lparr>bf_typ = OVS_KEY_ATTR_IN_PORT, keyMask = enc_word 4 v @ replicate 4 0xff\<rparr>"
  have "NewInPortFlowKey v = FK_InPort ?k"
    by (simp add: NewInPortFlowKey_def NewBlobFlowKey_def write_at_def Let_def map_replicate_const)
  moreover have "InPort_VportID ?k = Ok v" "\<not> blob_Ignored ?k"
    by (simp_all add: InPort_VportID_def blob_key_def blob_mask_def blob_Ignored_def)
  ultimately show ?thesis by blast
qed

lemma eth_fk_halves:
  assumes "length sk = 6" "length sm = 6" "length dk = 6" "length dm = 6"
  shows "eth_Key (eth_fk sk sm dk dm) = Ok \<lparr>EthSrc = sk, EthDst = dk\<rparr>" "eth_Mask (eth_fk sk sm dk dm) = Ok \<lparr>EthSrc = sm, EthDst = dm\<rparr>"
  using assms by (simp_all add: eth_Key_def eth_Mask_def eth_fk_def blob_key_def blob_mask_def ovsKeyEthernetAt_def peek_def read_at_def)

section \<open>Texts and options\<close>

text \<open>A text that the shell turns into an option.\<close>

definition good_text :: "string \<Rightarrow> string \<times> string \<Rightarrow> bool" where
  "good_text t nv \<longleftrightarrow> (\<exists>b. t = '' '' @ b \<and> piece b \<and> unquote b = option_arg (fst nv) (snd nv))"

lemma shell_words_line:
  assumes "list_all2 good_text texts opts" "CHR '' '' \<notin> set dpname" "CHR 0x22 \<notin> set dpname"
  shows "shell_words (dpname @ concat texts) = dpname # map (\<lambda>(n, v). option_arg n v) opts"
proof -
  obtain bs where "texts = map (\<lambda>b. '' '' @ b) bs" "list_all piece bs" "map unquote bs = map (\<lambda>(n, v). option_arg n v) opts"
    using assms(1)
  proof (induction arbitrary: thesis rule: list_all2_induct)
    case (Cons t ts nv nvs)
    obtain bs where "ts = map (\<lambda>b. '' '' @ b) bs" "list_all piece bs" "map unquote bs = map (\<lambda>(n, v). option_arg n v) nvs"
      using Cons.IH by blast
    moreover obtain b where "t = '' '' @ b" "piece b" "unquote b = option_arg (fst nv) (snd nv)"
      using Cons.hyps by (auto simp: good_text_def)
    ultimately show ?case by (intro Cons.prems [of "b # bs"]) (auto simp: case_prod_beta)
  qed simp
  then show ?thesis
    using shell_words_pieces [of dpname bs] assms(2,3) by (simp add: piece_plain unquote_simps)
qed

definition plain :: "string \<Rightarrow> bool" where
  "plain s \<longleftrightarrow> CHR '' '' \<notin> set s \<and> CHR 0x22 \<notin> set s"

lemma plain_simps [simp]:
  "plain []" "plain (a @ b) \<longleftrightarrow> plain a \<and> plain b" "plain (c # s) \<longleftrightarrow> c \<noteq> CHR '' '' \<and> c \<noteq> CHR 0x22 \<and> plain s"
  by (auto simp: plain_def)

lemma plain_join: "plain sep \<Longrightarrow> list_all plain ws \<Longrightarrow> plain (join sep ws)"
  by (induction sep ws rule: join.induct) auto

lemma plain_hex_char: "d < 16 \<Longrightarrow> hex_char d \<noteq> CHR '' '' \<and> hex_char d \<noteq> CHR 0x22"
  using hex_val_char [of d] by (auto simp: hex_val_def digit_val_def)

lemma plain_hex_byte [simp]: "plain (hex_byte b)"
proof -
  have "unat b div 16 < 16" "unat b mod 16 < 16"
    using unsigned_less [of b, where ?'a = nat] by (simp_all add: div_less_iff_less_mult)
  then show ?thesis using plain_hex_char by (simp add: hex_byte_def)
qed

lemma plain_show_nat [simp]: "plain (show_nat n)"
proof -
  have "digit d \<noteq> CHR '' '' \<and> digit d \<noteq> CHR 0x22" if "d < 10" for d
    using plain_hex_char [of d] that by (simp add: hex_char_def)
  then show ?thesis using set_show_nat [of _ n] by (fastforce simp: plain_def)
qed

lemma plain_values [simp]: "plain (EncodeToString t)" "plain (IPv4_String p)" "plain (show_bool b)" "plain (HardwareAddr_String a)"
proof -
  have "plain (concat (map hex_byte t))" by (induction t) simp_all
  then show "plain (EncodeToString t)" by (simp add: EncodeToString_def)
  show "plain (IPv4_String p)" unfolding IPv4_String_def by (rule plain_join) (simp_all add: list_all_iff)
  show "plain (show_bool b)" by (simp add: show_bool_def)
  show "plain (HardwareAddr_String a)" unfolding HardwareAddr_String_def by (rule plain_join) (simp_all add: list_all_iff)
qed

lemma good_text_plain: "plain n \<Longrightarrow> plain v \<Longrightarrow> good_text ('' '' @ option_arg n v) (n, v)"
proof -
  assume "plain n" "plain v"
  then have "plain (option_arg n v)" by (simp add: option_arg_def)
  then show ?thesis unfolding good_text_def by (intro exI [of _ "option_arg n v"]) (simp add: plain_def piece_plain unquote_simps)
qed

lemma good_printed: "list_all (\<lambda>(n, v). plain n \<and> plain v) opts \<Longrightarrow> list_all2 good_text (printed opts) opts"
  by (induction opts) (auto simp: printed_def good_text_plain simp del: append.simps)

lemma plain_opt_if: "plain n \<Longrightarrow> plain v \<Longrightarrow> list_all (\<lambda>(n, v). plain n \<and> plain v) (opt_if b n v)"
  by (simp add: opt_if_def)

lemma good_tunnel_texts: "plain pfx \<Longrightarrow> list_all2 good_text (printed (tunnel_opts pfx ta pr)) (tunnel_opts pfx ta pr)"
  unfolding tunnel_opts_def by (intro good_printed) (simp add: opt_if_def)

lemma good_eth_texts:
  assumes "length m = 6" "plain opt"
  shows "list_all2 good_text (printEthAddrOption opt k m) (opt_if (m \<noteq> replicate 6 0) opt (eth_text k m))"
proof -
  have p: "piece (option_arg opt ([CHR 0x22] @ HardwareAddr_String k @ ''&'' @ HardwareAddr_String m @ [CHR 0x22]))"
    "unquote (option_arg opt ([CHR 0x22] @ HardwareAddr_String k @ ''&'' @ HardwareAddr_String m @ [CHR 0x22])) =
       option_arg opt (HardwareAddr_String k @ ''&'' @ HardwareAddr_String m)"
    using assms(2) plain_values(4) [of k] plain_values(4) [of m]
    by (simp_all add: piece_def option_arg_def plain_def count_list_0_iff unquote_simps)
  then have "good_text ('' '' @ option_arg opt ([CHR 0x22] @ HardwareAddr_String k @ ''&'' @ HardwareAddr_String m @ [CHR 0x22]))
      (opt, HardwareAddr_String k @ ''&'' @ HardwareAddr_String m)" unfolding good_text_def by auto
  moreover note good_text_plain [OF assms(2) plain_values(4), of k]
  ultimately show ?thesis
    using assms(1) by (simp add: printEthAddrOption_def printBytesOption_def AllBytes_length opt_if_def eth_text_def option_arg_def)
qed

section \<open>The line of a flow\<close>

text \<open>The keys of a flow with the options printed for them, by type.\<close>

definition in_entry :: "(u32 \<Rightarrow> string) \<Rightarrow> u32 option \<Rightarrow> (u16 \<times> FlowKey \<times> (string \<times> string) list) list" where
  "in_entry nm i = (case i of None \<Rightarrow> [] | Some v \<Rightarrow> [(OVS_KEY_ATTR_IN_PORT, NewInPortFlowKey v, [(''in-port'', nm v)])])"

definition tunnel_entry :: "(TunnelAttrs \<times> TunnelAttrsPresence) option \<Rightarrow> (u16 \<times> FlowKey \<times> (string \<times> string) list) list" where
  "tunnel_entry t = (case t of None \<Rightarrow> []
     | Some (ta, pr) \<Rightarrow> [(OVS_KEY_ATTR_TUNNEL, FK_Tunnel (exact_key ta pr), tunnel_opts ''tunnel-'' ta pr)])"

definition desc_entries :: "(u32 \<Rightarrow> string) \<Rightarrow> flow_desc \<Rightarrow> (u16 \<times> FlowKey \<times> (string \<times> string) list) list" where
  "desc_entries nm d = in_entry nm (d_in d) @
     [(OVS_KEY_ATTR_ETHERNET, FK_Ethernet (eth_fk (d_sk d) (d_sm d) (d_dk d) (d_dm d)),
       eth_opts (d_sk d) (d_sm d) (d_dk d) (d_dm d))] @ tunnel_entry (d_tun d)"

lemma tunnel_opts_none: "tunnel_opts pfx ta none_pr = []"
  by (simp add: tunnel_opts_def none_pr_def opt_if_def)

lemma desc_entries_opts:
  "concat (map (snd \<circ> snd) (desc_entries nm d)) @ given_opts ''set-tunnel-'' (d_set d) @ out_opts nm (d_out d) = desc_opts nm d"
  by (auto simp: desc_entries_def in_entry_def tunnel_entry_def desc_opts_def in_opts_def given_opts_def given_def opt_if_def
      tunnel_opts_none split: option.split)

lemma desc_entries_keys: "map_option fst \<circ> map_of (desc_entries nm d) = flow_keys (desc_flow d)"
proof -
  have "typeId (NewInPortFlowKey i) = OVS_KEY_ATTR_IN_PORT" for i
    by (simp add: NewInPortFlowKey_def Let_def NewBlobFlowKey_def)
  then show ?thesis
    by (auto simp: fun_eq_iff desc_entries_def in_entry_def tunnel_entry_def desc_flow_def AddActions_def tunnel_key_def
        AddKey_def in_key_def FlowKeys_Add_def NewFlowSpec_def eth_fk_def split: option.split)
qed

lemma desc_entries_distinct: "distinct (map fst (desc_entries nm d))"
  by (auto simp: desc_entries_def in_entry_def tunnel_entry_def split: option.split)

lemma map_filter_order:
  assumes "distinct (map fst al)" "mset ord = mset (map fst al)"
  shows "mset (List.map_filter (map_of al) ord) = mset (map snd al)"
proof -
  have in_dom: "map_of al k \<noteq> None" if "k \<in> set ord" for k
    using that assms(2) by (metis map_of_eq_None_iff list.set_map mset_eq_setD)
  then have "filter (\<lambda>k. map_of al k \<noteq> None) ord = ord" by simp
  then have "mset (List.map_filter (map_of al) ord) = image_mset (\<lambda>k. the (map_of al k)) (mset ord)"
    by (simp add: map_filter_def comp_def del: not_None_eq)
  also have "\<dots> = mset (map (\<lambda>p. the (map_of al (fst p))) al)"
    by (simp add: assms(2) image_mset.compositionality comp_def)
  also have "map (\<lambda>p. the (map_of al (fst p))) al = map snd al"
    using assms(1) by (intro map_cong refl) (metis map_of_is_SomeI option.sel prod.collapse)
  finally show ?thesis .
qed

text \<open>What printing a key writes.\<close>

definition prints :: "DatapathHandle \<Rightarrow> (u32 \<Rightarrow> string) \<Rightarrow> FlowKey \<times> (string \<times> string) list \<Rightarrow> bool" where
  "prints dp nm e \<longleftrightarrow> \<not> Ignored (fst e) \<and> (\<exists>texts. list_all2 good_text texts (snd e) \<and>
     (\<forall>u w w'. lookups (LookupVportName dp) (key_ports (fst e)) w = (Ok (map nm (key_ports (fst e))), w') \<longrightarrow>
        print_key (fst e) dp (u, w) = (Ok (), emits texts (u, w'))))"

lemma print_entries:
  assumes "list_all (prints dp nm) es"
    "lookups (LookupVportName dp) (concat (map (\<lambda>e. key_ports (fst e)) es)) w =
       (Ok (map nm (concat (map (\<lambda>e. key_ports (fst e)) es))), w')"
  shows "\<exists>texts. list_all2 good_text texts (concat (map snd es)) \<and> print_keys (map fst es) dp (u, w) = (Ok (), emits texts (u, w'))"
  using assms
proof (induction es arbitrary: u w)
  case (Cons e es)
  let ?ps = "key_ports (fst e)" and ?qs = "concat (map (\<lambda>e. key_ports (fst e)) es)"
  obtain a w1 b where l: "lookups (LookupVportName dp) ?ps w = (Ok a, w1)" "lookups (LookupVportName dp) ?qs w1 = (Ok b, w')"
    "map nm (?ps @ ?qs) = a @ b"
    using Cons.prems(2) by (auto simp: lookups_append_Ok)
  have ab: "a = map nm ?ps" "b = map nm ?qs"
    using l(3) lookups_length [OF l(1)] by (simp_all add: append_eq_append_conv)
  obtain t where t: "\<not> Ignored (fst e)" "list_all2 good_text t (snd e)" "\<And>u. print_key (fst e) dp (u, w) = (Ok (), emits t (u, w1))"
    using Cons.prems(1) l(1) ab by (auto simp: prints_def)
  obtain ts where ts: "list_all2 good_text ts (concat (map snd es))"
    "print_keys (map fst es) dp (emits t (u, w1)) = (Ok (), emits ts (u\<lparr>stdout := stdout u @ map Text t\<rparr>, w'))"
    using Cons.IH [of w1 "u\<lparr>stdout := stdout u @ map Text t\<rparr>"] Cons.prems(1) l(2) ab by (auto simp: emits_pair)
  then have "print_keys (map fst (e # es)) dp (u, w) = (Ok (), emits (t @ ts) (u, w'))"
    using t by (simp add: emits_pair)
  moreover have "list_all2 good_text (t @ ts) (concat (map snd (e # es)))"
    using t(2) ts(1) by (simp add: list_all2_appendI)
  ultimately show ?case by blast
qed (simp add: emits_pair)

lemma prints_in_port: "plain (nm v) \<Longrightarrow> prints dp nm (NewInPortFlowKey v, [(''in-port'', nm v)])"
proof -
  assume "plain (nm v)"
  obtain k where k: "NewInPortFlowKey v = FK_InPort k" "InPort_VportID k = Ok v" "\<not> blob_Ignored k"
    using InPort_VportID_new by blast
  have "good_text ('' --in-port='' @ nm v) (''in-port'', nm v)"
    using good_text_plain [of "''in-port''" "nm v"] \<open>plain (nm v)\<close> by (simp add: option_arg_def)
  then show ?thesis
    using k unfolding prints_def
    by (intro conjI exI [of _ "['' --in-port='' @ nm v]"]) (auto simp: lookups_Cons_Ok lib_def simp del: lookups.simps(2))
qed

lemma prints_ethernet:
  assumes "length sk = 6" "length sm = 6" "length dk = 6" "length dm = 6"
  shows "prints dp nm (FK_Ethernet (eth_fk sk sm dk dm), eth_opts sk sm dk dm)"
  unfolding prints_def eth_opts_def
  using good_eth_texts [of sm "''eth-src''" sk] good_eth_texts [of dm "''eth-dst''" dk] assms
  by (intro conjI exI [of _ "printEthAddrOption ''eth-src'' sk sm @ printEthAddrOption ''eth-dst'' dk dm"])
    (simp_all add: list_all2_appendI eth_fk_halves)

lemma prints_tunnel: "tunnel_ok (ta, pr) \<Longrightarrow> prints dp nm (FK_Tunnel (exact_key ta pr), tunnel_opts ''tunnel-'' ta pr)"
  unfolding prints_def tunnel_ok_def using good_tunnel_texts [of "''tunnel-''" ta pr] printTunnelOptions_exact [of ta pr "''tunnel-''"]
  by (intro conjI exI [of _ "printed (tunnel_opts ''tunnel-'' ta pr)"]) (simp_all del: Ignored.simps)

lemma plain_name_plain: "plain_name n \<Longrightarrow> plain n"
  by (simp add: plain_name_def plain_def)

lemma prints_entries: "desc_good nm d \<Longrightarrow> list_all (prints dp nm) (map snd (desc_entries nm d))"
  by (auto simp: desc_good_def desc_entries_def in_entry_def tunnel_entry_def desc_ports_def plain_name_plain
      prints_in_port prints_ethernet prints_tunnel split: option.split)

lemma entry_ports:
  "concat (map (\<lambda>e. key_ports (fst e)) (map snd (desc_entries nm d))) = (case d_in d of None \<Rightarrow> [] | Some v \<Rightarrow> [v])"
proof -
  have "key_ports (NewInPortFlowKey v) = [v]" for v using InPort_VportID_new [of v] by auto
  then show ?thesis
    by (cases "d_in d"; cases "d_tun d") (auto simp: desc_entries_def in_entry_def tunnel_entry_def)
qed

lemma mset_concat_permuted: "mset xs = mset ys \<Longrightarrow> mset (concat (map f xs)) = mset (concat (map f ys))"
  by (simp add: mset_concat flip: sum_mset_sum_list)

lemma single_permuted:
  assumes "mset es = mset es'" "length (concat (map f es')) \<le> 1"
  shows "concat (map f es) = concat (map f es')"
proof -
  have "mset (concat (map f es)) = mset (concat (map f es'))"
    by (rule mset_concat_permuted [OF assms(1)])
  moreover have "ys = xs" if "mset ys = mset xs" "length xs \<le> 1" for xs ys :: "'b list"
    using that by (cases xs) auto
  ultimately show ?thesis using assms(2) by blast
qed

lemma printFlowKeys_desc:
  assumes "desc_good nm d" "range_order (ch_print ch (flow_keys (desc_flow d))) (flow_keys (desc_flow d))"
    "lookups (LookupVportName dp) (case d_in d of None \<Rightarrow> [] | Some v \<Rightarrow> [v]) w = (Ok (map nm (case d_in d of None \<Rightarrow> [] | Some v \<Rightarrow> [v])), w')"
  obtains texts opts where "printFlowKeys ch (flow_keys (desc_flow d)) dp (u, w) = (Ok (), emits texts (u, w'))"
    "list_all2 good_text texts opts" "mset opts = mset (concat (map (snd \<circ> snd) (desc_entries nm d)))"
proof -
  let ?al = "desc_entries nm d" and ?ord = "ch_print ch (flow_keys (desc_flow d))"
  let ?es = "List.map_filter (map_of ?al) ?ord"
  have "set ?ord = set (map fst ?al)"
    using assms(2) desc_entries_keys [of nm d, symmetric] by (simp add: range_order_def dom_map_of_conv_image_fst)
  then have "mset ?ord = mset (map fst ?al)"
    using assms(2) desc_entries_distinct by (metis range_order_def set_eq_iff_mset_eq_distinct)
  then have es: "mset ?es = mset (map snd ?al)" by (rule map_filter_order [OF desc_entries_distinct])
  have ports: "concat (map (\<lambda>e. key_ports (fst e)) ?es) = (case d_in d of None \<Rightarrow> [] | Some v \<Rightarrow> [v])"
    unfolding entry_ports [of nm d, symmetric]
    by (rule single_permuted [OF es]) (simp only: entry_ports, simp split: option.split)
  have "list_all (prints dp nm) ?es"
    using prints_entries [OF assms(1), of dp] by (simp only: list_all_iff mset_eq_setD [OF es])
  from print_entries [OF this, of w w'] obtain texts where t: "list_all2 good_text texts (concat (map snd ?es))"
    "print_keys (map fst ?es) dp (u, w) = (Ok (), emits texts (u, w'))"
    using assms(3) ports by auto
  have "map fst ?es = List.map_filter (flow_keys (desc_flow d)) ?ord"
    unfolding desc_entries_keys [of nm d, symmetric] by (auto simp: map_filter_def)
  moreover have "mset (concat (map snd ?es)) = mset (concat (map snd (map snd ?al)))"
    by (rule mset_concat_permuted [OF es])
  ultimately show thesis using that [OF _ t(1)] t(2) by (simp add: printFlowKeys_def comp_def)
qed

lemma print_outputs:
  "lookups (LookupVportName dp) vs w = (Ok (map nm vs), w') \<Longrightarrow>
     print_actions (map OutputAction vs) outs dp (u, w) = (Ok (outs @ map nm vs), (u, w'))"
proof (induction vs arbitrary: outs w)
  case (Cons v vs)
  then obtain w1 where "LookupVportName dp v w = (Ok (nm v), w1)" "lookups (LookupVportName dp) vs w1 = (Ok (map nm vs), w')"
    by (auto simp: lookups_Cons_Ok simp del: lookups.simps(2))
  with Cons.IH show ?case by (simp add: lib_def)
qed simp

lemma printFlowActions_desc:
  assumes "desc_good nm d" "lookups (LookupVportName dp) (d_out d) w = (Ok (map nm (d_out d)), w')"
  obtains texts where "printFlowActions (flow_actions (desc_flow d)) dp (u, w) = (Ok (), emits texts (u, w'))"
    "list_all2 good_text texts (given_opts ''set-tunnel-'' (d_set d) @ out_opts nm (d_out d))"
proof -
  let ?st = "printed (given_opts ''set-tunnel-'' (d_set d))"
  let ?out = "printed (out_opts nm (d_out d))"
  have "print_actions (set_action (d_set d) @ as) [] dp s = print_actions as [] dp (emits ?st s)" for as s
    using assms(1) printSetTunnelOptions_exact
    by (cases "d_set d") (auto simp: set_action_def given_opts_def given_def tunnel_opts_none desc_good_def set_ok_def)
  moreover have "flow_actions (desc_flow d) = set_action (d_set d) @ map OutputAction (d_out d)"
    by (simp add: desc_flow_def AddActions_def tunnel_key_def in_key_def AddKey_def NewFlowSpec_def split: option.split)
  ultimately have "printFlowActions (flow_actions (desc_flow d)) dp (u, w) = (Ok (), emits (?st @ ?out) (u, w'))"
    using print_outputs [OF assms(2)] by (simp add: printFlowActions_def emits_pair out_opts_def opt_if_def printed_def option_arg_def)
  moreover have "list_all2 good_text ?st (given_opts ''set-tunnel-'' (d_set d))"
    unfolding given_opts_def by (rule good_tunnel_texts) simp
  moreover have "list_all2 good_text ?out (out_opts nm (d_out d))"
  proof -
    have "list_all plain (map nm (d_out d))"
      using assms(1) by (auto simp: desc_good_def desc_ports_def list_all_iff plain_name_plain)
    then show ?thesis unfolding out_opts_def by (intro good_printed plain_opt_if plain_join) simp_all
  qed
  ultimately show thesis using that list_all2_appendI by blast
qed

lemma desc_opts_distinct: "distinct (map fst (desc_opts nm d))"
proof -
  have o: "subseq (map fst (opt_if b n v)) [n]" for b n v by (simp add: opt_if_def)
  have t: "subseq (map fst (tunnel_opts pfx ta pr)) (map ((@) pfx) [''id'', ''ipv4-src'', ''ipv4-dst'', ''tos'', ''ttl'', ''df'',
      ''csum'', ''tp-src'', ''tp-dst''])" for pfx ta pr
    by (simp add: tunnel_opts_def opt_if_def)
  let ?names = "[''in-port''] @ ([''eth-src''] @ [''eth-dst'']) @
    map ((@) ''tunnel-'') [''id'', ''ipv4-src'', ''ipv4-dst'', ''tos'', ''ttl'', ''df'', ''csum'', ''tp-src'', ''tp-dst''] @
    map ((@) ''set-tunnel-'') [''id'', ''ipv4-src'', ''ipv4-dst'', ''tos'', ''ttl'', ''df'', ''csum'', ''tp-src'', ''tp-dst''] @
    [''output'']"
  have "subseq (map fst (desc_opts nm d)) ?names"
    unfolding desc_opts_def in_opts_def eth_opts_def given_opts_def out_opts_def map_append by (intro list_emb_append_mono o t)
  moreover have "distinct ?names" by simp
  ultimately show ?thesis by (metis distinct_nthsI subseq_conv_nths)
qed

section \<open>Properties\<close>

text \<open>
  Property C14: a line printed by \<^verbatim>\<open>odp flow list\<close> describes the flow it was printed for.  The keys and
  the actions of a flow that the tool can describe are printed as options; the line, split into
  words by the shell and given to \<^verbatim>\<open>odp flow add\<close>, is read as exactly this flow, in whatever order Go
  ranges over the keys, provided that the kernel still maps the names of the vports to their numbers.
\<close>

theorem flow_line_roundtrip:
  assumes "desc_good nm d" "range_order (ch_print ch (flow_keys (desc_flow d))) (flow_keys (desc_flow d))"
    and "lookups (LookupVportName dp) (desc_ports d) w = (Ok (map nm (desc_ports d)), w')"
    and "lookups (dp_LookupVportByName dp) (map nm (desc_ports d)) v = (Ok vports, v')" "map vp_ID vports = desc_ports d"
    and "plain dpname" "plain_arg dpname"
  shows "\<exists>texts fs.
    and_then (printFlowKeys ch (flow_keys (desc_flow d)) dp (u, w)) (\<lambda>_. printFlowActions (flow_actions (desc_flow d)) dp) =
      (Ok (), emits texts (u, w')) \<and>
    Flags_Parse flow_flags (shell_words (dpname @ concat texts)) 1 1 = Inr ([dpname], fs) \<and>
    read_flow dp fs (u', v) = (Ok (Some (desc_flow d)), (u', v'))"
proof -
  obtain a w1 b where l: "lookups (LookupVportName dp) (case d_in d of None \<Rightarrow> [] | Some v \<Rightarrow> [v]) w = (Ok a, w1)"
    "lookups (LookupVportName dp) (d_out d) w1 = (Ok b, w')" "map nm (desc_ports d) = a @ b"
    using assms(3) by (auto simp: desc_ports_def lookups_append_Ok)
  then have ab: "a = map nm (case d_in d of None \<Rightarrow> [] | Some v \<Rightarrow> [v])" "b = map nm (d_out d)"
    using lookups_length [OF l(1)] by (simp_all add: desc_ports_def append_eq_append_conv)
  obtain ts opts where k: "printFlowKeys ch (flow_keys (desc_flow d)) dp (u, w) = (Ok (), emits ts (u, w1))"
    "list_all2 good_text ts opts" "mset opts = mset (concat (map (snd \<circ> snd) (desc_entries nm d)))"
    by (rule printFlowKeys_desc [OF assms(1,2) l(1) [unfolded ab]])
  obtain ts' where t': "printFlowActions (flow_actions (desc_flow d)) dp (u\<lparr>stdout := stdout u @ map Text ts\<rparr>, w1) =
      (Ok (), emits ts' (u\<lparr>stdout := stdout u @ map Text ts\<rparr>, w'))"
    "list_all2 good_text ts' (given_opts ''set-tunnel-'' (d_set d) @ out_opts nm (d_out d))"
    by (rule printFlowActions_desc [OF assms(1) l(2) [unfolded ab]])
  let ?opts = "opts @ given_opts ''set-tunnel-'' (d_set d) @ out_opts nm (d_out d)"
  have m: "mset ?opts = mset (desc_opts nm d)" using k(3) by (simp flip: desc_entries_opts)
  have "set_flags ?opts flow_flags = Some (desc_flags nm d)"
    using set_flags_permuted [OF desc_opts_distinct m [symmetric], of flow_flags] set_desc_flags by simp
  moreover have "shell_words (dpname @ concat (ts @ ts')) = [dpname] @ map (\<lambda>(n, v). option_arg n v) ?opts"
    using shell_words_line [OF list_all2_appendI [OF k(2) t'(2)], of dpname] assms(6) by (simp add: plain_def)
  ultimately have "Flags_Parse flow_flags (shell_words (dpname @ concat (ts @ ts'))) 1 1 = Inr ([dpname], desc_flags nm d)"
    using findFirstOpt_plain [of "[dpname]" ?opts] FlagSet_Parse_options [of ?opts flow_flags "desc_flags nm d" "[]"] assms(7)
    by (simp add: Flags_Parse_def)
  moreover have "and_then (printFlowKeys ch (flow_keys (desc_flow d)) dp (u, w)) (\<lambda>_. printFlowActions (flow_actions (desc_flow d)) dp) =
      (Ok (), emits (ts @ ts') (u, w'))"
    using k(1) t'(1) by (simp add: emits_pair)
  ultimately show ?thesis using read_desc [OF assms(1,4,5)] by blast
qed

text \<open>A flow that sends frames to one host through a tunnel vport, and the answers of the kernel.\<close>

definition sample_flow :: flow_desc where
  "sample_flow = \<lparr>d_in = None, d_sk = replicate 6 0, d_sm = replicate 6 0, d_dk = [2, 0, 0, 0, 0, 1], d_dm = replicate 6 0xff,
     d_tun = None, d_set = Some (sample_ta, sample_pr), d_out = [3]\<rparr>"

definition demo_vport_sys :: sys where
  "demo_vport_sys = idle_sys [Datagram (wire 42 7 (demo_vport_msg OVS_VPORT_CMD_NEW 3 demo_vxlan)) (NetlinkAddr 0)]"

lemma demo_vport_answer:
  "answers (dpif_sock (dp_dpif demo_datapath)) demo_vport_sys (fst (demo_vport_msg OVS_VPORT_CMD_NEW 3 demo_vxlan))
     (fst (snd (demo_vport_msg OVS_VPORT_CMD_NEW 3 demo_vxlan))) (nextSeqNo demo_vport_sys + 1)
     (snd (snd (demo_vport_msg OVS_VPORT_CMD_NEW 3 demo_vxlan)))"
  unfolding answers_def demo_vport_sys_def
  by (intro exI [of _ "[]"] conjI exI)
    (simp add: wire_msg, use demo_vport_length [of 42 7] in \<open>simp add: wire_msg RECV_BUF_def del: ovs_consts\<close>)

lemma demo_vport_accepted:
  "fst (demo_vport_msg OVS_VPORT_CMD_NEW 3 demo_vxlan) \<noteq> NLMSG_ERROR"
  "vp_msg_ok (dp_dpif demo_datapath) (demo_vport_msg OVS_VPORT_CMD_NEW 3 demo_vxlan) OVS_VPORT_CMD_NEW (dp_ifindex demo_datapath) 3 demo_vxlan"
  "cmd_accepted VPORT (uint OVS_VPORT_CMD_GET) OVS_VPORT_CMD_NEW"
  "answer (sends demo_vport_sys) = Ok ()" "fuel demo_vport_sys > 0"
  using demo_vport_msg_ok
  by (simp_all add: demo_datapath_def demo_vport_msg_def NLMSG_ERROR_def demo_vport_sys_def cmd_accepted_def VPORT_def
      fallback_cmd_def)

lemma demo_vport_named: "\<exists>w'. LookupVportName demo_datapath 3 demo_vport_sys = (Ok ''vx'', w')"
  using LookupVport_reply [OF demo_vport_accepted(4,5,1) demo_vport_answer demo_vport_accepted(2,3), of 3]
  by (simp add: LookupVportName_def deref_def demo_vxlan_def NewVxlanVportSpec_def del: ovs_consts)

lemma demo_vport_found:
  "\<exists>w'. dp_LookupVportByName demo_datapath ''vx'' demo_vport_sys = (Ok \<lparr>vp_ID = 3, vp_Spec = Some demo_vxlan\<rparr>, w')"
  using lookupVport_reply [OF demo_vport_accepted(4,5,1) demo_vport_answer demo_vport_accepted(2,3), of "dp_ifindex demo_datapath" "''vx''"]
  by (simp add: dp_LookupVportByName_def del: ovs_consts)

definition some_order :: "FlowKeys \<Rightarrow> u16 list" where
  "some_order fks = filter (\<lambda>t. fks t \<noteq> None) [OVS_KEY_ATTR_TUNNEL, OVS_KEY_ATTR_ETHERNET, OVS_KEY_ATTR_IN_PORT]"

lemma desc_flow_dom: "dom (flow_keys (desc_flow d)) \<subseteq> {OVS_KEY_ATTR_TUNNEL, OVS_KEY_ATTR_ETHERNET, OVS_KEY_ATTR_IN_PORT}"
  unfolding desc_entries_keys [of nm d, symmetric] dom_map_option_comp dom_map_of_conv_image_fst
  by (auto simp: desc_entries_def in_entry_def tunnel_entry_def split: option.splits)

theorem flow_line_roundtrip_witness:
  "\<exists>texts fs w' v'.
     and_then (printFlowKeys (demo_choices\<lparr>ch_print := some_order\<rparr>) (flow_keys (desc_flow sample_flow)) demo_datapath
         (demo_out, demo_vport_sys))
       (\<lambda>_. printFlowActions (flow_actions (desc_flow sample_flow)) demo_datapath) = (Ok (), emits texts (demo_out, w')) \<and>
     Flags_Parse flow_flags (shell_words (''dp'' @ concat texts)) 1 1 = Inr ([''dp''], fs) \<and>
     read_flow demo_datapath fs (demo_out, demo_vport_sys) = (Ok (Some (desc_flow sample_flow)), (demo_out, v'))"
proof -
  let ?ch = "demo_choices\<lparr>ch_print := some_order\<rparr>"
  have "set_ok (sample_ta, sample_pr)"
    by (simp add: set_ok_def sample_wf)
      (simp add: any_present_def ta_restrict_def sample_ta_def sample_pr_def zero_ta_def)
  moreover have "replicate 6 (0xff :: byte) \<noteq> replicate 6 0" by code_simp
  ultimately have "desc_good (\<lambda>_. ''vx'') sample_flow"
    by (simp add: desc_good_def sample_flow_def desc_ports_def plain_name_def)
  moreover have "range_order (ch_print ?ch (flow_keys (desc_flow sample_flow))) (flow_keys (desc_flow sample_flow))"
    using desc_flow_dom [of sample_flow] by (auto simp: range_order_def some_order_def)
  moreover obtain w' v' where "lookups (LookupVportName demo_datapath) (desc_ports sample_flow) demo_vport_sys =
      (Ok (map (\<lambda>_. ''vx'') (desc_ports sample_flow)), w')"
    "lookups (dp_LookupVportByName demo_datapath) (map (\<lambda>_. ''vx'') (desc_ports sample_flow)) demo_vport_sys =
      (Ok [\<lparr>vp_ID = 3, vp_Spec = Some demo_vxlan\<rparr>], v')"
    using demo_vport_named demo_vport_found by (auto simp: desc_ports_def sample_flow_def)
  moreover have "map vp_ID [\<lparr>vp_ID = 3, vp_Spec = Some demo_vxlan\<rparr>] = desc_ports sample_flow"
    by (simp add: desc_ports_def sample_flow_def)
  ultimately have "\<exists>texts fs. and_then (printFlowKeys ?ch (flow_keys (desc_flow sample_flow)) demo_datapath (demo_out, demo_vport_sys))
       (\<lambda>_. printFlowActions (flow_actions (desc_flow sample_flow)) demo_datapath) = (Ok (), emits texts (demo_out, w')) \<and>
     Flags_Parse flow_flags (shell_words (''dp'' @ concat texts)) 1 1 = Inr ([''dp''], fs) \<and>
     read_flow demo_datapath fs (demo_out, demo_vport_sys) = (Ok (Some (desc_flow sample_flow)), (demo_out, v'))"
    by (rule flow_line_roundtrip) (simp_all add: plain_arg_def)
  then show ?thesis by blast
qed

end
