(* ===== verification/Tool_Behaviour.thy ===== *)
theory Tool_Behaviour
  imports Tool_Flow_Lines
begin

text \<open>
  What single commands of the tool do: how a datapath is found, which ports are accepted, what the
  capture stream holds, and two cases in which an error is lost or becomes a panic.
\<close>

section \<open>The capture stream\<close>

text \<open>Reading the packets of a stream back, after the header of 24 bytes.\<close>

function pcap_packets :: "bytes \<Rightarrow> bytes list option" where
  "pcap_packets b =
     (if b = [] then Some []
      else if length b < 16 then None
      else (let n = unat (dec_word (take 4 (drop 8 b)) :: u32) in
            if length b < 16 + n then None
            else map_option (\<lambda>ps. take n (drop 16 b) # ps) (pcap_packets (drop (16 + n) b))))"
  by pat_completeness auto
termination by (relation "measure length") auto

declare pcap_packets.simps [simp del]

definition pcap_record :: "int \<times> int \<Rightarrow> bytes \<Rightarrow> bytes" where
  "pcap_record t p = pcapPacketHeader_bytes
     \<lparr>sec = of_int (fst t), usec = of_int (snd t), inclLen = of_nat (length p), origLen = of_nat (length p)\<rparr> @ p"

lemma length_pcap_header: "length (pcapPacketHeader_bytes h) = 16"
  by (simp add: pcapPacketHeader_bytes_def)

lemma pcap_packets_record:
  assumes "length p < 2 ^ 32"
  shows "pcap_packets (pcap_record t p @ rest) = map_option ((#) p) (pcap_packets rest)"
proof -
  have "take 4 (drop 8 (pcap_record t p @ rest)) = enc_word 4 (of_nat (length p) :: u32)"
    by (simp add: pcap_record_def pcapPacketHeader_bytes_def)
  moreover have "unat (of_nat (length p) :: u32) = length p"
    using assms by (simp add: unsigned_of_nat take_bit_nat_eq_self_iff)
  moreover have "length (pcap_record t p) = 16 + length p" by (simp add: pcap_record_def length_pcap_header)
  moreover from this have "pcap_record t p \<noteq> []" by auto
  moreover have "drop 16 (pcap_record t p) = p" by (simp add: pcap_record_def length_pcap_header)
  ultimately show ?thesis by (subst pcap_packets.simps) (simp add: Let_def)
qed

text \<open>The packets of a series of misses, without the keys.\<close>

fun feed :: "choices \<Rightarrow> string \<Rightarrow> DatapathHandle \<Rightarrow> (bytes option \<times> FlowKeys) list \<Rightarrow> st \<Rightarrow> (unit, st) outcome" where
  "feed ch dpname dp [] s = (Ok (), s)"
| "feed ch dpname dp ((packet, fks) # ms) s =
     and_then (listen_miss ch False dpname dp packet fks s) (\<lambda>_. feed ch dpname dp ms)"

lemma pipe_write_Ok: "pipeWrites u = [] \<Longrightarrow> pipe_write b (u, w) = (Ok (), (u\<lparr>piped := piped u @ b\<rparr>, w))"
  by (simp add: pipe_write_def Let_def)

lemma listen_miss_Ok:
  "pipeWrites u = [] \<Longrightarrow> listen_miss ch False dpname dp packet fks (u, w) =
     (Ok (), (u\<lparr>clock := (\<lambda>i. clock u (Suc i)), piped := piped u @ pcap_record (clock u 0) (nil_bytes packet)\<rparr>, w))"
  by (simp add: listen_miss_def time_Now_def writeTcpdumpPacket_def pipe_write_Ok pcap_record_def)

lemma feed_Ok:
  assumes "pipeWrites u = []" "list_all (\<lambda>(p, fks). length (nil_bytes p) < 2 ^ 32) ms"
  shows "\<exists>u' body. feed ch dpname dp ms (u, w) = (Ok (), (u', w)) \<and> piped u' = piped u @ body \<and>
    pcap_packets body = Some (map (\<lambda>(p, fks). nil_bytes p) ms)"
  using assms
proof (induction ms arbitrary: u)
  case Nil
  have "pcap_packets [] = Some []" by (simp add: pcap_packets.simps)
  then show ?case by simp
next
  case (Cons m ms)
  obtain p fks where m: "m = (p, fks)" by (rule prod.exhaust)
  let ?r = "pcap_record (clock u 0) (nil_bytes p)"
  let ?u = "u\<lparr>clock := (\<lambda>i. clock u (Suc i)), piped := piped u @ ?r\<rparr>"
  obtain u' body where "feed ch dpname dp ms (?u, w) = (Ok (), (u', w))" "piped u' = piped ?u @ body"
    "pcap_packets body = Some (map (\<lambda>(p, fks). nil_bytes p) ms)"
    using Cons.IH [of ?u] Cons.prems by auto
  then have "feed ch dpname dp (m # ms) (u, w) = (Ok (), (u', w))" "piped u' = piped u @ (?r @ body)"
    "pcap_packets (?r @ body) = Some (map (\<lambda>(p, fks). nil_bytes p) (m # ms))"
    using Cons.prems m by (simp_all add: listen_miss_Ok pcap_packets_record)
  then show ?case by blast
qed

text \<open>
  Property C31: the stream \<^verbatim>\<open>datapath listen\<close> sends to \<^verbatim>\<open>tcpdump\<close> is the capture of the missed packets: after
  the 24 bytes of the header, the records give back exactly the packets, in order, each with
  its full length, and the system is not touched.
\<close>

theorem capture_roundtrip:
  assumes "stdinPipes u = []" "starts u = []" "pipeWrites u = []" "piped u = []"
    and "list_all (\<lambda>(p, fks). length (nil_bytes p) < 2 ^ 32) ms"
  shows "\<exists>u'. and_then (openTcpdump (u, w)) (\<lambda>_. feed ch dpname dp ms) = (Ok (), (u', w)) \<and>
    take 4 (piped u') = enc_word 4 (0xa1b23c4d :: u32) \<and>
    pcap_packets (drop 24 (piped u')) = Some (map (\<lambda>(p, fks). nil_bytes p) ms)"
proof -
  let ?h = "pcapHeader_bytes \<lparr>magicNumber = 0xa1b23c4d, versionMajor = 2, versionMinor = 4, thisZone = 0, sigFigs = 0,
        snapLen = 65535, network = 1\<rparr>"
  let ?u = "u\<lparr>stdinPipes := [], starts := [], piped := ?h\<rparr>"
  have "openTcpdump (u, w) = (Ok (), (?u, w))" using assms(1-4) by (simp add: openTcpdump_def pipe_write_Ok)
  moreover obtain u' body where "feed ch dpname dp ms (?u, w) = (Ok (), (u', w))" "piped u' = ?h @ body"
    "pcap_packets body = Some (map (\<lambda>(p, fks). nil_bytes p) ms)"
    using feed_Ok [of ?u ms ch dpname dp w] assms(3,5) by auto
  moreover have "length ?h = 24" by (simp add: pcapHeader_bytes_def)
  moreover have "take 4 ?h = enc_word 4 (0xa1b23c4d :: u32)" by (simp add: pcapHeader_bytes_def)
  ultimately show ?thesis by auto
qed

theorem capture_roundtrip_witness:
  "\<exists>u'. and_then (openTcpdump (demo_out, idle_sys []))
      (\<lambda>_. feed demo_choices ''dp'' demo_datapath [(Some [1, 2, 3], Map.empty), (None, Map.empty)]) = (Ok (), (u', idle_sys [])) \<and>
    pcap_packets (drop 24 (piped u')) = Some [[1, 2, 3], []]"
  using capture_roundtrip [of demo_out "[(Some [1, 2, 3], Map.empty), (None, Map.empty)]" "idle_sys []" demo_choices "''dp''" demo_datapath]
  by (auto simp: demo_out_def)

section \<open>Finding a datapath\<close>

lemma lib_pair: "lib f (u, w) = (case f w of (r, w') \<Rightarrow> (r, (u, w')))"
  by (simp add: lib_def)

text \<open>
  An argument that is not the name of a datapath and is a decimal number below \<open>2 ^ 32\<close> is
  tried as an identifier, reduced to 32 bits; the name then is the one the kernel reports.  A
  name that is not a number is reported as not found.
\<close>

theorem datapath_by_number:
  assumes "LookupDatapath dpif name w = (Err e, w1)" "IsNoSuchDatapathError e"
  shows "(\<forall>n < 2 ^ 32. name = show_nat n \<longrightarrow> LookupDatapathByID dpif (of_nat n) w1 = (Ok dp, w2) \<longrightarrow>
      lookupDatapath dpif name (u, w) = (Ok (Some (Handle dp, Name dp)), (u, w2))) \<and>
    (ParseUint name 10 32 = None \<longrightarrow>
      lookupDatapath dpif name (u, w) = (Ok None, emit_err (cannot_find ''datapath'' name @ [newline]) (u, w1)))"
  using assms by (auto simp: lookupDatapath_def lib_pair attempt_def ParseUint_show_nat printErr_def)

theorem datapath_by_number_witness:
  "\<exists>w'. lookupDatapath demo_dpif ''nope''
       (demo_out, idle_sys [Datagram (nlmsg_bytes NLMSG_ERROR 0 42 7 (enc_word 4 (- 19 :: i32))) (NetlinkAddr 0)]) =
     (Ok None, emit_err (cannot_find ''datapath'' ''nope'' @ [newline]) (demo_out, w'))"
proof -
  let ?w = "idle_sys [Datagram (nlmsg_bytes NLMSG_ERROR 0 42 7 (enc_word 4 (- 19 :: i32))) (NetlinkAddr 0)]"
  have "answers (dpif_sock demo_dpif) ?w NLMSG_ERROR 0 (nextSeqNo ?w + 1) (enc_word 4 (- 19 :: i32) @ [])"
    unfolding answers_def by (intro exI [of _ "[]"] conjI exI) (simp, simp add: RECV_BUF_def)
  then obtain w' where "LookupDatapath demo_dpif ''nope'' ?w = (Err (NetlinkError ENODEV), w')"
    using ovs_call_error [OF put_string.attr_emitter_axioms, of ?w "- 19" demo_dpif 0 "[]" DATAPATH OVS_DP_CMD_GET
        OVS_DATAPATH_VERSION 0 OVS_DP_ATTR_NAME "''nope''"]
    by (simp add: LookupDatapath_def netlink_error_ENODEV del: ovs_consts)
  moreover have "ParseUint ''nope'' 10 32 = None" by code_simp
  ultimately show ?thesis
    using datapath_by_number [of demo_dpif "''nope''" ?w "NetlinkError ENODEV" w'] by (auto simp: IsNoSuchDatapathError_def)
qed

section \<open>Ports of tunnel vports\<close>

text \<open>
  A port above 65535 is refused before the interface is opened; any other port is the
  port of the vport, without truncation.
\<close>

theorem udp_port_checked:
  assumes "plain_arg dpname" "plain_arg name" "n < 2 ^ 64"
  shows "addUdpVport ch [dpname, name, option_arg ''port'' (show_nat n)] defaultPort mk (u, w) =
      (if n > 65535 then (Ok (Returned False), emit_err [Text ''port number too large'', newline] (u, w))
       else addVport ch dpname (mk name (of_nat n)) (u, w)) \<and>
    (n \<le> 65535 \<longrightarrow> unat (of_nat n :: u16) = n)"
proof -
  have "set_flags [(''port'', show_nat n)] [''port'' \<mapsto> FUint defaultPort] = Some [''port'' \<mapsto> FUint n]"
    using assms(3) by (simp add: flag_name_def ParseUint_show_nat)
  then have "Flags_Parse [''port'' \<mapsto> FUint defaultPort] [dpname, name, option_arg ''port'' (show_nat n)] 2 2 =
      Inr ([dpname, name], [''port'' \<mapsto> FUint n])"
    using findFirstOpt_plain [of "[dpname, name]" "[(''port'', show_nat n)]"]
      FlagSet_Parse_options [of "[(''port'', show_nat n)]" "[''port'' \<mapsto> FUint defaultPort]" "[''port'' \<mapsto> FUint n]" "[]"] assms(1,2)
    by (simp add: Flags_Parse_def)
  then show ?thesis
    by (simp add: addUdpVport_def parsing_def returned_def printErr_def Let_def unsigned_of_nat take_bit_nat_eq_self_iff)
qed

theorem udp_port_checked_witness:
  "addVxlanVport demo_choices [''dp'', ''vx'', ''--port=70000''] (demo_out, idle_sys []) =
     (Ok (Returned False), (demo_out\<lparr>stderr := [Text ''port number too large'', newline]\<rparr>, idle_sys []))"
proof -
  have "option_arg ''port'' (show_nat 70000) = ''--port=70000''"
    by (simp add: option_arg_def show_nat.simps digit_def) code_simp
  then show ?thesis
    using udp_port_checked [of "''dp''" "''vx''" 70000 demo_choices 4789 NewVxlanVportSpec demo_out "idle_sys []"]
    by (simp add: addVxlanVport_def plain_arg_def emit_err_def demo_out_def)
qed

section \<open>Lost errors\<close>

text \<open>
  \<^verbatim>\<open>odp datapath list\<close> succeeds and prints nothing when the datapaths cannot be enumerated:
  the error of \<^verbatim>\<open>EnumerateDatapaths\<close> is never looked at.
\<close>

theorem list_datapaths_ignores_error:
  assumes "EnumerateDatapaths dpif w = (Err e, w')"
  shows "show_datapaths ch dpif (u, w) = (Ok True, (u, w'))"
  using assms by (simp add: show_datapaths_def lib_pair attempt_def emit_def List.map_filter_def)

lemma ovs_dump_send_fails:
  assumes "answer (sends w) = Err e"
  shows "\<exists>w'. ovs_dump dpif family cmd version ifindex h res w = (Err e, w')"
proof (rule build_msg_spec [OF skip_gen_emits, of dpif family DumpFlags cmd version ifindex w])
  fix m
  let ?w = "w\<lparr>heaps := (\<lambda>i. heaps w (Suc i))\<rparr>"
  assume "build_msg dpif family DumpFlags cmd version ifindex skip_gen w = (Ok m, ?w)" "builder_ok m"
    "mbytes m = draft_bytes (fam_id (families dpif ! family)) DumpFlags (ovs_body cmd version ifindex [])"
  then show ?thesis using send_spec [of m _ _ _ "dpif_sock dpif" ?w] assms by (simp add: ovs_dump_def RequestMulti_def)
qed

theorem list_datapaths_ignores_error_witness:
  "\<exists>w'. EnumerateDatapaths demo_dpif ((idle_sys [])\<lparr>sends := [Some 105]\<rparr>) = (Err (Errno 105), w') \<and>
     show_datapaths demo_choices demo_dpif (demo_out, (idle_sys [])\<lparr>sends := [Some 105]\<rparr>) = (Ok True, (demo_out, w'))"
proof -
  obtain w' where "EnumerateDatapaths demo_dpif ((idle_sys [])\<lparr>sends := [Some 105]\<rparr>) = (Err (Errno 105), w')"
    using ovs_dump_send_fails [of "(idle_sys [])\<lparr>sends := [Some 105]\<rparr>" "Errno 105"]
    unfolding EnumerateDatapaths_def by fastforce
  then show ?thesis using list_datapaths_ignores_error by blast
qed

lemma print_vports_nil:
  assumes "v \<in> set vs" "vp_Spec v = None"
  shows "fst (print_vports dpname vs s) = Crash NilDereference"
  using assms(1)
proof (induction vs arbitrary: s)
  case (Cons x vs)
  then show ?case using assms(2) by (cases "vp_Spec x"; cases s) (auto simp: printVport_def emit_def)
qed simp

text \<open>
  Property C40: listing the vports of a datapath panics when the kernel reports a VXLAN or Geneve vport
  without a port.  Whatever other vports the dump reports, \<^verbatim>\<open>EnumerateVports\<close> succeeds and returns that vport with
  a nil specification, and printing it dereferences the specification.
\<close>

theorem list_vports_panics:
  fixes dp w
  defines "s \<equiv> dpif_sock (dp_dpif dp)" and "q \<equiv> nextSeqNo w + 1"
  assumes "answer (sends w) = Ok ()" "dump_of (vp_listed dp) q (PortId s w) ds"
    "inbox_of s w = map (\<lambda>d. Datagram (dgram q (PortId s w) d) (NetlinkAddr 0)) ds @ as"
    "\<forall>d \<in> set ds. length d \<le> fuel w" "length ds \<le> fuel w"
    "m \<in> set (dump_items ds)" "portless_msg (dp_dpif dp) m c (dp_ifindex dp) vid"
    "c = OVS_VPORT_CMD_GET \<or> c = OVS_VPORT_CMD_NEW"
  shows "\<exists>vports w'. EnumerateVports dp w = (Ok vports, w') \<and> \<lparr>vp_ID = vid, vp_Spec = None\<rparr> \<in> set vports \<and>
    fst (printVports dpname dp (u, w)) = Crash NilDereference"
proof -
  obtain w' where w': "EnumerateVports dp w = (Ok (fold (vp_entry dp) (dump_items ds) []), w')"
    unfolding EnumerateVports_def
    by (rule ovs_dump_result [OF vport_dump.dump_handler_axioms assms(3-7) [unfolded s_def q_def]])
  have "vp_says dp m vid None" unfolding vp_says_def using assms(9,10) by auto
  then have nil: "\<lparr>vp_ID = vid, vp_Spec = None\<rparr> \<in> set (fold (vp_entry dp) (dump_items ds) [])"
    by (rule vp_entries_member [OF assms(8)])
  obtain s' where "print_vports dpname (fold (vp_entry dp) (dump_items ds) []) (u, w') = (Crash NilDereference, s')"
    using print_vports_nil [OF nil, of dpname "(u, w')"] by (cases "print_vports dpname (fold (vp_entry dp) (dump_items ds) []) (u, w')") simp
  then have "fst (printVports dpname dp (u, w)) = Crash NilDereference"
    using w' by (simp add: printVports_def or_print_def lib_pair attempt_def)
  with w' nil show ?thesis by blast
qed

theorem list_vports_panics_witness:
  "fst (printVports ''dp'' demo_datapath (demo_out, demo_vport_dump_sys)) = Crash NilDereference"
proof -
  have "demo_portless_msg \<in> set (dump_items demo_vport_dump)" using demo_vport_dump_ok(2) by simp
  moreover obtain c where "c = OVS_VPORT_CMD_GET \<or> c = OVS_VPORT_CMD_NEW"
    "portless_msg (dp_dpif demo_datapath) demo_portless_msg c (dp_ifindex demo_datapath) 4"
    using demo_portless_says unfolding vp_says_def by auto
  ultimately show ?thesis
    using list_vports_panics [of demo_vport_dump_sys demo_datapath demo_vport_dump "[]" demo_portless_msg c 4 "''dp''" demo_out]
      demo_vport_dump_ok(1)
    by (simp add: demo_vport_dump_sys_def demo_datapath_def del: ovs_consts) (auto simp: demo_vport_dump_def)
qed

end
