(* ===== verification/Listen_Shutdown.thy ===== *)
theory Listen_Shutdown
  imports Tool_Behaviour
begin

text \<open>
  How the listening commands of the tool end.  Their consumers close the channel \<^verbatim>\<open>done\<close>, for which
  the command waits, when they are told that they are stopped; \<open>doneCloses\<close> counts the calls of
  \<^verbatim>\<open>close\<close>.  Go panics at the second one.
\<close>

section \<open>Consumers that count their end\<close>

text \<open>
  A goroutine runs \<^verbatim>\<open>consume\<close> with a handler and an error method.  Messages and their errors leave
  the count alone, and the call with \<^verbatim>\<open>stopped\<close> adds one to it.
\<close>

locale closing_consumer =
  fixes handler :: "'s handler" and on_error :: "error \<Rightarrow> bool \<Rightarrow> 's \<Rightarrow> 's" and count :: "'s \<Rightarrow> nat"
  assumes handler_keeps: "count (fst (snd (handler msg st))) = count (fst st)"
    and error_keeps: "count (on_error e False s) = count s"
    and error_closes: "count (on_error e True s) = Suc (count s)"
begin

lemma consumer_keeps: "count (fst (snd (consume_consumer on_error handler msg st))) = count (fst st)"
proof -
  have "count (fst (snd (and_then (checkHeader msg, st) (\<lambda>_ st. handler msg st)))) = count (fst st)"
    by (cases "checkHeader msg") (simp_all add: handler_keeps)
  then show ?thesis
    by (auto simp: consume_consumer_def error_keeps split: prod.splits res.splits)
qed

lemma receive_keeps: "count (fst (snd (Receive s (consume_consumer on_error handler) st))) = count (fst st)"
  unfolding Receive_def
  by (rule receive_loop_inv [where Q = "\<lambda>st'. count (fst st') = count (fst st)"]) (simp_all add: consumer_keeps)

lemma loop_closes:
  "consume_loop n s on_error handler st = (Ok (), st') \<Longrightarrow> count (fst st') = Suc (count (fst st))"
proof (induction n arbitrary: st)
  case (Suc n)
  obtain r u w where r: "Receive s (consume_consumer on_error handler) st = (r, (u, w))" by (metis prod.exhaust)
  with receive_keeps [of s st] have "count u = count (fst st)" by simp
  with Suc r show ?case by (cases r) (auto simp: error_closes)
qed simp

lemma consume_closes:
  "consume s on_error handler st = (Ok (), st') \<Longrightarrow> count (fst st') = Suc (count (fst st))"
  unfolding consume_def by (rule loop_closes)

end

section \<open>The consumers of the tool\<close>

lemma emits_doneCloses: "doneCloses (fst (emits ss s)) = doneCloses (fst s)" "doneCloses (fst (emit cs s)) = doneCloses (fst s)"
  by (cases s; simp add: emits_def emit_def)+

lemma lib_fst: "fst (snd (lib f s)) = fst s"
  by (cases s) (simp add: lib_def split: prod.split)

lemma pipe_write_doneCloses: "doneCloses (fst (snd (pipe_write b s))) = doneCloses (fst s)"
  by (cases s) (simp add: pipe_write_def Let_def)

lemma and_then_doneCloses:
  assumes "doneCloses (fst (snd r)) = n" "\<And>x s. doneCloses (fst s) = n \<Longrightarrow> doneCloses (fst (snd (f x s))) = n"
  shows "doneCloses (fst (snd (and_then r f))) = n"
  by (rule and_then_inv [where Q = "\<lambda>s. doneCloses (fst s) = n"]) (use assms in auto)

lemma print_key_doneCloses: "doneCloses (fst (snd (print_key fk dp s))) = doneCloses (fst s)"
  by (cases fk) (auto intro!: and_then_doneCloses simp: emits_doneCloses lib_fst)

lemma print_keys_doneCloses: "doneCloses (fst (snd (print_keys fks dp s))) = doneCloses (fst s)"
  by (induction fks arbitrary: s) (auto intro!: and_then_doneCloses simp: print_key_doneCloses)

lemma listen_miss_doneCloses: "doneCloses (fst (snd (listen_miss ch k dpname dp p fks s))) = doneCloses (fst s)"
  unfolding listen_miss_def
proof (rule and_then_doneCloses)
  show "doneCloses (fst (snd (if k then and_then (printFlowKeys ch fks dp (emits [''['' @ dpname] s))
      (\<lambda>_ s. (Ok (), emit [Text '']'', newline] s)) else (Ok (), s)))) = doneCloses (fst s)"
    by (auto intro!: and_then_doneCloses simp: printFlowKeys_def print_keys_doneCloses emits_doneCloses)
qed (auto intro!: and_then_doneCloses simp: writeTcpdumpPacket_def pipe_write_doneCloses time_Now_def split: prod.splits)

lemma report_vport_doneCloses: "doneCloses (fst (snd (report_vport dpif pfx dpid v s))) = doneCloses (fst s)"
  unfolding report_vport_def
  by (rule and_then_doneCloses) (auto simp: lib_fst printVport_def emits_doneCloses split: option.splits)

lemma consumer_Error_doneCloses:
  "doneCloses (consumer_Error e stopped u) = (if stopped then Suc (doneCloses u) else doneCloses u)"
  by (simp add: consumer_Error_def Let_def)

lemma event_handler_inv:
  assumes "\<And>d v. Q (snd (VportCreated c d v st))" "\<And>d v. Q (snd (VportDeleted c d v st))" "Q st"
  shows "Q (snd (vport_event_handler dpif c i msg st))"
proof (cases "checkNlMsgHeaders dpif msg VPORT (- 1)")
  case (Ok x)
  obtain g o' m where x: "x = (g, o', m)" by (metis prod.exhaust)
  show ?thesis
    unfolding vport_event_handler_def Ok x using assms by (cases "parseVport m") (simp_all add: Let_def split: prod.split)
qed (use assms in \<open>simp_all add: vport_event_handler_def\<close>)

definition listener :: "choices \<Rightarrow> bool \<Rightarrow> string \<Rightarrow> DatapathHandle \<Rightarrow> out MissConsumer" where
  "listener ch k dpname dp = \<lparr>Miss = listen_miss ch k dpname dp, miss_Error = consumer_Error\<rparr>"

interpretation misses: closing_consumer "miss_handler rng mdp (listener ch k dpname dp)" consumer_Error doneCloses
  for rng mdp ch k dpname dp
proof
  fix msg and st :: st
  show "doneCloses (fst (snd (miss_handler rng mdp (listener ch k dpname dp) msg st))) = doneCloses (fst st)"
    unfolding miss_handler_def Let_def
    by (intro and_then_doneCloses; clarsimp)
      (auto intro!: and_then_doneCloses simp: listener_def listen_miss_doneCloses)
qed (simp_all add: consumer_Error_doneCloses)

interpretation session_vports: closing_consumer "vport_event_handler dpif (mv_consumer consumer_Error) i"
  "vport_Error (mv_consumer consumer_Error)" "\<lambda>(c, u). doneCloses u" for dpif i
proof
  fix msg and st :: "(missVportConsumer \<times> out) \<times> sys"
  obtain c u w where st: "st = ((c, u), w)" by (metis prod.exhaust)
  show "(\<lambda>(c, u). doneCloses u) (fst (snd (vport_event_handler dpif (mv_consumer consumer_Error) i msg st))) =
      (\<lambda>(c, u). doneCloses u) (fst st)"
    unfolding st by (rule event_handler_inv) (simp_all add: mv_consumer_def split: prod.split)
qed (auto simp: mv_consumer_def consumer_Error_doneCloses)

interpretation tool_vports: closing_consumer "vport_event_handler d (vportEventsConsumer dpif) i"
  "vport_Error (vportEventsConsumer dpif)" doneCloses for d dpif i
proof
  fix msg and st :: st
  show "doneCloses (fst (snd (vport_event_handler d (vportEventsConsumer dpif) i msg st))) = doneCloses (fst st)"
    by (rule event_handler_inv) (simp_all add: vportEventsConsumer_def report_vport_doneCloses)
qed (simp_all add: vportEventsConsumer_def consumer_Error_doneCloses)

section \<open>Properties\<close>

lemma Close_fd: "sock_fd (sockets (snd (Close s w)) s) < 0"
  by (simp add: Close_def sys_close_def log_def Let_def split: prod.split)

lemma Close_keeps_negative: "sock_fd (sockets w t) < 0 \<Longrightarrow> sock_fd (sockets (snd (Close s w)) t) < 0"
  by (cases "s = t") (simp_all add: Close_def sys_close_def log_def Let_def split: prod.split)

lemma Close_inbox: "inbox (snd (Close s w)) = inbox w \<and> fuel (snd (Close s w)) = fuel w"
  by (simp add: Close_def sys_close_def log_def Let_def split: prod.split)

lemma consume_receive_error:
  assumes "inbox_of s w = RecvErr e # as" "0 < fuel w"
  shows "\<exists>w'. consume s on_error h (u, w) = (Ok (), (on_error (Errno e) True u, w')) \<and>
    inbox w' = (inbox w)(sock_fd (sockets w s) := as) \<and> fuel w' = fuel w"
  using assms by (cases "fuel w") (auto simp: consume_def Receive_def recv_def inbox_of_def log_def Let_def)

lemma consumeMisses_ends:
  assumes "consumeMisses rng (listener ch k dpname dp) ms (u, w) = (Ok (), (u1, w1))"
  shows "doneCloses u1 = Suc (doneCloses u) \<and> sock_fd (sockets w1 (dpif_sock (ms_cancel ms))) < 0"
proof -
  let ?s = "dpif_sock (dp_dpif (ms_miss ms))" and ?h = "miss_handler rng (ms_miss ms) (listener ch k dpname dp)"
  obtain r v w' where r: "consume ?s consumer_Error ?h (u, w) = (r, (v, w'))" by (metis prod.exhaust)
  with assms have "r = Ok ()" "u1 = v" "w1 = close_dp (mv_dp (ms_consumer ms)) (snd (Cancel (ms_cancel ms) w'))"
    by (cases r; simp add: consumeMisses_def listener_def)+
  with r misses.consume_closes [of ?s _ "ms_miss ms" ch k dpname dp "(u, w)"] show ?thesis
    by (auto simp: close_dp_def Cancel_def Dpif_Close_def Close_fd intro: Close_keeps_negative)
qed

text \<open>
  The goroutines of a listening command close \<^verbatim>\<open>done\<close> once each.  For \<^verbatim>\<open>odp vport listen\<close>, which
  has one, this is once in all.  A session of \<^verbatim>\<open>odp datapath listen\<close> has two that share the consumer: when
  the one for misses ends, it has closed \<^verbatim>\<open>done\<close> and the socket of the other, whose next receive on
  the descriptor -1 fails with \<^verbatim>\<open>EBADF\<close>, so that \<^verbatim>\<open>done\<close> is closed a second time, which panics in Go
  unless the process has exited before.
\<close>

theorem listening_ends_close_done:
  assumes "\<forall>fd < 0. \<exists>as. inbox w1 fd = RecvErr 9 # as" "0 < fuel w1"
  shows "(consumeVportEvents d (vportEventsConsumer dpif) i (u, w) = (Ok (), (u', w')) \<longrightarrow>
      doneCloses u' = doneCloses u + 1) \<and>
    (consumeMisses rng \<lparr>Miss = listen_miss ch k dpname dp, miss_Error = consumer_Error\<rparr> ms (u, w) = (Ok (), (u1, w1)) \<longrightarrow>
      doneCloses u1 = doneCloses u + 1 \<and>
      (\<exists>u2 w2. consumeVportEvents (ms_cancel ms) (mv_consumer consumer_Error) i ((c, u1), w1) = (Ok (), ((c, u2), w2)) \<and>
        doneCloses u2 = doneCloses u + 2))"
proof (intro conjI impI)
  assume "consumeVportEvents d (vportEventsConsumer dpif) i (u, w) = (Ok (), (u', w'))"
  then show "doneCloses u' = doneCloses u + 1"
    using tool_vports.consume_closes [of _ dpif d i "(u, w)"] by (auto simp: consumeVportEvents_def)
next
  assume "consumeMisses rng \<lparr>Miss = listen_miss ch k dpname dp, miss_Error = consumer_Error\<rparr> ms (u, w) = (Ok (), (u1, w1))"
  from consumeMisses_ends [OF this [folded listener_def]]
  have ends: "doneCloses u1 = Suc (doneCloses u)" "sock_fd (sockets w1 (dpif_sock (ms_cancel ms))) < 0" by auto
  show "doneCloses u1 = doneCloses u + 1" using ends(1) by simp
  obtain as where "inbox_of (dpif_sock (ms_cancel ms)) w1 = RecvErr 9 # as"
    using assms(1) ends(2) by (auto simp: inbox_of_def)
  from consume_receive_error [OF this assms(2), of "vport_Error (mv_consumer consumer_Error)" _ "(c, u1)"]
  obtain w2 where "consumeVportEvents (ms_cancel ms) (mv_consumer consumer_Error) i ((c, u1), w1) =
      (Ok (), (vport_Error (mv_consumer consumer_Error) (Errno 9) True (c, u1), w2))"
    by (auto simp: consumeVportEvents_def)
  then show "\<exists>u2 w2. consumeVportEvents (ms_cancel ms) (mv_consumer consumer_Error) i ((c, u1), w1) = (Ok (), ((c, u2), w2)) \<and>
      doneCloses u2 = doneCloses u + 2"
    using ends(1) by (simp add: mv_consumer_def consumer_Error_doneCloses)
qed

text \<open>The miss socket fails at once, and so does the vport socket once it is closed.\<close>

definition demo_session :: miss_session where
  "demo_session = \<lparr>ms_miss = demo_datapath,
     ms_consumer = \<lparr>mv_dp = demo_datapath, upcallPortId = 7, vportsDone = {}\<rparr>, ms_cancel = demo_dpif\<lparr>dpif_sock := 1\<rparr>\<rparr>"

theorem listening_ends_close_done_witness:
  "\<exists>u1 w1 u2 w2. consumeMisses ascending \<lparr>Miss = listen_miss demo_choices False ''dp'' demo_datapath, miss_Error = consumer_Error\<rparr>
       demo_session (demo_out, idle_sys [RecvErr 9, RecvErr 9]) = (Ok (), (u1, w1)) \<and>
     consumeVportEvents (ms_cancel demo_session) (mv_consumer consumer_Error) 6 ((ms_consumer demo_session, u1), w1) =
       (Ok (), ((ms_consumer demo_session, u2), w2)) \<and> doneCloses u2 = 2"
proof -
  let ?m = "\<lparr>Miss = listen_miss demo_choices False ''dp'' demo_datapath, miss_Error = consumer_Error\<rparr>"
  let ?h = "miss_handler ascending demo_datapath ?m" and ?w = "idle_sys [RecvErr 9, RecvErr 9]"
  obtain w' where w': "consume 0 consumer_Error ?h (demo_out, ?w) = (Ok (), (consumer_Error (Errno 9) True demo_out, w'))"
    "inbox w' = (inbox ?w)(sock_fd (sockets ?w 0) := [RecvErr 9])" "fuel w' = fuel ?w"
    using consume_receive_error [of 0 ?w 9 "[RecvErr 9]" consumer_Error ?h demo_out] by auto
  then obtain u1 w1 where m: "consumeMisses ascending ?m demo_session (demo_out, ?w) = (Ok (), (u1, w1))"
    "\<forall>fd < 0. \<exists>as. inbox w1 fd = RecvErr 9 # as" "0 < fuel w1"
    by (simp add: consumeMisses_def demo_session_def demo_datapath_def demo_dpif_def close_dp_def Cancel_def Dpif_Close_def
        Close_inbox) (simp add: idle_sys_def)
  have "doneCloses demo_out = 0" by (simp add: demo_out_def)
  then obtain u2 w2 where "consumeVportEvents (ms_cancel demo_session) (mv_consumer consumer_Error) 6 ((ms_consumer demo_session, u1), w1) =
      (Ok (), ((ms_consumer demo_session, u2), w2))" "doneCloses u2 = 2"
    using listening_ends_close_done [OF m(2,3), THEN conjunct2, THEN mp, OF m(1), THEN conjunct2]
    by (metis add_0)
  with m(1) show ?thesis by blast
qed


end
