(* ===== verification/Listen_Sessions.thy ===== *)
theory Listen_Sessions
  imports Listen_Shutdown
begin

text \<open>
  A session of \<^verbatim>\<open>odp datapath listen\<close> as a concurrent system: the command, which waits for the channel
  \<^verbatim>\<open>done\<close>, the goroutine of \<^verbatim>\<open>consumeMisses\<close>, that of \<^verbatim>\<open>consumeVportEvents\<close>, and the kernel, which
  delivers datagrams at any time.  A goroutine takes one datagram per step; the output and the system
  are shared.
\<close>

section \<open>Steps of a goroutine\<close>

text \<open>The body of the loop of \<^verbatim>\<open>Receive\<close>: one datagram with all its messages.\<close>

definition one_datagram :: "nat \<Rightarrow> nat \<Rightarrow> 's consumer \<Rightarrow> 's \<times> sys \<Rightarrow> (bool, 's \<times> sys) outcome" where
  "one_datagram s k c st =
     and_then (case recv s 0 (snd st) of (r, w) \<Rightarrow> (r, (fst st, w))) (\<lambda>resp st.
     and_then (nextNlMsg resp, st) (\<lambda>(next, resp) st.
       case next of
         None \<Rightarrow> (Err ResponseMissing, st)
       | Some msg \<Rightarrow> msgs_loop k c resp msg st))"

lemma and_then_assoc: "and_then (and_then r f) g = and_then r (\<lambda>x s. and_then (f x s) g)"
  by (cases r; cases "fst r") simp_all

lemma receive_loop_datagram:
  "receive_loop s k (Suc n) c st =
     and_then (one_datagram s k c st) (\<lambda>fin st. if fin then (Ok (), st) else receive_loop s k n c st)"
  by (simp add: one_datagram_def and_then_assoc case_prod_unfold) (intro arg_cong [where f = "and_then _"] ext, simp split: option.split)


section \<open>The session\<close>

text \<open>
  \<open>ClosedTwice\<close> is the panic of the second \<^verbatim>\<open>close\<close>; \<open>Crashed\<close> any other panic of a goroutine.  Both end
  the process, and so does the return of the command.
\<close>

datatype listen_status = Waits | Returns | ClosedTwice | Crashed

record listening =
  l_out :: out
  l_sys :: sys
  l_done :: missVportConsumer
  l_misses :: bool
  l_vports :: bool
  l_status :: listen_status

text \<open>What a session is made with: the orders, the option, the datapath and what \<^verbatim>\<open>ConsumeMisses\<close> returned.\<close>

record listen_args =
  a_choices :: choices
  a_keys :: bool
  a_name :: string
  a_dp :: DatapathHandle
  a_session :: miss_session

definition miss_step :: "listen_args \<Rightarrow> st \<Rightarrow> (bool, st) outcome" where
  "miss_step a st =
     one_datagram (dpif_sock (dp_dpif (ms_miss (a_session a)))) (fuel (snd st))
       (consume_consumer consumer_Error (miss_handler (ch_attrs (a_choices a)) (ms_miss (a_session a))
          (listener (a_choices a) (a_keys a) (a_name a) (a_dp a)))) st"

definition vport_step :: "listen_args \<Rightarrow> (missVportConsumer \<times> out) \<times> sys \<Rightarrow> (bool, (missVportConsumer \<times> out) \<times> sys) outcome" where
  "vport_step a st =
     one_datagram (dpif_sock (ms_cancel (a_session a))) (fuel (snd st))
       (consume_consumer (vport_Error (mv_consumer consumer_Error))
          (vport_event_handler (ms_cancel (a_session a)) (mv_consumer consumer_Error) (dp_ifindex (a_dp a)))) st"

text \<open>The end of a goroutine: \<^verbatim>\<open>Error\<close> with \<^verbatim>\<open>stopped\<close>, which closes \<^verbatim>\<open>done\<close>.\<close>

definition stopped :: "error \<Rightarrow> out \<Rightarrow> listening \<Rightarrow> listening" where
  "stopped e u l = l\<lparr>l_out := consumer_Error e True u, l_status := (if doneCloses u = 0 then l_status l else ClosedTwice)\<rparr>"

inductive listen_step :: "listen_args \<Rightarrow> listening \<Rightarrow> listening \<Rightarrow> bool" for a where
  miss_datagram: "listen_step a l (l\<lparr>l_out := u, l_sys := w\<rparr>)"
    if "l_status l = Waits" "l_misses l" "miss_step a (l_out l, l_sys l) = (Ok fin, (u, w))"
| miss_stops: "listen_step a l ((stopped e u l)\<lparr>l_misses := False,
      l_sys := close_dp (mv_dp (ms_consumer (a_session a))) (snd (Cancel (ms_cancel (a_session a)) w))\<rparr>)"
    if "l_status l = Waits" "l_misses l" "miss_step a (l_out l, l_sys l) = (Err e, (u, w))"
| miss_crashes: "listen_step a l (l\<lparr>l_out := u, l_sys := w, l_status := Crashed\<rparr>)"
    if "l_status l = Waits" "l_misses l" "miss_step a (l_out l, l_sys l) = (Crash c, (u, w))"
| vport_datagram: "listen_step a l (l\<lparr>l_out := u, l_done := d, l_sys := w\<rparr>)"
    if "l_status l = Waits" "l_vports l" "vport_step a ((l_done l, l_out l), l_sys l) = (Ok fin, ((d, u), w))"
| vport_stops: "listen_step a l ((stopped e u l)\<lparr>l_vports := False, l_done := d, l_sys := w\<rparr>)"
    if "l_status l = Waits" "l_vports l" "vport_step a ((l_done l, l_out l), l_sys l) = (Err e, ((d, u), w))"
| vport_crashes: "listen_step a l (l\<lparr>l_out := u, l_done := d, l_sys := w, l_status := Crashed\<rparr>)"
    if "l_status l = Waits" "l_vports l" "vport_step a ((l_done l, l_out l), l_sys l) = (Crash c, ((d, u), w))"
| command_returns: "listen_step a l (l\<lparr>l_status := Returns\<rparr>)"
    if "l_status l = Waits" "0 < doneCloses (l_out l)"
| kernel_delivers: "listen_step a l (l\<lparr>l_sys := (l_sys l)\<lparr>inbox := (inbox (l_sys l))(fd := inbox (l_sys l) fd @ ds)\<rparr>\<rparr>)"

inductive_cases listen_stepE: "listen_step a l l'"

definition listening_start :: "listening \<Rightarrow> bool" where
  "listening_start l \<longleftrightarrow> l_status l = Waits \<and> l_misses l \<and> l_vports l \<and> doneCloses (l_out l) = 0"

definition listening_ok :: "listening \<Rightarrow> bool" where
  "listening_ok l \<longleftrightarrow>
     doneCloses (l_out l) = (if l_misses l then 0 else 1) + (if l_vports l then 0 else 1) \<and>
     (l_status l = ClosedTwice \<longleftrightarrow> \<not> l_misses l \<and> \<not> l_vports l) \<and>
     (l_status l = Returns \<longrightarrow> \<not> (l_misses l \<and> l_vports l))"

lemma one_datagram_inv:
  assumes "\<And>msg st. Q st \<Longrightarrow> Q (snd (c msg st))" "\<And>u w. Q (u, w) \<Longrightarrow> Q (u, snd (recv s 0 w))" "Q st"
  shows "Q (snd (one_datagram s k c st))"
  unfolding one_datagram_def
proof (rule and_then_inv)
  show "Q (snd (case recv s 0 (snd st) of (r, w) \<Rightarrow> (r, (fst st, w))))"
    using assms(2) [of "fst st" "snd st"] assms(3) by (cases "recv s 0 (snd st)") simp
  fix resp st' assume "Q st'"
  then show "Q (snd (and_then (nextNlMsg resp, st') (\<lambda>(next, resp) st.
      case next of None \<Rightarrow> (Err ResponseMissing, st) | Some msg \<Rightarrow> msgs_loop k c resp msg st)))"
    using msgs_loop_inv [of Q c, OF assms(1)] by (cases "nextNlMsg resp") (simp_all split: option.split prod.split)
qed

lemma miss_step_keeps: "doneCloses (fst (snd (miss_step a st))) = doneCloses (fst st)"
  unfolding miss_step_def
  by (rule one_datagram_inv [where Q = "\<lambda>st'. doneCloses (fst st') = doneCloses (fst st)"])
    (simp_all add: misses.consumer_keeps)

lemma vport_step_keeps: "doneCloses (snd (fst (snd (vport_step a st)))) = doneCloses (snd (fst st))"
  unfolding vport_step_def
  by (rule one_datagram_inv [where Q = "\<lambda>st'. doneCloses (snd (fst st')) = doneCloses (snd (fst st))"])
    (use session_vports.consumer_keeps in \<open>simp_all add: case_prod_unfold\<close>)

lemma listen_step_ok:
  assumes "listen_step a l l'" "listening_ok l"
  shows "listening_ok l'"
  using assms
proof (cases rule: listen_step.cases)
  case (miss_datagram u w fin)
  with assms(2) miss_step_keeps [of a "(l_out l, l_sys l)"] show ?thesis by (simp add: listening_ok_def)
next
  case (miss_stops e u w)
  with assms(2) miss_step_keeps [of a "(l_out l, l_sys l)"] show ?thesis
    by (auto simp: listening_ok_def stopped_def consumer_Error_doneCloses)
next
  case (miss_crashes u w c)
  with assms(2) miss_step_keeps [of a "(l_out l, l_sys l)"] show ?thesis by (simp add: listening_ok_def)
next
  case (vport_datagram fin d u w)
  with assms(2) vport_step_keeps [of a "((l_done l, l_out l), l_sys l)"] show ?thesis by (simp add: listening_ok_def)
next
  case (vport_stops e d u w)
  with assms(2) vport_step_keeps [of a "((l_done l, l_out l), l_sys l)"] show ?thesis
    by (auto simp: listening_ok_def stopped_def consumer_Error_doneCloses)
next
  case (vport_crashes u d w c)
  with assms(2) vport_step_keeps [of a "((l_done l, l_out l), l_sys l)"] show ?thesis by (simp add: listening_ok_def)
qed (use assms(2) in \<open>auto simp: listening_ok_def\<close>)

lemma listen_steps_ok:
  assumes "(listen_step a)\<^sup>*\<^sup>* l l'" "listening_ok l"
  shows "listening_ok l'"
  using assms by (induction rule: rtranclp_induct) (auto intro: listen_step_ok)

section \<open>Properties\<close>

text \<open>
  Property C13: under every interleaving of the command, the two goroutines and the kernel, \<^verbatim>\<open>done\<close> is closed
  once for each goroutine that has stopped.  The command returns only after one has, and can do so
  as soon as one has.  When both stop before the command returns, the second one panics, and this is the
  only way to the panic.
\<close>

theorem listening_interleavings:
  assumes "listening_start l" "(listen_step a)\<^sup>*\<^sup>* l l'"
  shows "doneCloses (l_out l') = (if l_misses l' then 0 else 1) + (if l_vports l' then 0 else 1) \<and>
    (l_status l' = ClosedTwice \<longleftrightarrow> \<not> l_misses l' \<and> \<not> l_vports l') \<and>
    (l_status l' = Returns \<longrightarrow> \<not> (l_misses l' \<and> l_vports l')) \<and>
    (l_status l' = Waits \<longrightarrow> (\<exists>l''. listen_step a l' l'' \<and> l_status l'' = Returns) = (\<not> (l_misses l' \<and> l_vports l')))"
proof -
  have ok: "listening_ok l'"
    using listen_steps_ok [OF assms(2)] assms(1) by (auto simp: listening_start_def listening_ok_def)
  moreover have "(\<exists>l''. listen_step a l' l'' \<and> l_status l'' = Returns) = (\<not> (l_misses l' \<and> l_vports l'))" if "l_status l' = Waits"
  proof
    assume "\<exists>l''. listen_step a l' l'' \<and> l_status l'' = Returns"
    then obtain l'' where "listen_step a l' l''" "l_status l'' = Returns" by blast
    then show "\<not> (l_misses l' \<and> l_vports l')"
      using that ok by (auto elim!: listen_stepE simp: stopped_def listening_ok_def split: if_splits)
  next
    assume "\<not> (l_misses l' \<and> l_vports l')"
    then have "0 < doneCloses (l_out l')" using ok by (auto simp: listening_ok_def)
    from command_returns [OF that this] show "\<exists>l''. listen_step a l' l'' \<and> l_status l'' = Returns" by force
  qed
  ultimately show ?thesis by (simp add: listening_ok_def)
qed

text \<open>Both goroutines stop: the miss socket fails, and the vport socket, closed in turn, fails too.\<close>

definition demo_args :: listen_args where
  "demo_args = \<lparr>a_choices = demo_choices, a_keys = False, a_name = ''dp'', a_dp = demo_datapath, a_session = demo_session\<rparr>"

definition demo_start :: listening where
  "demo_start = \<lparr>l_out = demo_out, l_sys = idle_sys [RecvErr 9, RecvErr 9], l_done = ms_consumer demo_session,
     l_misses = True, l_vports = True, l_status = Waits\<rparr>"

lemma one_datagram_error:
  assumes "inbox_of s w = RecvErr e # as"
  shows "\<exists>w'. one_datagram s k c (u, w) = (Err (Errno e), (u, w')) \<and> inbox w' = (inbox w)(sock_fd (sockets w s) := as)"
  using assms by (auto simp: one_datagram_def recv_def inbox_of_def log_def Let_def)

lemma step_errors:
  "inbox_of (dpif_sock (dp_dpif (ms_miss (a_session a)))) w = RecvErr e # as \<Longrightarrow>
    \<exists>w'. miss_step a (u, w) = (Err (Errno e), (u, w')) \<and>
      inbox w' = (inbox w)(sock_fd (sockets w (dpif_sock (dp_dpif (ms_miss (a_session a))))) := as)"
  "inbox_of (dpif_sock (ms_cancel (a_session a))) w = RecvErr e # as \<Longrightarrow>
    \<exists>w'. vport_step a (v, w) = (Err (Errno e), (v, w')) \<and>
      inbox w' = (inbox w)(sock_fd (sockets w (dpif_sock (ms_cancel (a_session a)))) := as)"
  unfolding miss_step_def vport_step_def by (rule one_datagram_error, assumption)+

theorem listening_interleavings_witness:
  "\<exists>l'. (listen_step demo_args)\<^sup>*\<^sup>* demo_start l' \<and> l_status l' = ClosedTwice \<and> doneCloses (l_out l') = 2"
proof -
  let ?ms = "demo_session" and ?w = "idle_sys [RecvErr 9, RecvErr 9]"
  obtain w where w: "miss_step demo_args (l_out demo_start, l_sys demo_start) = (Err (Errno 9), (demo_out, w))"
    "inbox w = (inbox ?w)(3 := [RecvErr 9])"
    using step_errors(1) [of demo_args ?w 9 "[RecvErr 9]" demo_out] by (auto simp: demo_start_def) (auto simp: idle_sys_def)
  define w1 where "w1 = close_dp (mv_dp (ms_consumer ?ms)) (snd (Cancel (ms_cancel ?ms) w))"
  define l1 where "l1 = (stopped (Errno 9) demo_out demo_start)\<lparr>l_misses := False, l_sys := w1\<rparr>"
  have s1: "listen_step demo_args demo_start l1"
    unfolding l1_def w1_def using miss_stops [of demo_start demo_args "Errno 9" demo_out w] w(1)
    by (simp add: demo_start_def demo_args_def)
  have "sock_fd (sockets w1 (dpif_sock (ms_cancel ?ms))) < 0" "inbox w1 = inbox w"
    by (auto simp: w1_def close_dp_def Cancel_def Dpif_Close_def Close_fd Close_inbox intro: Close_keeps_negative)
  then have "inbox_of (dpif_sock (ms_cancel ?ms)) w1 = RecvErr 9 # [RecvErr 9]"
    using w(2) by (auto simp: inbox_of_def idle_sys_def)
  then obtain w2 where v: "vport_step demo_args ((l_done l1, l_out l1), l_sys l1) = (Err (Errno 9), ((l_done l1, l_out l1), w2))"
    using step_errors(2) [of demo_args w1 9 "[RecvErr 9]" "(l_done l1, l_out l1)"] by (auto simp: demo_args_def l1_def)
  have l1: "l_status l1 = Waits" "l_vports l1" "\<not> l_misses l1"
    by (simp_all add: l1_def stopped_def demo_start_def demo_out_def)
  define l2 where "l2 = (stopped (Errno 9) (l_out l1) l1)\<lparr>l_vports := False, l_done := l_done l1, l_sys := w2\<rparr>"
  have s2: "listen_step demo_args l1 l2" unfolding l2_def using vport_stops [OF l1(1,2) v] .
  have steps: "(listen_step demo_args)\<^sup>*\<^sup>* demo_start l2" using s1 s2 by simp
  have "\<not> l_misses l2" "\<not> l_vports l2" using l1(3) by (simp_all add: l2_def stopped_def)
  moreover have "listening_start demo_start" by (simp add: listening_start_def demo_start_def demo_out_def)
  ultimately show ?thesis using listening_interleavings [OF _ steps] steps by auto
qed


end
