(* ===== verification/Kernel_Sessions.thy ===== *)
theory Kernel_Sessions
  imports Vport Flow_Ops
begin

text \<open>
  Sequences of requests against a kernel that keeps a table.  The kernel is described by the
  answer that a request gets in a given table, with the table afterwards, and by the datagrams
  that carry an answer.  A service is a family of operations of the library that send the request
  and return the answer; it then implements the table along every sequence of operations.
\<close>

section \<open>Sessions\<close>

text \<open>
  \<open>kernel_session spec replies pid q tbl ops ds answers tbl'\<close>: to requests for \<open>ops\<close> with sequence
  numbers from \<open>q\<close>, the kernel with table \<open>tbl\<close> sends the datagrams \<open>ds\<close> to the socket \<open>pid\<close>.
\<close>

inductive kernel_session ::
    "('op \<Rightarrow> 't \<Rightarrow> 'a \<times> 't) \<Rightarrow> (u32 \<Rightarrow> u32 \<Rightarrow> 'a \<Rightarrow> recv_answer list \<Rightarrow> bool) \<Rightarrow> u32 \<Rightarrow>
     u32 \<Rightarrow> 't \<Rightarrow> 'op list \<Rightarrow> recv_answer list \<Rightarrow> 'a list \<Rightarrow> 't \<Rightarrow> bool"
  for spec replies pid where
  session_nil: "kernel_session spec replies pid q tbl [] [] [] tbl"
| session_cons: "kernel_session spec replies pid q tbl (op # ops) (ds @ ds') (a # as) tbl''"
    if "spec op tbl = (a, tbl')" "replies q pid a ds" "kernel_session spec replies pid (q + 1) tbl' ops ds' as tbl''"

inductive_simps session_nil_iff: "kernel_session spec replies pid q tbl [] ds as tbl'"
inductive_cases session_consE: "kernel_session spec replies pid q tbl (op # ops) ds as tbl'"

fun run_ops :: "('op \<Rightarrow> sys \<Rightarrow> ('r, sys) outcome) \<Rightarrow> 'op list \<Rightarrow> sys \<Rightarrow> 'r res list \<times> sys" where
  "run_ops f [] w = ([], w)"
| "run_ops f (op # ops) w =
     (case f op w of (r, w1) \<Rightarrow> case run_ops f ops w1 of (rs, w2) \<Rightarrow> (r # rs, w2))"

definition is_send :: "syscall \<Rightarrow> bool" where
  "is_send c = (case c of SysSendto _ _ \<Rightarrow> True | _ \<Rightarrow> False)"

definition sent :: "sys \<Rightarrow> syscall list" where
  "sent w = filter is_send (trace w)"

text \<open>
  A request went out and all of its answer was received: the next datagram is the first one of the
  next answer.
\<close>

definition served :: "nat \<Rightarrow> bytes \<Rightarrow> recv_answer list \<Rightarrow> sys \<Rightarrow> sys \<Rightarrow> bool" where
  "served s req rest w w' \<longleftrightarrow> inbox_of s w' = rest \<and> nextSeqNo w' = nextSeqNo w + 1 \<and> sockets w' = sockets w \<and>
     sends w' = tl (sends w) \<and> fuel w' = fuel w \<and> sent w' = sent w @ [SysSendto (sock_fd (sockets w s)) req]"

text \<open>The messages of the requests for \<open>ops\<close>, with sequence numbers from \<open>q\<close>.\<close>

fun requests :: "(u32 \<Rightarrow> 'op \<Rightarrow> bytes) \<Rightarrow> u32 \<Rightarrow> 'op list \<Rightarrow> bytes list" where
  "requests req q [] = []"
| "requests req q (op # ops) = req q op # requests req (q + 1) ops"

locale kernel_service =
  fixes s :: nat and run :: "'op \<Rightarrow> sys \<Rightarrow> ('r, sys) outcome" and req :: "u32 \<Rightarrow> 'op \<Rightarrow> bytes"
    and spec :: "'op \<Rightarrow> 't \<Rightarrow> 'a \<times> 't" and replies :: "u32 \<Rightarrow> u32 \<Rightarrow> 'a \<Rightarrow> recv_answer list \<Rightarrow> bool"
    and legal :: "'op \<Rightarrow> bool" and inv :: "'t \<Rightarrow> bool" and agrees :: "'a \<Rightarrow> 'r res \<Rightarrow> bool"
  assumes inv_kept: "inv tbl \<Longrightarrow> legal op \<Longrightarrow> inv (snd (spec op tbl))"
    and answered: "inv tbl \<Longrightarrow> legal op \<Longrightarrow> replies (nextSeqNo w + 1) (PortId s w) (fst (spec op tbl)) ds \<Longrightarrow>
      inbox_of s w = ds @ rest \<Longrightarrow> sends w = [] \<Longrightarrow> RECV_BUF \<le> fuel w \<Longrightarrow> length ds \<le> fuel w \<Longrightarrow>
      \<exists>r w'. run op w = (r, w') \<and> agrees (fst (spec op tbl)) r \<and> served s (req (nextSeqNo w + 1) op) rest w w'"
begin

lemma session_refines:
  assumes "kernel_session spec replies (PortId s w) (nextSeqNo w + 1) tbl ops ds as tbl'"
    and "inv tbl" "list_all legal ops" "inbox_of s w = ds @ rest" "sends w = []" "RECV_BUF \<le> fuel w" "length ds \<le> fuel w"
  shows "\<exists>rs w'. run_ops run ops w = (rs, w') \<and> list_all2 agrees as rs \<and> inbox_of s w' = rest \<and>
    sent w' = sent w @ map (SysSendto (sock_fd (sockets w s))) (requests req (nextSeqNo w + 1) ops) \<and> inv tbl'"
  using assms
proof (induction ops arbitrary: w tbl ds as)
  case Nil
  then show ?case by (simp add: session_nil_iff)
next
  case (Cons op ops)
  from Cons.prems(1) obtain a tbl1 d ds' as' where ds: "spec op tbl = (a, tbl1)" "replies (nextSeqNo w + 1) (PortId s w) a d"
    "kernel_session spec replies (PortId s w) (nextSeqNo w + 1 + 1) tbl1 ops ds' as' tbl'" "ds = d @ ds'" "as = a # as'"
    by (auto elim!: session_consE)
  with Cons.prems obtain r w1 where r: "run op w = (r, w1)" "agrees a r" "served s (req (nextSeqNo w + 1) op) (ds' @ rest) w w1"
    using answered [of tbl op w d "ds' @ rest"] by auto
  then have w1: "PortId s w1 = PortId s w" "nextSeqNo w1 = nextSeqNo w + 1" "sockets w1 = sockets w" "sends w1 = []"
    "fuel w1 = fuel w" "inbox_of s w1 = ds' @ rest"
    "sent w1 = sent w @ [SysSendto (sock_fd (sockets w s)) (req (nextSeqNo w + 1) op)]"
    using Cons.prems(5) by (simp_all add: served_def PortId_def)
  have "inv tbl1" using inv_kept [of tbl op] Cons.prems(2,3) ds(1) by simp
  then obtain rs w' where "run_ops run ops w1 = (rs, w')" "list_all2 agrees as' rs" "inbox_of s w' = rest" "inv tbl'"
    "sent w' = sent w1 @ map (SysSendto (sock_fd (sockets w1 s))) (requests req (nextSeqNo w1 + 1) ops)"
    using Cons.IH [of w1 tbl1 ds' as'] Cons.prems(3,6,7) ds(3,4) w1 by auto
  with r(1,2) w1 ds(5) show ?case by (auto simp: add.assoc)
qed

end

section \<open>Exchanges\<close>

lemma sent_exchanged:
  "sent (exchanged s t body w) = sent w @ [SysSendto (sock_fd (sockets w s)) (nlmsg_bytes t RequestFlags (nextSeqNo w + 1) 0 body)]"
  by (simp add: sent_def exchanged_def recvd_state_def sent_state_def log_def is_send_def Let_def)

lemma served_exchanged:
  assumes "inbox_of s w = d # rest"
  shows "served s (nlmsg_bytes t RequestFlags (nextSeqNo w + 1) 0 body) rest w (exchanged s t body w)"
  using assms sent_exchanged [of s t body w]
  by (simp add: served_def exchanged_def)

lemma recvd_states:
  "sockets ((recvd_state s ^^ n) w) = sockets w" "fuel ((recvd_state s ^^ n) w) = fuel w"
  "nextSeqNo ((recvd_state s ^^ n) w) = nextSeqNo w" "sends ((recvd_state s ^^ n) w) = sends w"
  "inbox_of s ((recvd_state s ^^ n) w) = drop n (inbox_of s w)" "sent ((recvd_state s ^^ n) w) = sent w"
proof (induction n)
  case (Suc n)
  case 6 show ?case using Suc(6) by (simp add: sent_def recvd_state_def log_def is_send_def Let_def)
qed (simp_all add: drop_Suc drop_tl)

lemma served_dump:
  assumes "inbox_of s w = map f ds @ rest"
  shows "served s (nlmsg_bytes t DumpFlags (nextSeqNo w + 1) 0 body) rest w
    ((recvd_state s ^^ length ds) (sent_state s t DumpFlags body (w\<lparr>heaps := h\<rparr>)))"
  using assms by (simp add: served_def recvd_states) (simp add: sent_state_def sent_def log_def is_send_def inbox_of_def)

text \<open>The datagram of an answer in one message, and of an error.\<close>

definition one_reply :: "u32 \<Rightarrow> u32 \<Rightarrow> wmsg \<Rightarrow> recv_answer list \<Rightarrow> bool" where
  "one_reply q pid m ds \<longleftrightarrow> fst m \<noteq> NLMSG_ERROR \<and>
     (\<exists>post. ds = [Datagram (wire q pid m @ post) (NetlinkAddr 0)] \<and> length (wire q pid m @ post) \<le> RECV_BUF)"

definition error_reply :: "u32 \<Rightarrow> u32 \<Rightarrow> i32 \<Rightarrow> recv_answer list \<Rightarrow> bool" where
  "error_reply q pid e ds \<longleftrightarrow> e \<noteq> 0 \<and>
     (\<exists>fl more post. ds = [Datagram (nlmsg_bytes NLMSG_ERROR fl q pid (enc_word 4 e @ more) @ post) (NetlinkAddr 0)] \<and>
        20 + length more + length post \<le> RECV_BUF)"

definition dump_reply :: "u32 \<Rightarrow> u32 \<Rightarrow> (wmsg \<Rightarrow> 'x \<Rightarrow> bool) \<Rightarrow> 'x list \<Rightarrow> recv_answer list \<Rightarrow> bool" where
  "dump_reply q pid reports xs ds \<longleftrightarrow>
     (\<exists>dss. ds = map (\<lambda>d. Datagram (dgram q pid d) (NetlinkAddr 0)) dss \<and>
        dump_of (\<lambda>m. fst m \<noteq> NLMSG_ERROR \<and> fst m \<noteq> NLMSG_DONE \<and> (\<exists>x \<in> set xs. reports m x)) q pid dss \<and>
        list_all2 reports (dump_items dss) xs)"

lemma one_reply_answers:
  assumes "one_reply (nextSeqNo w + 1) (PortId s w) m ds" "inbox_of s w = ds @ rest"
  shows "answers s w (fst m) (fst (snd m)) (nextSeqNo w + 1) (snd (snd m)) \<and> fst m \<noteq> NLMSG_ERROR \<and> length ds = 1"
  using assms by (auto simp: one_reply_def answers_def wire_msg)

lemma error_reply_answers:
  assumes "error_reply (nextSeqNo w + 1) (PortId s w) e ds" "inbox_of s w = ds @ rest"
  obtains fl more where "answers s w NLMSG_ERROR fl (nextSeqNo w + 1) (enc_word 4 e @ more)" "e \<noteq> 0" "length ds = 1"
proof -
  obtain fl more post where d: "e \<noteq> 0" "20 + length more + length post \<le> RECV_BUF"
    "ds = [Datagram (nlmsg_bytes NLMSG_ERROR fl (nextSeqNo w + 1) (PortId s w) (enc_word 4 e @ more) @ post) (NetlinkAddr 0)]"
    using assms(1) by (auto simp: error_reply_def)
  then have "answers s w NLMSG_ERROR fl (nextSeqNo w + 1) (enc_word 4 e @ more)"
    using assms(2) unfolding answers_def by (intro exI [of _ post] exI [of _ rest]) simp
  with d that show thesis by simp
qed

lemma messages_of_dgram: "length d \<le> length (dgram q pid d)"
proof (induction d)
  case (Cons m d)
  have "0 < length (pad4 (wire q pid m))" by (simp add: wire_msg align4)
  then show ?case using Cons unfolding dgram_Cons length_append list.size by linarith
qed simp

lemma dump_messages_bounded:
  assumes "dump_of good q pid dss" "RECV_BUF \<le> n"
  shows "\<forall>d \<in> set dss. length d \<le> n"
  using assms messages_of_dgram by (fastforce simp: dump_of_def intro: order_trans)

lemma one_reply_served:
  assumes "one_reply (nextSeqNo w + 1) (PortId s w) m ds" "inbox_of s w = ds @ rest"
  shows "served s (nlmsg_bytes t RequestFlags (nextSeqNo w + 1) 0 body) rest w (exchanged s t body w)"
  using served_exchanged assms one_reply_answers [OF assms] by (auto simp: length_Suc_conv)

lemma call_acked:
  assumes "attr_emitter gen ts" "one_reply (nextSeqNo w + 1) (PortId (dpif_sock dpif) w) m ds"
    "inbox_of (dpif_sock dpif) w = ds @ rest" "sends w = []" "0 < fuel w"
  shows "\<exists>w'. and_then (ovs_call dpif family cmd version i gen w) (\<lambda>_ w. (Ok (), w)) = (Ok (), w') \<and>
    served (dpif_sock dpif) (nlmsg_bytes (fam_id (families dpif ! family)) RequestFlags (nextSeqNo w + 1) 0
      (ovs_body cmd version i ts)) rest w w'"
  using ovs_call_ack [OF assms(1) _ assms(5), of dpif "fst m" "fst (snd m)" "snd (snd m)" family cmd version i]
    one_reply_answers [OF assms(2,3)] one_reply_served [OF assms(2,3)] assms(4) by auto

lemma call_refused:
  assumes "attr_emitter gen ts" "error_reply (nextSeqNo w + 1) (PortId (dpif_sock dpif) w) e ds"
    "inbox_of (dpif_sock dpif) w = ds @ rest" "sends w = []" "0 < fuel w"
  shows "\<exists>w'. ovs_call dpif family cmd version i gen w = (Err (netlink_error e), w') \<and>
    served (dpif_sock dpif) (nlmsg_bytes (fam_id (families dpif ! family)) RequestFlags (nextSeqNo w + 1) 0
      (ovs_body cmd version i ts)) rest w w'"
proof (rule error_reply_answers [OF assms(2,3)])
  fix fl more
  assume a: "answers (dpif_sock dpif) w NLMSG_ERROR fl (nextSeqNo w + 1) (enc_word 4 e @ more)" "e \<noteq> 0" "length ds = 1"
  then obtain d where "ds = [d]" by (auto simp: length_Suc_conv)
  then have "inbox_of (dpif_sock dpif) w = d # rest" using assms(3) by simp
  from served_exchanged [OF this] show ?thesis
    using ovs_call_error [OF assms(1) _ assms(5) a(2,1), of family cmd version i] assms(4) by auto
qed

lemma dump_of_mono:
  assumes "dump_of good q pid dss" "\<And>m. good m \<Longrightarrow> good' m"
  shows "dump_of good' q pid dss"
  using assms unfolding dump_of_def by blast

lemma dump_answered:
  assumes "dump_handler h f good (nextSeqNo w + 1) (PortId (dpif_sock dpif) w)"
    and good: "\<And>m x. x \<in> set xs \<Longrightarrow> reports m x \<Longrightarrow> fst m \<noteq> NLMSG_ERROR \<Longrightarrow> fst m \<noteq> NLMSG_DONE \<Longrightarrow> good m"
    and "dump_reply (nextSeqNo w + 1) (PortId (dpif_sock dpif) w) reports xs ds"
    "inbox_of (dpif_sock dpif) w = ds @ rest" "sends w = []" "RECV_BUF \<le> fuel w" "length ds \<le> fuel w"
  obtains ms w' where "ovs_dump dpif family cmd version i h st w = (Ok (fold f ms st), w')" "list_all2 reports ms xs"
    "served (dpif_sock dpif) (nlmsg_bytes (fam_id (families dpif ! family)) DumpFlags (nextSeqNo w + 1) 0
       (ovs_body cmd version i [])) rest w w'"
proof -
  let ?s = "dpif_sock dpif" and ?q = "nextSeqNo w + 1"
  obtain dss where d: "ds = map (\<lambda>d. Datagram (dgram ?q (PortId ?s w) d) (NetlinkAddr 0)) dss"
    "dump_of (\<lambda>m. fst m \<noteq> NLMSG_ERROR \<and> fst m \<noteq> NLMSG_DONE \<and> (\<exists>x \<in> set xs. reports m x)) ?q (PortId ?s w) dss"
    "list_all2 reports (dump_items dss) xs"
    using assms(3) by (auto simp: dump_reply_def)
  have "dump_of good ?q (PortId ?s w) dss" by (rule dump_of_mono [OF d(2)]) (use good in blast)
  then obtain w' where "ovs_dump dpif family cmd version i h st w = (Ok (fold f (dump_items dss) st), w')"
    "w' = (recvd_state ?s ^^ length dss) (sent_state ?s (fam_id (families dpif ! family)) DumpFlags
       (ovs_body cmd version i []) (w\<lparr>heaps := (\<lambda>i. heaps w (Suc i))\<rparr>))"
    using ovs_dump_result [OF assms(1), of dss rest family cmd version i st] dump_messages_bounded [OF d(2) assms(6)]
      assms(4,5,7) d(1) by auto
  with that [OF _ d(3)] served_dump [OF assms(4) [unfolded d(1)]] show thesis by simp
qed

end
