(* ===== verification/Flow_Table.thy ===== *)
theory Flow_Table
  imports Kernel_Sessions
begin

text \<open>
  The flow requests of \<^verbatim>\<open>odp/flow.go\<close> implement a table of flows.  The table is that of the kernel
  module: at most one flow for the packets of a key set, an update of the actions when such a flow
  is created again, and \<^verbatim>\<open>ENOENT\<close> for a flow that is not there.
\<close>

section \<open>The table\<close>

datatype flow_op = PutFlow FlowSpec | RemoveFlow FlowKeys | ResetFlow FlowSpec | ShowFlows

datatype flow_answer = Acked | Refused i32 | Flows "FlowSpec list"

definition has_flow :: "FlowKeys \<Rightarrow> FlowSpec list \<Rightarrow> bool" where
  "has_flow ks tbl \<longleftrightarrow> list_ex (\<lambda>g. keys_eq (flow_keys g) ks) tbl"

definition put_flow :: "FlowSpec \<Rightarrow> FlowSpec list \<Rightarrow> FlowSpec list" where
  "put_flow f tbl =
     (if has_flow (flow_keys f) tbl
      then map (\<lambda>g. if keys_eq (flow_keys g) (flow_keys f) then g\<lparr>flow_actions := flow_actions f\<rparr> else g) tbl
      else tbl @ [f])"

fun flow_table :: "flow_op \<Rightarrow> FlowSpec list \<Rightarrow> flow_answer \<times> FlowSpec list" where
  "flow_table (PutFlow f) tbl = (Acked, put_flow f tbl)"
| "flow_table (RemoveFlow ks) tbl =
     (if has_flow ks tbl then (Acked, filter (\<lambda>g. \<not> keys_eq (flow_keys g) ks) tbl) else (Refused (- 2), tbl))"
| "flow_table (ResetFlow f) tbl =
     (if has_flow (flow_keys f) tbl then (Acked, put_flow f tbl) else (Refused (- 2), tbl))"
| "flow_table ShowFlows tbl = (Flows tbl, tbl)"

text \<open>The flows of the table are as the library can read them, and their keys are distinct.\<close>

definition table_ok :: "FlowSpec list \<Rightarrow> bool" where
  "table_ok tbl \<longleftrightarrow> list_all faithful_flow tbl \<and>
     sorted_wrt (\<lambda>g h. \<not> keys_eq (flow_keys g) (flow_keys h)) tbl"

text \<open>
  What an operation may be given: flows and keys that can be read back, and orders \<open>oM\<close> and \<open>rng\<close> in
  which Go may range over their maps.
\<close>

fun legal_flow_op :: "(FlowKeys \<Rightarrow> u16 list) \<Rightarrow> rangers \<Rightarrow> flow_op \<Rightarrow> bool" where
  "legal_flow_op oM rng (PutFlow f) = (faithful_flow f \<and> range_order (oM (flow_keys f)) (flow_keys f))"
| "legal_flow_op oM rng (RemoveFlow ks) =
     (faithful_flow \<lparr>flow_keys = ks, flow_actions = []\<rparr> \<and> range_order (oM ks) ks)"
| "legal_flow_op oM rng (ResetFlow f) = (faithful_flow f \<and> range_order (oM (flow_keys f)) (flow_keys f))"
| "legal_flow_op oM rng ShowFlows = rangers_ok rng"

lemma faithful_actions:
  "faithful_flow g \<Longrightarrow> faithful_flow f \<Longrightarrow> faithful_flow (g\<lparr>flow_actions := flow_actions f\<rparr>)"
  by (simp add: faithful_flow_def flow_wf_def)

lemma flow_keys_if: "flow_keys (if c then g\<lparr>flow_actions := as\<rparr> else g) = flow_keys g"
  by simp

lemma put_flow_ok: "table_ok tbl \<Longrightarrow> faithful_flow f \<Longrightarrow> table_ok (put_flow f tbl)"
  by (auto simp: table_ok_def put_flow_def has_flow_def list_all_iff list_ex_iff sorted_wrt_append
      faithful_actions sorted_wrt_map flow_keys_if)

lemma flow_table_ok: "table_ok tbl \<Longrightarrow> legal_flow_op oM rng op \<Longrightarrow> table_ok (snd (flow_table op tbl))"
  by (cases op) (auto simp: put_flow_ok, auto simp: table_ok_def list_all_iff sorted_wrt_filter)

section \<open>The requests\<close>

datatype flow_result = Done | Infos "FlowInfo list"

text \<open>The operations of the library; \<open>oK\<close> and \<open>oM\<close> are the orders of the loops over a key set.\<close>

definition done_result :: "(unit, sys) outcome \<Rightarrow> (flow_result, sys) outcome" where
  "done_result r = and_then r (\<lambda>_ w. (Ok Done, w))"

fun run_flow_op ::
    "(FlowKeys \<Rightarrow> u16 list) \<Rightarrow> (FlowKeys \<Rightarrow> u16 list) \<Rightarrow> rangers \<Rightarrow> DatapathHandle \<Rightarrow> flow_op \<Rightarrow>
     sys \<Rightarrow> (flow_result, sys) outcome" where
  "run_flow_op oK oM rng dp (PutFlow f) w = done_result (CreateFlow (oK (flow_keys f)) (oM (flow_keys f)) dp f w)"
| "run_flow_op oK oM rng dp (RemoveFlow ks) w = done_result (DeleteFlow (oK ks) (oM ks) dp ks w)"
| "run_flow_op oK oM rng dp (ResetFlow f) w = done_result (ClearFlow (oK (flow_keys f)) (oM (flow_keys f)) dp f w)"
| "run_flow_op oK oM rng dp ShowFlows w = and_then (EnumerateFlows rng dp w) (\<lambda>fis w. (Ok (Infos fis), w))"

text \<open>The messages of the interface of the kernel module.\<close>

fun flow_body :: "(FlowKeys \<Rightarrow> u16 list) \<Rightarrow> (FlowKeys \<Rightarrow> u16 list) \<Rightarrow> i32 \<Rightarrow> flow_op \<Rightarrow> bytes" where
  "flow_body oK oM i (PutFlow f) =
     ovs_body OVS_FLOW_CMD_NEW OVS_FLOW_VERSION i (flow_trees (oK (flow_keys f)) (oM (flow_keys f)) f)"
| "flow_body oK oM i (RemoveFlow ks) = ovs_body OVS_FLOW_CMD_DEL OVS_FLOW_VERSION i (key_set_trees (oK ks) (oM ks) ks)"
| "flow_body oK oM i (ResetFlow f) =
     ovs_body OVS_FLOW_CMD_SET OVS_FLOW_VERSION i
       (flow_trees (oK (flow_keys f)) (oM (flow_keys f)) f @ [Raw OVS_FLOW_ATTR_CLEAR []])"
| "flow_body oK oM i ShowFlows = ovs_body OVS_FLOW_CMD_GET OVS_FLOW_VERSION i []"

definition flow_request ::
    "(FlowKeys \<Rightarrow> u16 list) \<Rightarrow> (FlowKeys \<Rightarrow> u16 list) \<Rightarrow> DatapathHandle \<Rightarrow> u32 \<Rightarrow> flow_op \<Rightarrow> bytes" where
  "flow_request oK oM dp q op =
     nlmsg_bytes (fam_id (families (dp_dpif dp) ! FLOW)) (if op = ShowFlows then DumpFlags else RequestFlags) q 0
       (flow_body oK oM (dp_ifindex dp) op)"

fun flow_replies :: "DatapathHandle \<Rightarrow> u32 \<Rightarrow> u32 \<Rightarrow> flow_answer \<Rightarrow> recv_answer list \<Rightarrow> bool" where
  "flow_replies dp q pid Acked ds = (\<exists>m. one_reply q pid m ds)"
| "flow_replies dp q pid (Refused e) ds = error_reply q pid e ds"
| "flow_replies dp q pid (Flows fs) ds = dump_reply q pid (reports_flow dp) fs ds"

fun flow_agrees :: "flow_answer \<Rightarrow> flow_result res \<Rightarrow> bool" where
  "flow_agrees Acked r = (r = Ok Done)"
| "flow_agrees (Refused e) r = (r = Err (netlink_error e))"
| "flow_agrees (Flows fs) r = (\<exists>fis. r = Ok (Infos fis) \<and> list_all2 reads_as fs fis)"

section \<open>Refinement\<close>

lemma answered_call:
  assumes "attr_emitter gen ts" "flow_replies dp (nextSeqNo w + 1) (PortId (dpif_sock dpif) w) a ds"
    "inbox_of (dpif_sock dpif) w = ds @ rest" "sends w = []" "0 < fuel w" "a = Acked \<or> (\<exists>e. a = Refused e)"
  shows "\<exists>r w'. done_result (and_then (ovs_call dpif family cmd version i gen w) (\<lambda>_ w. (Ok (), w))) = (r, w') \<and>
    flow_agrees a r \<and> served (dpif_sock dpif) (nlmsg_bytes (fam_id (families dpif ! family)) RequestFlags (nextSeqNo w + 1) 0
      (ovs_body cmd version i ts)) rest w w'"
  using assms(6)
proof (elim disjE exE)
  assume "a = Acked"
  then obtain m where "one_reply (nextSeqNo w + 1) (PortId (dpif_sock dpif) w) m ds" using assms(2) by auto
  from call_acked [OF assms(1) this assms(3-5), of family cmd version i] \<open>a = Acked\<close>
  show ?thesis by (auto simp: done_result_def)
next
  fix e assume "a = Refused e"
  then show ?thesis
    using call_refused [OF assms(1) _ assms(3-5), of e family cmd version i] assms(2) by (auto simp: done_result_def)
qed

lemma listed_flows:
  assumes "dump_reply (nextSeqNo w + 1) (PortId (dpif_sock (dp_dpif dp)) w) (reports_flow dp) fs ds"
    "inbox_of (dpif_sock (dp_dpif dp)) w = ds @ rest" "sends w = []" "RECV_BUF \<le> fuel w" "length ds \<le> fuel w"
    "list_all faithful_flow fs" "rangers_ok rng"
  shows "\<exists>fis w'. EnumerateFlows rng dp w = (Ok fis, w') \<and> list_all2 reads_as fs fis \<and>
    served (dpif_sock (dp_dpif dp)) (flow_request oK oM dp (nextSeqNo w + 1) ShowFlows) rest w w'"
proof -
  have good: "flow_listed rng dp m"
    if "f \<in> set fs" "reports_flow dp m f" "fst m \<noteq> NLMSG_ERROR" "fst m \<noteq> NLMSG_DONE" for m f
    using that assms(6,7) reported_flow_equal [of dp m f rng] unfolding flow_listed_def list_all_iff by metis
  obtain ms w' where w': "EnumerateFlows rng dp w = (Ok (fold (flow_entry rng dp) ms []), w')" "list_all2 (reports_flow dp) ms fs"
    "served (dpif_sock (dp_dpif dp)) (flow_request oK oM dp (nextSeqNo w + 1) ShowFlows) rest w w'"
    unfolding EnumerateFlows_def flow_request_def flow_body.simps
    by (rule dump_answered [OF flow_dump.dump_handler_axioms good assms(1-5)]) simp_all
  then obtain fis where "fold (flow_entry rng dp) ms [] = fis" "list_all2 (\<lambda>f fi. flow_eq f (FlowSpec.truncate fi)) fs fis"
    using flow_entries_equal [OF w'(2) assms(6,7), of "[]"] by auto
  then have "list_all2 reads_as fs fis" using flow_eq_reads by (blast intro: list_all2_mono)
  with w' \<open>fold (flow_entry rng dp) ms [] = fis\<close> show ?thesis by blast
qed

interpretation flow_service: kernel_service "dpif_sock (dp_dpif dp)" "run_flow_op oK oM rng dp" "flow_request oK oM dp"
  flow_table "flow_replies dp" "legal_flow_op oM rng" table_ok flow_agrees for dp oK oM rng
proof
  show "table_ok (snd (flow_table op tbl))" if "table_ok tbl" "legal_flow_op oM rng op" for op tbl
    using flow_table_ok that .
next
  fix tbl op w ds rest
  let ?s = "dpif_sock (dp_dpif dp)"
  assume a: "table_ok tbl" "legal_flow_op oM rng op" "flow_replies dp (nextSeqNo w + 1) (PortId ?s w) (fst (flow_table op tbl)) ds"
    "inbox_of ?s w = ds @ rest" "sends w = []" "RECV_BUF \<le> fuel w" "length ds \<le> fuel w"
  have fuel: "0 < fuel w" using a(6) by (simp add: RECV_BUF_def)
  note call = answered_call [OF _ a(3-5) fuel, where family = FLOW and i = "dp_ifindex dp"]
  show "\<exists>r w'. run_flow_op oK oM rng dp op w = (r, w') \<and> flow_agrees (fst (flow_table op tbl)) r \<and>
      served ?s (flow_request oK oM dp (nextSeqNo w + 1) op) rest w w'"
  proof (cases op)
    case (PutFlow f)
    then have "attr_emitter (FlowSpec_toNlAttrs (oK (flow_keys f)) (oM (flow_keys f)) f) (flow_trees (oK (flow_keys f)) (oM (flow_keys f)) f)"
      using a(2) by (intro FlowSpec_toNlAttrs_emits) (simp_all add: faithful_flow_def flow_wf_def)
    from call [OF this, of OVS_FLOW_CMD_NEW OVS_FLOW_VERSION] PutFlow show ?thesis
      by (simp add: CreateFlow_def flow_request_def del: ovs_consts)
  next
    case (RemoveFlow ks)
    then have "attr_emitter (FlowKeys_toNlAttrs (oK ks) (oM ks) ks) (key_set_trees (oK ks) (oM ks) ks)"
      using a(2) by (intro FlowKeys_toNlAttrs_emits) (simp_all add: faithful_flow_def flow_wf_def)
    from call [OF this, of OVS_FLOW_CMD_DEL OVS_FLOW_VERSION] RemoveFlow show ?thesis
      by (simp add: DeleteFlow_def flow_request_def del: ovs_consts split: if_splits)
  next
    case (ResetFlow f)
    then have "attr_emitter (seq_gen (FlowSpec_toNlAttrs (oK (flow_keys f)) (oM (flow_keys f)) f) (PutEmptyAttr OVS_FLOW_ATTR_CLEAR))
        (flow_trees (oK (flow_keys f)) (oM (flow_keys f)) f @ [Raw OVS_FLOW_ATTR_CLEAR []])"
      using a(2) by (intro seq_gen_emits FlowSpec_toNlAttrs_emits put_empty.attr_emitter_axioms)
        (simp_all add: faithful_flow_def flow_wf_def)
    from call [OF this, of OVS_FLOW_CMD_SET OVS_FLOW_VERSION] ResetFlow show ?thesis
      by (simp add: ClearFlow_def flow_request_def del: ovs_consts split: if_splits)
  next
    case ShowFlows
    then show ?thesis
      using listed_flows [of w dp tbl ds rest rng oK oM] a by (auto simp: table_ok_def)
  qed
qed

section \<open>Properties\<close>


definition demo_order :: "FlowKeys \<Rightarrow> u16 list" where
  "demo_order ks = [OVS_KEY_ATTR_ETHERNET]"

definition demo_ops :: "flow_op list" where
  "demo_ops = [PutFlow demo_flow, ShowFlows, RemoveFlow (flow_keys demo_flow), RemoveFlow (flow_keys demo_flow), ShowFlows]"

definition demo_replies :: "recv_answer list" where
  "demo_replies =
     [Datagram (wire 42 7 demo_flow_msg) (NetlinkAddr 0)] @
     ([Datagram (dgram 43 7 [demo_report_msg, done_msg]) (NetlinkAddr 0)] @
     ([Datagram (wire 44 7 demo_flow_msg) (NetlinkAddr 0)] @
     ([Datagram (nlmsg_bytes NLMSG_ERROR 0 45 7 (enc_word 4 (- 2 :: i32))) (NetlinkAddr 0)] @
     ([Datagram (dgram 46 7 [done_msg]) (NetlinkAddr 0)] @ []))))"

lemma demo_flow_present: "keys_eq (flow_keys demo_flow) (flow_keys demo_flow)"
  using demo_flow_ok by (intro flow_keys_equality.eq_refl) (simp add: faithful_flow_def)

lemma demo_flow_msg_length: "length (wire q p demo_flow_msg) = 76" "fst demo_flow_msg = 23"
  by (simp_all add: wire_msg demo_flow_msg_def ovs_body_def demo_flow_trees align4)

lemma demo_flow_session:
  "kernel_session flow_table (flow_replies demo_dp) 7 42 [] demo_ops demo_replies
     [Acked, Flows [demo_flow], Acked, Refused (- 2), Flows []] []"
proof -
  have one: "flow_replies demo_dp q 7 Acked [Datagram (wire q 7 demo_flow_msg) (NetlinkAddr 0)]" for q
    using demo_flow_msg_length(1) [of q 7] demo_flow_msg_length(2)
    unfolding flow_replies.simps one_reply_def
    by (intro exI [of _ demo_flow_msg] conjI exI [of _ "[]"]) (simp_all add: NLMSG_ERROR_def RECV_BUF_def)
  have err: "flow_replies demo_dp 45 7 (Refused (- 2))
      [Datagram (nlmsg_bytes NLMSG_ERROR 0 45 7 (enc_word 4 (- 2 :: i32))) (NetlinkAddr 0)]"
    unfolding flow_replies.simps error_reply_def
    by (intro conjI exI [of _ 0] exI [of _ "[]"]) (simp_all add: RECV_BUF_def)
  have empty: "flow_replies demo_dp 46 7 (Flows []) [Datagram (dgram 46 7 [done_msg]) (NetlinkAddr 0)]"
    using done_msg_ok unfolding flow_replies.simps dump_reply_def
    by (intro exI [of _ "[[done_msg]]"]) (simp add: dump_of_def dump_items_def RECV_BUF_def done_msg_def align4)
  have nd: "\<not> is_done demo_report_msg" using demo_report_msg_length(2) by (simp add: is_done_def NLMSG_DONE_def)
  have full: "flow_replies demo_dp 43 7 (Flows [demo_flow]) [Datagram (dgram 43 7 [demo_report_msg, done_msg]) (NetlinkAddr 0)]"
    unfolding flow_replies.simps dump_reply_def
    using done_msg_ok demo_report_msg_ok demo_report_msg_length(1) [of 43 7] demo_report_msg_length(2) nd
    by (intro exI [of _ "[[demo_report_msg, done_msg]]"])
      (simp add: dump_of_def dump_items_def RECV_BUF_def align4 NLMSG_ERROR_def NLMSG_DONE_def, simp add: done_msg_def)
  have steps: "flow_table (PutFlow demo_flow) [] = (Acked, [demo_flow])"
    "flow_table (RemoveFlow (flow_keys demo_flow)) [demo_flow] = (Acked, [])"
    "flow_table (RemoveFlow (flow_keys demo_flow)) [] = (Refused (- 2), [])"
    using demo_flow_present by (simp_all add: put_flow_def has_flow_def)
  note session = session_cons [where spec = flow_table]
  show ?thesis unfolding demo_ops_def demo_replies_def
    using one [of 42] one [of 44] err empty full
    by (intro session [OF steps(1)] session [OF flow_table.simps(4)] session [OF steps(2)] session [OF steps(3)] session_nil)
      (simp_all del: flow_replies.simps)
qed



end
