(* ===== verification/Vport_Table.thy ===== *)
theory Vport_Table
  imports Kernel_Sessions
begin

text \<open>
  The vport requests of \<^verbatim>\<open>odp/vport.go\<close> implement a table of vports.  The kernel chooses the number of a
  new vport, or refuses it, by the function \<open>alloc\<close>; a missing vport is reported as \<^verbatim>\<open>ENODEV\<close>.
\<close>

section \<open>The table\<close>

type_synonym vport_table = "(u32 \<times> VportSpec) list"

datatype vport_op =
  AddVport VportSpec | RemoveVport u32 | FindVport u32 | FindVportByName string | NameOfVport u32 | ShowVports

datatype vport_answer =
    Numbered u32 VportSpec | Removed | VRefused i32 | Found u32 VportSpec | NameFound u32 VportSpec
  | NameMissing u32 | Vports vport_table

definition find_name :: "string \<Rightarrow> vport_table \<Rightarrow> (u32 \<times> VportSpec) option" where
  "find_name name tbl = List.find (\<lambda>(n, spec). spec_Name spec = name) tbl"

fun vport_table_step ::
    "(vport_table \<Rightarrow> VportSpec \<Rightarrow> i32 + u32) \<Rightarrow> vport_op \<Rightarrow> vport_table \<Rightarrow> vport_answer \<times> vport_table" where
  "vport_table_step alloc (AddVport spec) tbl =
     (case alloc tbl spec of Inl e \<Rightarrow> (VRefused e, tbl) | Inr n \<Rightarrow> (Numbered n spec, tbl @ [(n, spec)]))"
| "vport_table_step alloc (RemoveVport n) tbl =
     (if map_of tbl n = None then (VRefused (- 19), tbl) else (Removed, filter (\<lambda>(m, _). m \<noteq> n) tbl))"
| "vport_table_step alloc (FindVport n) tbl =
     ((case map_of tbl n of None \<Rightarrow> VRefused (- 19) | Some spec \<Rightarrow> Found n spec), tbl)"
| "vport_table_step alloc (FindVportByName name) tbl =
     ((case find_name name tbl of None \<Rightarrow> VRefused (- 19) | Some (n, spec) \<Rightarrow> Found n spec), tbl)"
| "vport_table_step alloc (NameOfVport n) tbl =
     ((case map_of tbl n of None \<Rightarrow> NameMissing n | Some spec \<Rightarrow> NameFound n spec), tbl)"
| "vport_table_step alloc ShowVports tbl = (Vports tbl, tbl)"

text \<open>Numbers are distinct, provided that the kernel gives a new vport a free number.\<close>

definition fresh_numbers :: "(vport_table \<Rightarrow> VportSpec \<Rightarrow> i32 + u32) \<Rightarrow> bool" where
  "fresh_numbers alloc \<longleftrightarrow> (\<forall>tbl spec n. alloc tbl spec = Inr n \<longrightarrow> n \<notin> fst ` set tbl)"

definition vports_ok :: "vport_table \<Rightarrow> bool" where
  "vports_ok tbl \<longleftrightarrow> distinct (map fst tbl)"

lemma vport_table_ok:
  assumes "vports_ok tbl" "fresh_numbers alloc"
  shows "vports_ok (snd (vport_table_step alloc op tbl))"
proof (cases op)
  case (AddVport spec)
  then show ?thesis using assms by (auto simp: vports_ok_def fresh_numbers_def split: sum.split)
next
  case (RemoveVport n)
  then show ?thesis using assms by (auto simp: vports_ok_def distinct_map inj_on_def)
qed (use assms in simp_all)

section \<open>The requests\<close>

datatype vport_result = VDone | Number u32 | Port Vport | PortName string | Ports "Vport list"

definition result :: "('x \<Rightarrow> vport_result) \<Rightarrow> ('x, sys) outcome \<Rightarrow> (vport_result, sys) outcome" where
  "result f r = and_then r (\<lambda>x w. (Ok (f x), w))"

fun run_vport_op :: "DatapathHandle \<Rightarrow> vport_op \<Rightarrow> sys \<Rightarrow> (vport_result, sys) outcome" where
  "run_vport_op dp (AddVport spec) w = result Number (CreateVport dp spec w)"
| "run_vport_op dp (RemoveVport n) w = result (\<lambda>_. VDone) (DeleteVport dp n w)"
| "run_vport_op dp (FindVport n) w = result Port (LookupVport dp n w)"
| "run_vport_op dp (FindVportByName name) w = result Port (dp_LookupVportByName dp name w)"
| "run_vport_op dp (NameOfVport n) w = result PortName (LookupVportName dp n w)"
| "run_vport_op dp ShowVports w = result Ports (EnumerateVports dp w)"

fun vport_body :: "i32 \<Rightarrow> vport_op \<Rightarrow> bytes" where
  "vport_body i (AddVport spec) = ovs_body OVS_VPORT_CMD_NEW OVS_VPORT_VERSION i (create_vport_trees spec)"
| "vport_body i (RemoveVport n) = ovs_body OVS_VPORT_CMD_DEL OVS_VPORT_VERSION i [Raw OVS_VPORT_ATTR_PORT_NO (enc_word 4 n)]"
| "vport_body i (FindVport n) = ovs_body OVS_VPORT_CMD_GET OVS_VPORT_VERSION i [Raw OVS_VPORT_ATTR_PORT_NO (enc_word 4 n)]"
| "vport_body i (FindVportByName name) =
     ovs_body OVS_VPORT_CMD_GET OVS_VPORT_VERSION i [Raw OVS_VPORT_ATTR_NAME (string_bytes name @ [0])]"
| "vport_body i (NameOfVport n) = ovs_body OVS_VPORT_CMD_GET OVS_VPORT_VERSION i [Raw OVS_VPORT_ATTR_PORT_NO (enc_word 4 n)]"
| "vport_body i ShowVports = ovs_body OVS_VPORT_CMD_GET OVS_VPORT_VERSION i []"

definition vport_request :: "DatapathHandle \<Rightarrow> u32 \<Rightarrow> vport_op \<Rightarrow> bytes" where
  "vport_request dp q op =
     nlmsg_bytes (fam_id (families (dp_dpif dp) ! VPORT)) (if op = ShowVports then DumpFlags else RequestFlags) q 0
       (vport_body (dp_ifindex dp) op)"

text \<open>
  The kernel describes a vport in a message with the command of the request, or, before Linux 4.19,
  with \<^verbatim>\<open>OVS_VPORT_CMD_NEW\<close> whatever the request was.
\<close>

definition tells_vport :: "DatapathHandle \<Rightarrow> u8 \<Rightarrow> wmsg \<Rightarrow> u32 \<times> VportSpec \<Rightarrow> bool" where
  "tells_vport dp cmd m v \<longleftrightarrow>
     (\<exists>c. (c = cmd \<or> c = OVS_VPORT_CMD_NEW) \<and> vp_msg_ok (dp_dpif dp) m c (dp_ifindex dp) (fst v) (snd v))"

fun vport_replies :: "DatapathHandle \<Rightarrow> u32 \<Rightarrow> u32 \<Rightarrow> vport_answer \<Rightarrow> recv_answer list \<Rightarrow> bool" where
  "vport_replies dp q pid (Numbered n spec) ds = (\<exists>m. one_reply q pid m ds \<and> tells_vport dp OVS_VPORT_CMD_NEW m (n, spec))"
| "vport_replies dp q pid Removed ds = (\<exists>m. one_reply q pid m ds)"
| "vport_replies dp q pid (VRefused e) ds = error_reply q pid e ds"
| "vport_replies dp q pid (Found n spec) ds = (\<exists>m. one_reply q pid m ds \<and> tells_vport dp OVS_VPORT_CMD_GET m (n, spec))"
| "vport_replies dp q pid (NameFound n spec) ds = (\<exists>m. one_reply q pid m ds \<and> tells_vport dp OVS_VPORT_CMD_GET m (n, spec))"
| "vport_replies dp q pid (NameMissing n) ds = error_reply q pid (- 19) ds"
| "vport_replies dp q pid (Vports tbl) ds = dump_reply q pid (tells_vport dp OVS_VPORT_CMD_GET) tbl ds"

definition as_vport :: "u32 \<times> VportSpec \<Rightarrow> Vport" where
  "as_vport v = \<lparr>vp_ID = fst v, vp_Spec = Some (snd v)\<rparr>"

fun vport_agrees :: "DatapathHandle \<Rightarrow> vport_answer \<Rightarrow> vport_result res \<Rightarrow> bool" where
  "vport_agrees dp (Numbered n spec) r = (r = Ok (Number n))"
| "vport_agrees dp Removed r = (r = Ok VDone)"
| "vport_agrees dp (VRefused e) r = (r = Err (netlink_error e))"
| "vport_agrees dp (Found n spec) r = (r = Ok (Port (as_vport (n, spec))))"
| "vport_agrees dp (NameFound n spec) r = (r = Ok (PortName (spec_Name spec)))"
| "vport_agrees dp (NameMissing n) r =
     (r = Ok (PortName (show_int (sint (dp_ifindex dp)) @ '':'' @ show_nat (unat n))))"
| "vport_agrees dp (Vports tbl) r = (r = Ok (Ports (map as_vport tbl)))"

section \<open>Refinement\<close>

lemma tells_vport_get:
  assumes "tells_vport dp OVS_VPORT_CMD_GET m v"
  obtains c where "vp_msg_ok (dp_dpif dp) m c (dp_ifindex dp) (fst v) (snd v)" "cmd_accepted VPORT (uint OVS_VPORT_CMD_GET) c"
  using assms get_reply_accepted unfolding tells_vport_def by blast

lemma vport_told:
  assumes "one_reply (nextSeqNo w + 1) (PortId (dpif_sock (dp_dpif dp)) w) m ds"
    "inbox_of (dpif_sock (dp_dpif dp)) w = ds @ rest" "sends w = []" "0 < fuel w"
  shows "tells_vport dp OVS_VPORT_CMD_NEW m (n, spec) \<Longrightarrow> \<exists>w'. CreateVport dp spec' w = (Ok n, w') \<and>
      served (dpif_sock (dp_dpif dp)) (vport_request dp (nextSeqNo w + 1) (AddVport spec')) rest w w'"
    "tells_vport dp OVS_VPORT_CMD_GET m (n, spec) \<Longrightarrow> \<exists>w'. LookupVport dp n' w = (Ok (as_vport (n, spec)), w') \<and>
      served (dpif_sock (dp_dpif dp)) (vport_request dp (nextSeqNo w + 1) (FindVport n')) rest w w'"
    "tells_vport dp OVS_VPORT_CMD_GET m (n, spec) \<Longrightarrow> \<exists>w'. dp_LookupVportByName dp name w = (Ok (as_vport (n, spec)), w') \<and>
      served (dpif_sock (dp_dpif dp)) (vport_request dp (nextSeqNo w + 1) (FindVportByName name)) rest w w'"
proof -
  have a: "answer (sends w) = Ok ()" using assms(3) by simp
  note r = one_reply_answers [OF assms(1,2), THEN conjunct2, THEN conjunct1] one_reply_answers [OF assms(1,2), THEN conjunct1]
  note s = one_reply_served [OF assms(1,2)]
  show "\<exists>w'. CreateVport dp spec' w = (Ok n, w') \<and>
      served (dpif_sock (dp_dpif dp)) (vport_request dp (nextSeqNo w + 1) (AddVport spec')) rest w w'"
    if "tells_vport dp OVS_VPORT_CMD_NEW m (n, spec)"
  proof -
    have "vp_msg_ok (dp_dpif dp) m OVS_VPORT_CMD_NEW (dp_ifindex dp) n spec"
      using that unfolding tells_vport_def fst_conv snd_conv by blast
    from CreateVport_reply [OF a assms(4) r this] s show ?thesis by (simp add: vport_request_def del: ovs_consts)
  qed
  show "\<exists>w'. LookupVport dp n' w = (Ok (as_vport (n, spec)), w') \<and>
      served (dpif_sock (dp_dpif dp)) (vport_request dp (nextSeqNo w + 1) (FindVport n')) rest w w'"
    if "tells_vport dp OVS_VPORT_CMD_GET m (n, spec)"
  proof (rule tells_vport_get [OF that, unfolded fst_conv snd_conv])
    fix c
    assume "vp_msg_ok (dp_dpif dp) m c (dp_ifindex dp) n spec" "cmd_accepted VPORT (uint OVS_VPORT_CMD_GET) c"
    from LookupVport_reply [OF a assms(4) r this] s show ?thesis
      by (simp add: vport_request_def as_vport_def del: ovs_consts)
  qed
  show "\<exists>w'. dp_LookupVportByName dp name w = (Ok (as_vport (n, spec)), w') \<and>
      served (dpif_sock (dp_dpif dp)) (vport_request dp (nextSeqNo w + 1) (FindVportByName name)) rest w w'"
    if "tells_vport dp OVS_VPORT_CMD_GET m (n, spec)"
  proof (rule tells_vport_get [OF that, unfolded fst_conv snd_conv])
    fix c
    assume "vp_msg_ok (dp_dpif dp) m c (dp_ifindex dp) n spec" "cmd_accepted VPORT (uint OVS_VPORT_CMD_GET) c"
    from lookupVport_reply [OF a assms(4) r this] s show ?thesis
      by (simp add: vport_request_def as_vport_def dp_LookupVportByName_def del: ovs_consts)
  qed
qed

lemma vport_refused:
  assumes "error_reply (nextSeqNo w + 1) (PortId (dpif_sock (dp_dpif dp)) w) e ds"
    "inbox_of (dpif_sock (dp_dpif dp)) w = ds @ rest" "sends w = []" "0 < fuel w"
    "op \<noteq> ShowVports" "\<forall>n. op \<noteq> NameOfVport n"
  shows "\<exists>w'. run_vport_op dp op w = (Err (netlink_error e), w') \<and>
    served (dpif_sock (dp_dpif dp)) (vport_request dp (nextSeqNo w + 1) op) rest w w'"
proof -
  note call = call_refused [OF _ assms(1-4), where family = VPORT and i = "dp_ifindex dp" and version = OVS_VPORT_VERSION]
  show ?thesis
  proof (cases op)
    case (AddVport spec)
    from call [OF create_vport_emits [of spec], of OVS_VPORT_CMD_NEW] AddVport show ?thesis
      by (auto simp: CreateVport_def result_def vport_request_def simp del: ovs_consts seq_gens.simps)
  next
    case (RemoveVport n)
    from call [OF put_uint32.attr_emitter_axioms [of OVS_VPORT_ATTR_PORT_NO n], of OVS_VPORT_CMD_DEL] RemoveVport show ?thesis
      by (auto simp: DeleteVport_def result_def vport_request_def simp del: ovs_consts)
  next
    case (FindVport n)
    from call [OF put_uint32.attr_emitter_axioms [of OVS_VPORT_ATTR_PORT_NO n], of OVS_VPORT_CMD_GET] FindVport show ?thesis
      by (auto simp: LookupVport_def result_def vport_request_def simp del: ovs_consts)
  next
    case (FindVportByName name)
    from call [OF put_string.attr_emitter_axioms [of OVS_VPORT_ATTR_NAME name], of OVS_VPORT_CMD_GET] FindVportByName show ?thesis
      by (auto simp: dp_LookupVportByName_def lookupVport_def result_def vport_request_def simp del: ovs_consts)
  qed (use assms in auto)
qed

lemma vport_removed:
  assumes "one_reply (nextSeqNo w + 1) (PortId (dpif_sock (dp_dpif dp)) w) m ds"
    "inbox_of (dpif_sock (dp_dpif dp)) w = ds @ rest" "sends w = []" "0 < fuel w"
  shows "\<exists>w'. DeleteVport dp n w = (Ok (), w') \<and>
    served (dpif_sock (dp_dpif dp)) (vport_request dp (nextSeqNo w + 1) (RemoveVport n)) rest w w'"
  using call_acked [OF put_uint32.attr_emitter_axioms [of OVS_VPORT_ATTR_PORT_NO n] assms, of VPORT OVS_VPORT_CMD_DEL
      OVS_VPORT_VERSION "dp_ifindex dp"]
  by (simp add: DeleteVport_def vport_request_def del: ovs_consts)

lemma vport_named:
  assumes "LookupVport dp n w = (r, w')"
  shows "r = Ok (as_vport (n', spec)) \<Longrightarrow> LookupVportName dp n w = (Ok (spec_Name spec), w')"
    "r = Err (netlink_error (- 19)) \<Longrightarrow>
      LookupVportName dp n w = (Ok (show_int (sint (dp_ifindex dp)) @ '':'' @ show_nat (unat n)), w')"
  using assms by (simp_all add: LookupVportName_def as_vport_def netlink_error_ENODEV IsNoSuchVportError_def)

lemma listed_vports:
  assumes "dump_reply (nextSeqNo w + 1) (PortId (dpif_sock (dp_dpif dp)) w) (tells_vport dp OVS_VPORT_CMD_GET) vs ds"
    "inbox_of (dpif_sock (dp_dpif dp)) w = ds @ rest" "sends w = []" "RECV_BUF \<le> fuel w" "length ds \<le> fuel w"
  shows "\<exists>w'. EnumerateVports dp w = (Ok (map as_vport vs), w') \<and>
    served (dpif_sock (dp_dpif dp)) (vport_request dp (nextSeqNo w + 1) ShowVports) rest w w'"
proof -
  have says: "vp_says dp m (fst v) (Some (snd v))" if "tells_vport dp OVS_VPORT_CMD_GET m v" for m v
    using that unfolding tells_vport_def vp_says_def by simp
  have good: "vp_listed dp m"
    if "v \<in> set vs" "tells_vport dp OVS_VPORT_CMD_GET m v" "fst m \<noteq> NLMSG_ERROR" "fst m \<noteq> NLMSG_DONE" for m v
    using that says unfolding vp_listed_def by blast
  obtain ms w' where w': "EnumerateVports dp w = (Ok (fold (vp_entry dp) ms []), w')"
    "list_all2 (tells_vport dp OVS_VPORT_CMD_GET) ms vs"
    "served (dpif_sock (dp_dpif dp)) (vport_request dp (nextSeqNo w + 1) ShowVports) rest w w'"
    unfolding EnumerateVports_def vport_request_def vport_body.simps
    by (rule dump_answered [OF vport_dump.dump_handler_axioms good assms]) simp_all
  have "list_all2 (\<lambda>m (vid, s). vp_says dp m vid s) ms (map (\<lambda>v. (fst v, Some (snd v))) vs)"
    using w'(2) says by (auto simp: list_all2_map2 elim: list_all2_mono)
  from fold_vp_entries [OF this, of "[]"] w' show ?thesis by (simp add: as_vport_def o_def)
qed

lemma vport_changed:
  fixes dp w
  defines "s \<equiv> dpif_sock (dp_dpif dp)"
  assumes "vport_replies dp (nextSeqNo w + 1) (PortId s w) (fst (vport_table_step alloc op tbl)) ds"
    "inbox_of s w = ds @ rest" "sends w = []" "RECV_BUF \<le> fuel w" "length ds \<le> fuel w"
    "(\<exists>spec. op = AddVport spec) \<or> (\<exists>n. op = RemoveVport n)"
  shows "\<exists>r w'. run_vport_op dp op w = (r, w') \<and> vport_agrees dp (fst (vport_table_step alloc op tbl)) r \<and>
    served s (vport_request dp (nextSeqNo w + 1) op) rest w w'"
proof -
  note a = assms(2-) [unfolded s_def]
  have fuel: "0 < fuel w" using a(4) by (simp add: RECV_BUF_def)
  note told = vport_told [OF _ a(2,3) fuel]
  have refused: ?thesis
    if "fst (vport_table_step alloc op tbl) = VRefused e" "op \<noteq> ShowVports" "\<forall>n. op \<noteq> NameOfVport n" for e
    using vport_refused [OF _ a(2,3) fuel that(2,3), of e] a(1) that(1) by (auto simp: s_def)
  show ?thesis
  proof (cases op)
    case (AddVport spec)
    show ?thesis
    proof (cases "alloc tbl spec")
      case (Inr n)
      with a(1) AddVport obtain m where m: "one_reply (nextSeqNo w + 1) (PortId (dpif_sock (dp_dpif dp)) w) m ds"
        "tells_vport dp OVS_VPORT_CMD_NEW m (n, spec)" by auto
      from told(1) [OF m, of spec] AddVport Inr show ?thesis by (auto simp: s_def result_def)
    qed (use refused AddVport in simp)
  next
    case (RemoveVport n)
    show ?thesis
    proof (cases "map_of tbl n")
      case (Some spec)
      with a(1) RemoveVport obtain m where "one_reply (nextSeqNo w + 1) (PortId (dpif_sock (dp_dpif dp)) w) m ds" by auto
      from vport_removed [OF this a(2,3) fuel, of n] RemoveVport Some show ?thesis by (auto simp: s_def result_def)
    qed (use refused RemoveVport in simp)
  qed (use assms(7) in auto)
qed

lemma vport_found:
  fixes dp w
  defines "s \<equiv> dpif_sock (dp_dpif dp)"
  assumes "vport_replies dp (nextSeqNo w + 1) (PortId s w) (fst (vport_table_step alloc op tbl)) ds"
    "inbox_of s w = ds @ rest" "sends w = []" "RECV_BUF \<le> fuel w" "length ds \<le> fuel w"
    "(\<exists>n. op = FindVport n) \<or> (\<exists>name. op = FindVportByName name)"
  shows "\<exists>r w'. run_vport_op dp op w = (r, w') \<and> vport_agrees dp (fst (vport_table_step alloc op tbl)) r \<and>
    served s (vport_request dp (nextSeqNo w + 1) op) rest w w'"
proof -
  note a = assms(2-) [unfolded s_def]
  have fuel: "0 < fuel w" using a(4) by (simp add: RECV_BUF_def)
  note told = vport_told [OF _ a(2,3) fuel]
  have refused: ?thesis
    if "fst (vport_table_step alloc op tbl) = VRefused e" "op \<noteq> ShowVports" "\<forall>n. op \<noteq> NameOfVport n" for e
    using vport_refused [OF _ a(2,3) fuel that(2,3), of e] a(1) that(1) by (auto simp: s_def)
  show ?thesis
  proof (cases op)
    case (FindVport n)
    show ?thesis
    proof (cases "map_of tbl n")
      case (Some spec)
      with a(1) FindVport obtain m where m: "one_reply (nextSeqNo w + 1) (PortId (dpif_sock (dp_dpif dp)) w) m ds"
        "tells_vport dp OVS_VPORT_CMD_GET m (n, spec)" by auto
      from told(2) [OF m, of n] FindVport Some show ?thesis by (auto simp: s_def result_def)
    qed (use refused FindVport in simp)
  next
    case (FindVportByName name)
    show ?thesis
    proof (cases "find_name name tbl")
      case (Some v)
      obtain n spec where v: "v = (n, spec)" by (rule prod.exhaust)
      with Some a(1) FindVportByName obtain m where m: "one_reply (nextSeqNo w + 1) (PortId (dpif_sock (dp_dpif dp)) w) m ds"
        "tells_vport dp OVS_VPORT_CMD_GET m (n, spec)" by auto
      from told(3) [OF m, of name] FindVportByName Some v show ?thesis by (auto simp: s_def result_def)
    qed (use refused FindVportByName in simp)
  qed (use assms(7) in auto)
qed

lemma vport_name_found:
  fixes dp w
  defines "s \<equiv> dpif_sock (dp_dpif dp)"
  assumes "vport_replies dp (nextSeqNo w + 1) (PortId s w) (fst (vport_table_step alloc op tbl)) ds"
    "inbox_of s w = ds @ rest" "sends w = []" "RECV_BUF \<le> fuel w" "length ds \<le> fuel w"
    "op = NameOfVport n"
  shows "\<exists>r w'. run_vport_op dp op w = (r, w') \<and> vport_agrees dp (fst (vport_table_step alloc op tbl)) r \<and>
    served s (vport_request dp (nextSeqNo w + 1) op) rest w w'"
proof -
  note a = assms(2-) [unfolded s_def]
  have fuel: "0 < fuel w" using a(4) by (simp add: RECV_BUF_def)
  note told = vport_told [OF _ a(2,3) fuel]
  note NameOfVport = assms(7)
  show ?thesis
  proof (cases "map_of tbl n")
    case (Some spec)
    with a(1) NameOfVport obtain m where m: "one_reply (nextSeqNo w + 1) (PortId (dpif_sock (dp_dpif dp)) w) m ds"
      "tells_vport dp OVS_VPORT_CMD_GET m (n, spec)" by auto
    from told(2) [OF m, of n] NameOfVport Some vport_named(1) [of dp n w]
    show ?thesis by (fastforce simp: s_def result_def vport_request_def)
  next
    case None
    then have "error_reply (nextSeqNo w + 1) (PortId (dpif_sock (dp_dpif dp)) w) (- 19) ds" using a(1) NameOfVport by simp
    from call_refused [OF put_uint32.attr_emitter_axioms [of OVS_VPORT_ATTR_PORT_NO n] this a(2,3) fuel, of VPORT
        OVS_VPORT_CMD_GET OVS_VPORT_VERSION "dp_ifindex dp"]
    obtain w' where w': "LookupVport dp n w = (Err (netlink_error (- 19)), w')"
      "served s (vport_request dp (nextSeqNo w + 1) (NameOfVport n)) rest w w'"
      by (auto simp: s_def LookupVport_def vport_request_def simp del: ovs_consts)
    with vport_named(2) [OF w'(1)] NameOfVport None show ?thesis by (simp add: result_def)
  qed
qed

lemma vport_answered:
  fixes dp w
  defines "s \<equiv> dpif_sock (dp_dpif dp)"
  assumes "vport_replies dp (nextSeqNo w + 1) (PortId s w) (fst (vport_table_step alloc op tbl)) ds"
    "inbox_of s w = ds @ rest" "sends w = []" "RECV_BUF \<le> fuel w" "length ds \<le> fuel w"
  shows "\<exists>r w'. run_vport_op dp op w = (r, w') \<and> vport_agrees dp (fst (vport_table_step alloc op tbl)) r \<and>
    served s (vport_request dp (nextSeqNo w + 1) op) rest w w'"
  using assms vport_changed [of dp w alloc op tbl ds rest] vport_found [of dp w alloc op tbl ds rest]
    vport_name_found [of dp w alloc op tbl ds rest] listed_vports [of w dp tbl ds rest]
  by (cases op) (auto simp: result_def)

interpretation vport_service: kernel_service "dpif_sock (dp_dpif dp)" "run_vport_op dp" "vport_request dp"
  "vport_table_step alloc" "vport_replies dp" "\<lambda>_. fresh_numbers alloc" vports_ok "vport_agrees dp" for dp alloc
  by unfold_locales (rule vport_table_ok, assumption+, rule vport_answered)

section \<open>Properties\<close>

text \<open>
  Property C4: the vport requests implement a table of vports.  Against a kernel that numbers new vports and
  answers from its table, every sequence of creations, deletions, lookups by number and by name
  and listings returns what the table gives: the number, the vport with the specification it
  was created with, its name, or the error of the kernel; the name of a missing vport is made of
  the index of the datapath and its number.  The messages sent are the requests of the interface,
  and each answer is read to its end.
\<close>

theorem vport_requests_implement_table:
  fixes dp w
  defines "s \<equiv> dpif_sock (dp_dpif dp)"
  assumes "kernel_session (vport_table_step alloc) (vport_replies dp) (PortId s w) (nextSeqNo w + 1) tbl ops ds as tbl'"
    and "vports_ok tbl" "fresh_numbers alloc" "inbox_of s w = ds @ rest" "sends w = []" "RECV_BUF \<le> fuel w" "length ds \<le> fuel w"
  shows "\<exists>rs w'. run_ops (run_vport_op dp) ops w = (rs, w') \<and> list_all2 (vport_agrees dp) as rs \<and>
    inbox_of s w' = rest \<and> vports_ok tbl' \<and>
    sent w' = sent w @ map (SysSendto (sock_fd (sockets w s))) (requests (vport_request dp) (nextSeqNo w + 1) ops)"
  using vport_service.session_refines [OF assms(2,3) [unfolded s_def] _ assms(5-) [unfolded s_def]] assms(4)
  unfolding s_def by (fastforce simp: list_all_iff)

text \<open>A kernel that gives the number 3, and a session with it.\<close>

definition demo_alloc :: "vport_table \<Rightarrow> VportSpec \<Rightarrow> i32 + u32" where
  "demo_alloc tbl spec = (if 3 \<in> fst ` set tbl then Inl (- 17) else Inr 3)"

definition demo_vport_ops :: "vport_op list" where
  "demo_vport_ops = [AddVport demo_vxlan, FindVportByName ''vx'', FindVport 3, RemoveVport 3, NameOfVport 3]"

text \<open>Creation is answered with \<^verbatim>\<open>OVS_VPORT_CMD_NEW\<close>, the first lookup as new kernels do, the second as old ones.\<close>

definition demo_vport_replies :: "recv_answer list" where
  "demo_vport_replies =
     [Datagram (wire 42 7 (demo_vport_msg OVS_VPORT_CMD_NEW 3 demo_vxlan)) (NetlinkAddr 0)] @
     ([Datagram (wire 43 7 (demo_vport_msg OVS_VPORT_CMD_GET 3 demo_vxlan)) (NetlinkAddr 0)] @
     ([Datagram (wire 44 7 (demo_vport_msg OVS_VPORT_CMD_NEW 3 demo_vxlan)) (NetlinkAddr 0)] @
     ([Datagram (wire 45 7 (demo_vport_msg OVS_VPORT_CMD_DEL 3 demo_vxlan)) (NetlinkAddr 0)] @
     ([Datagram (nlmsg_bytes NLMSG_ERROR 0 46 7 (enc_word 4 (- 19 :: i32))) (NetlinkAddr 0)] @ []))))"

lemma demo_vport_session:
  "kernel_session (vport_table_step demo_alloc) (vport_replies demo_datapath) 7 42 [] demo_vport_ops demo_vport_replies
     [Numbered 3 demo_vxlan, Found 3 demo_vxlan, Found 3 demo_vxlan, Removed, NameMissing 3] []"
proof -
  let ?m = "\<lambda>c. demo_vport_msg c 3 demo_vxlan"
  have one: "one_reply q 7 (?m c) [Datagram (wire q 7 (?m c)) (NetlinkAddr 0)]" for q c
    using demo_vport_length [of q 7 c] unfolding one_reply_def
    by (intro conjI exI [of _ "[]"]) (simp_all add: RECV_BUF_def NLMSG_ERROR_def del: ovs_consts, simp add: demo_vport_msg_def)
  have tells: "tells_vport demo_datapath cmd (?m c) (3, demo_vxlan)" if "c = cmd \<or> c = OVS_VPORT_CMD_NEW" for c cmd
    using demo_vport_msg_ok [of c] that unfolding tells_vport_def by (auto simp: demo_datapath_def simp del: ovs_consts)
  have err: "error_reply 46 7 (- 19) [Datagram (nlmsg_bytes NLMSG_ERROR 0 46 7 (enc_word 4 (- 19 :: i32))) (NetlinkAddr 0)]"
    unfolding error_reply_def by (intro conjI exI [of _ 0] exI [of _ "[]"]) (simp_all add: RECV_BUF_def)
  have replies: "vport_replies demo_datapath q 7 (Numbered 3 demo_vxlan) [Datagram (wire q 7 (?m OVS_VPORT_CMD_NEW)) (NetlinkAddr 0)]"
    "vport_replies demo_datapath q 7 (Found 3 demo_vxlan) [Datagram (wire q 7 (?m OVS_VPORT_CMD_GET)) (NetlinkAddr 0)]"
    "vport_replies demo_datapath q 7 (Found 3 demo_vxlan) [Datagram (wire q 7 (?m OVS_VPORT_CMD_NEW)) (NetlinkAddr 0)]"
    "vport_replies demo_datapath q 7 Removed [Datagram (wire q 7 (?m OVS_VPORT_CMD_DEL)) (NetlinkAddr 0)]" for q
    unfolding vport_replies.simps using one tells by blast+
  have "spec_Name demo_vxlan = ''vx''" by (simp add: demo_vxlan_def NewVxlanVportSpec_def)
  then have steps: "vport_table_step demo_alloc (AddVport demo_vxlan) [] = (Numbered 3 demo_vxlan, [(3, demo_vxlan)])"
    "vport_table_step demo_alloc (FindVportByName ''vx'') [(3, demo_vxlan)] = (Found 3 demo_vxlan, [(3, demo_vxlan)])"
    "vport_table_step demo_alloc (FindVport 3) [(3, demo_vxlan)] = (Found 3 demo_vxlan, [(3, demo_vxlan)])"
    "vport_table_step demo_alloc (RemoveVport 3) [(3, demo_vxlan)] = (Removed, [])"
    "vport_table_step demo_alloc (NameOfVport 3) [] = (NameMissing 3, [])"
    by (simp_all add: demo_alloc_def find_name_def)
  note session = session_cons [where spec = "vport_table_step demo_alloc"]
  show ?thesis unfolding demo_vport_ops_def demo_vport_replies_def
    by (intro session [OF steps(1)] session [OF steps(2)] session [OF steps(3)] session [OF steps(4)] session [OF steps(5)] session_nil)
      (use replies(1) [of 42] replies(2) [of 43] replies(3) [of 44] replies(4) [of 45] err in
        \<open>simp_all add: vport_replies.simps(6) del: ovs_consts vport_replies.simps(1-5)\<close>)
qed

theorem vport_requests_implement_table_witness:
  "\<exists>w'. run_ops (run_vport_op demo_datapath) demo_vport_ops (idle_sys demo_vport_replies) =
     ([Ok (Number 3), Ok (Port \<lparr>vp_ID = 3, vp_Spec = Some demo_vxlan\<rparr>), Ok (Port \<lparr>vp_ID = 3, vp_Spec = Some demo_vxlan\<rparr>),
       Ok VDone, Ok (PortName ''6:3'')], w')"
proof -
  have "show_int (sint (dp_ifindex demo_datapath)) @ '':'' @ show_nat (unat (3 :: u32)) = ''6:3''"
    by (simp add: demo_datapath_def) code_simp
  moreover have "fresh_numbers demo_alloc" by (simp add: fresh_numbers_def demo_alloc_def)
  moreover have "length demo_vport_replies = 5" by (simp add: demo_vport_replies_def)
  ultimately show ?thesis
    using vport_requests_implement_table [of demo_alloc demo_datapath "idle_sys demo_vport_replies" "[]" demo_vport_ops
        demo_vport_replies "[Numbered 3 demo_vxlan, Found 3 demo_vxlan, Found 3 demo_vxlan, Removed, NameMissing 3]" "[]" "[]"]
      demo_vport_session
    by (auto simp: vports_ok_def RECV_BUF_def list_all2_Cons1 as_vport_def)
qed

end
