(* ===== verification/Datapath_Table.thy ===== *)
theory Datapath_Table
  imports Kernel_Sessions
begin

text \<open>
  The datapath requests of \<^verbatim>\<open>odp/datapath.go\<close> implement a table of datapaths.  The kernel chooses the index
  of a new datapath, or refuses it, by the function \<open>alloc\<close>; a missing datapath is reported as \<^verbatim>\<open>ENODEV\<close>.
\<close>

section \<open>The table\<close>

type_synonym dp_table = "(i32 \<times> string) list"

datatype dp_op = NewDp string | DropDp i32 | FindDp string | FindDpByID i32 | ShowDps

datatype dp_answer = Created i32 string | DpRemoved | DpRefused i32 | DpFound i32 string | DpNamed i32 string | Datapaths dp_table

fun dp_table_step :: "(dp_table \<Rightarrow> string \<Rightarrow> i32 + i32) \<Rightarrow> dp_op \<Rightarrow> dp_table \<Rightarrow> dp_answer \<times> dp_table" where
  "dp_table_step alloc (NewDp name) tbl =
     (case alloc tbl name of Inl e \<Rightarrow> (DpRefused e, tbl) | Inr i \<Rightarrow> (Created i name, tbl @ [(i, name)]))"
| "dp_table_step alloc (DropDp i) tbl =
     (if map_of tbl i = None then (DpRefused (- 19), tbl) else (DpRemoved, filter (\<lambda>(j, _). j \<noteq> i) tbl))"
| "dp_table_step alloc (FindDp name) tbl =
     ((case List.find (\<lambda>(i, n). n = name) tbl of None \<Rightarrow> DpRefused (- 19) | Some (i, n) \<Rightarrow> DpFound i n), tbl)"
| "dp_table_step alloc (FindDpByID i) tbl =
     ((case map_of tbl i of None \<Rightarrow> DpRefused (- 19) | Some name \<Rightarrow> DpNamed i name), tbl)"
| "dp_table_step alloc ShowDps tbl = (Datapaths tbl, tbl)"

text \<open>Indices and names are distinct, provided that the kernel refuses a name in use and gives a free index.\<close>

definition fresh_datapaths :: "(dp_table \<Rightarrow> string \<Rightarrow> i32 + i32) \<Rightarrow> bool" where
  "fresh_datapaths alloc \<longleftrightarrow>
     (\<forall>tbl name i. alloc tbl name = Inr i \<longrightarrow> i \<notin> fst ` set tbl \<and> name \<notin> snd ` set tbl)"

definition dps_ok :: "dp_table \<Rightarrow> bool" where
  "dps_ok tbl \<longleftrightarrow> distinct (map fst tbl) \<and> distinct (map snd tbl)"

lemma dp_table_ok:
  assumes "dps_ok tbl" "fresh_datapaths alloc"
  shows "dps_ok (snd (dp_table_step alloc op tbl))"
proof (cases op)
  case (NewDp name)
  then show ?thesis using assms by (auto simp: dps_ok_def fresh_datapaths_def split: sum.split)
next
  case (DropDp i)
  then show ?thesis using assms by (auto simp: dps_ok_def distinct_map inj_on_def)
qed (use assms in simp_all)

section \<open>The requests\<close>

datatype dp_result = DpDone | Opened DatapathHandle | Shown Datapath | DpMap "string \<rightharpoonup> DatapathHandle"

definition dp_result :: "('x \<Rightarrow> dp_result) \<Rightarrow> ('x, sys) outcome \<Rightarrow> (dp_result, sys) outcome" where
  "dp_result f r = and_then r (\<lambda>x w. (Ok (f x), w))"

definition handle_of :: "Dpif \<Rightarrow> i32 \<Rightarrow> DatapathHandle" where
  "handle_of dpif i = \<lparr>dp_dpif = dpif, dp_ifindex = i\<rparr>"

fun run_dp_op :: "Dpif \<Rightarrow> dp_op \<Rightarrow> sys \<Rightarrow> (dp_result, sys) outcome" where
  "run_dp_op dpif (NewDp name) w = dp_result Opened (CreateDatapath dpif name w)"
| "run_dp_op dpif (DropDp i) w = dp_result (\<lambda>_. DpDone) (Delete (handle_of dpif i) w)"
| "run_dp_op dpif (FindDp name) w = dp_result Opened (LookupDatapath dpif name w)"
| "run_dp_op dpif (FindDpByID i) w = dp_result Shown (LookupDatapathByID dpif i w)"
| "run_dp_op dpif ShowDps w = dp_result DpMap (EnumerateDatapaths dpif w)"

fun dp_body :: "dp_op \<Rightarrow> bytes" where
  "dp_body (NewDp name) = ovs_body OVS_DP_CMD_NEW OVS_DATAPATH_VERSION 0 (create_dp_trees name)"
| "dp_body (DropDp i) = ovs_body OVS_DP_CMD_DEL OVS_DATAPATH_VERSION i []"
| "dp_body (FindDp name) =
     ovs_body OVS_DP_CMD_GET OVS_DATAPATH_VERSION 0 [Raw OVS_DP_ATTR_NAME (string_bytes name @ [0])]"
| "dp_body (FindDpByID i) = ovs_body OVS_DP_CMD_GET OVS_DATAPATH_VERSION i []"
| "dp_body ShowDps = ovs_body OVS_DP_CMD_GET OVS_DATAPATH_VERSION 0 []"

definition dp_request :: "Dpif \<Rightarrow> u32 \<Rightarrow> dp_op \<Rightarrow> bytes" where
  "dp_request dpif q op =
     nlmsg_bytes (fam_id (families dpif ! DATAPATH)) (if op = ShowDps then DumpFlags else RequestFlags) q 0 (dp_body op)"

text \<open>
  The kernel describes a datapath in a message with the command of the request, or, before Linux
  4.19, with \<^verbatim>\<open>OVS_DP_CMD_NEW\<close> whatever the request was.  The message has a name among its attributes.
\<close>

definition tells_dp :: "Dpif \<Rightarrow> u8 \<Rightarrow> wmsg \<Rightarrow> i32 \<times> string \<Rightarrow> bool" where
  "tells_dp dpif cmd m d \<longleftrightarrow>
     fst m = fam_id (families dpif ! DATAPATH) \<and>
     (\<exists>c v ts. (c = cmd \<or> c = OVS_DP_CMD_NEW) \<and> snd (snd m) = ovs_body c v (fst d) ts \<and> list_all fits ts \<and>
        attrs_of ts OVS_DP_ATTR_NAME = Some (string_bytes (snd d) @ [0]))"

lemma tells_dp_msg:
  assumes "tells_dp dpif cmd m d"
  shows "dp_msg_ok dpif m (fst d) (snd d) (uint cmd)"
proof -
  obtain c v ts where m: "fst m = fam_id (families dpif ! DATAPATH)" "c = cmd \<or> c = OVS_DP_CMD_NEW"
    "snd (snd m) = ovs_body c v (fst d) ts" "list_all fits ts"
    "attrs_of ts OVS_DP_ATTR_NAME = Some (string_bytes (snd d) @ [0])"
    using assms by (auto simp: tells_dp_def)
  moreover have "cmd_accepted DATAPATH (uint cmd) c"
    using m(2) by (auto simp: cmd_accepted_def fallback_cmd_def DATAPATH_def)
  ultimately show ?thesis unfolding dp_msg_ok_def using GetString_zero by blast
qed

fun dp_replies :: "Dpif \<Rightarrow> u32 \<Rightarrow> u32 \<Rightarrow> dp_answer \<Rightarrow> recv_answer list \<Rightarrow> bool" where
  "dp_replies dpif q pid (Created i name) ds = (\<exists>m. one_reply q pid m ds \<and> tells_dp dpif OVS_DP_CMD_NEW m (i, name))"
| "dp_replies dpif q pid DpRemoved ds = (\<exists>m. one_reply q pid m ds)"
| "dp_replies dpif q pid (DpRefused e) ds = error_reply q pid e ds"
| "dp_replies dpif q pid (DpFound i name) ds = (\<exists>m. one_reply q pid m ds \<and> tells_dp dpif OVS_DP_CMD_GET m (i, name))"
| "dp_replies dpif q pid (DpNamed i name) ds = (\<exists>m. one_reply q pid m ds \<and> tells_dp dpif OVS_DP_CMD_GET m (i, name))"
| "dp_replies dpif q pid (Datapaths tbl) ds = dump_reply q pid (tells_dp dpif OVS_DP_CMD_GET) tbl ds"

definition dp_map :: "Dpif \<Rightarrow> dp_table \<Rightarrow> string \<rightharpoonup> DatapathHandle" where
  "dp_map dpif tbl = map_of (map (\<lambda>(i, name). (name, handle_of dpif i)) tbl)"

fun dp_agrees :: "Dpif \<Rightarrow> dp_answer \<Rightarrow> dp_result res \<Rightarrow> bool" where
  "dp_agrees dpif (Created i name) r = (r = Ok (Opened (handle_of dpif i)))"
| "dp_agrees dpif DpRemoved r = (r = Ok DpDone)"
| "dp_agrees dpif (DpRefused e) r = (r = Err (netlink_error e))"
| "dp_agrees dpif (DpFound i name) r = (r = Ok (Opened (handle_of dpif i)))"
| "dp_agrees dpif (DpNamed i name) r = (r = Ok (Shown \<lparr>Handle = handle_of dpif i, Name = name\<rparr>))"
| "dp_agrees dpif (Datapaths tbl) r = (r = Ok (DpMap (dp_map dpif tbl)))"

section \<open>Refinement\<close>

lemma dp_told:
  assumes "one_reply (nextSeqNo w + 1) (PortId (dpif_sock dpif) w) m ds"
    "inbox_of (dpif_sock dpif) w = ds @ rest" "sends w = []" "0 < fuel w"
  shows "tells_dp dpif OVS_DP_CMD_NEW m (i, name) \<Longrightarrow> \<exists>w'. CreateDatapath dpif n w = (Ok (handle_of dpif i), w') \<and>
      served (dpif_sock dpif) (dp_request dpif (nextSeqNo w + 1) (NewDp n)) rest w w'"
    "tells_dp dpif OVS_DP_CMD_GET m (i, name) \<Longrightarrow> \<exists>w'. LookupDatapath dpif n w = (Ok (handle_of dpif i), w') \<and>
      served (dpif_sock dpif) (dp_request dpif (nextSeqNo w + 1) (FindDp n)) rest w w'"
    "tells_dp dpif OVS_DP_CMD_GET m (i, name) \<Longrightarrow>
      \<exists>w'. LookupDatapathByID dpif j w = (Ok \<lparr>Handle = handle_of dpif j, Name = name\<rparr>, w') \<and>
        served (dpif_sock dpif) (dp_request dpif (nextSeqNo w + 1) (FindDpByID j)) rest w w'"
proof -
  have a: "answer (sends w) = Ok ()" using assms(3) by simp
  note r = one_reply_answers [OF assms(1,2), THEN conjunct2, THEN conjunct1] one_reply_answers [OF assms(1,2), THEN conjunct1]
  note s = one_reply_served [OF assms(1,2)]
  show "\<exists>w'. CreateDatapath dpif n w = (Ok (handle_of dpif i), w') \<and>
      served (dpif_sock dpif) (dp_request dpif (nextSeqNo w + 1) (NewDp n)) rest w w'"
    if "tells_dp dpif OVS_DP_CMD_NEW m (i, name)"
    using CreateDatapath_reply [OF a assms(4) r tells_dp_msg [OF that, unfolded fst_conv snd_conv]] s
    by (simp add: dp_request_def handle_of_def del: ovs_consts)
  show "\<exists>w'. LookupDatapath dpif n w = (Ok (handle_of dpif i), w') \<and>
      served (dpif_sock dpif) (dp_request dpif (nextSeqNo w + 1) (FindDp n)) rest w w'"
    if "tells_dp dpif OVS_DP_CMD_GET m (i, name)"
    using LookupDatapath_reply [OF a assms(4) r tells_dp_msg [OF that, unfolded fst_conv snd_conv]] s
    by (simp add: dp_request_def handle_of_def del: ovs_consts)
  show "\<exists>w'. LookupDatapathByID dpif j w = (Ok \<lparr>Handle = handle_of dpif j, Name = name\<rparr>, w') \<and>
      served (dpif_sock dpif) (dp_request dpif (nextSeqNo w + 1) (FindDpByID j)) rest w w'"
    if "tells_dp dpif OVS_DP_CMD_GET m (i, name)"
    using ovs_call_reply [OF skip_gen_emits a assms(4) r, of DATAPATH OVS_DP_CMD_GET OVS_DATAPATH_VERSION j] s
      parseDatapathInfo_msg [OF tells_dp_msg [OF that, unfolded fst_conv snd_conv], of "[]" "nextSeqNo w + 1" "PortId (dpif_sock dpif) w"]
    by (simp add: LookupDatapathByID_def wire_msg dp_request_def handle_of_def del: ovs_consts)
qed

lemma dp_refused:
  assumes "error_reply (nextSeqNo w + 1) (PortId (dpif_sock dpif) w) e ds"
    "inbox_of (dpif_sock dpif) w = ds @ rest" "sends w = []" "0 < fuel w" "op \<noteq> ShowDps"
  shows "\<exists>w'. run_dp_op dpif op w = (Err (netlink_error e), w') \<and>
    served (dpif_sock dpif) (dp_request dpif (nextSeqNo w + 1) op) rest w w'"
proof -
  note call = call_refused [OF _ assms(1-4), where family = DATAPATH and version = OVS_DATAPATH_VERSION]
  show ?thesis
  proof (cases op)
    case (NewDp name)
    from call [OF create_dp_emits [of name], of OVS_DP_CMD_NEW 0] NewDp show ?thesis
      by (auto simp: CreateDatapath_def Let_def dp_result_def dp_request_def simp del: ovs_consts seq_gens.simps)
  next
    case (DropDp i)
    from call [OF skip_gen_emits, of OVS_DP_CMD_DEL i] DropDp show ?thesis
      by (auto simp: Delete_def dp_result_def dp_request_def handle_of_def simp del: ovs_consts)
  next
    case (FindDp name)
    from call [OF put_string.attr_emitter_axioms [of OVS_DP_ATTR_NAME name], of OVS_DP_CMD_GET 0] FindDp show ?thesis
      by (auto simp: LookupDatapath_def dp_result_def dp_request_def simp del: ovs_consts)
  next
    case (FindDpByID i)
    from call [OF skip_gen_emits, of OVS_DP_CMD_GET i] FindDpByID show ?thesis
      by (auto simp: LookupDatapathByID_def dp_result_def dp_request_def simp del: ovs_consts)
  qed (use assms(5) in simp)
qed

lemma dp_removed:
  assumes "one_reply (nextSeqNo w + 1) (PortId (dpif_sock dpif) w) m ds"
    "inbox_of (dpif_sock dpif) w = ds @ rest" "sends w = []" "0 < fuel w"
  shows "\<exists>w'. Delete (handle_of dpif i) w = (Ok (), w') \<and>
    served (dpif_sock dpif) (dp_request dpif (nextSeqNo w + 1) (DropDp i)) rest w w'"
  using call_acked [OF skip_gen_emits assms, of DATAPATH OVS_DP_CMD_DEL OVS_DATAPATH_VERSION i]
  by (simp add: Delete_def handle_of_def dp_request_def del: ovs_consts)

lemma dom_dp_map: "dom (dp_map dpif tbl) = snd ` set tbl"
  by (simp add: dp_map_def dom_map_of_conv_image_fst image_image case_prod_unfold)

lemma dp_map_Cons: "dp_map dpif (d # tbl) = (dp_map dpif tbl)(snd d \<mapsto> handle_of dpif (fst d))"
  by (cases d) (simp add: dp_map_def)

lemma fold_dp_entries:
  assumes "list_all2 (tells_dp dpif OVS_DP_CMD_GET) ms tbl" "distinct (map snd tbl)"
  shows "fold (dp_entry dpif) ms res = res ++ dp_map dpif tbl"
  using assms
proof (induction ms tbl arbitrary: res rule: list_all2_induct)
  case (Cons m ms d tbl)
  have "dp_msg_ok dpif m (fst d) (snd d) (uint OVS_DP_CMD_GET)" using Cons.hyps(1) by (rule tells_dp_msg)
  then have "dp_entry dpif m res = res(snd d \<mapsto> handle_of dpif (fst d))"
    using parseDatapathInfo_msg [of dpif m "fst d" "snd d" _ "[]" 0 0] by (simp add: dp_entry_def handle_of_def)
  moreover have "snd d \<notin> dom (dp_map dpif tbl)" using Cons.prems by (simp add: dom_dp_map)
  ultimately show ?case
    using Cons.IH Cons.prems by (simp add: dp_map_Cons map_add_upd_left del: fun_upd_apply)
qed (simp add: dp_map_def)

lemma listed_dps:
  assumes "dump_reply (nextSeqNo w + 1) (PortId (dpif_sock dpif) w) (tells_dp dpif OVS_DP_CMD_GET) tbl ds"
    "inbox_of (dpif_sock dpif) w = ds @ rest" "sends w = []" "RECV_BUF \<le> fuel w" "length ds \<le> fuel w" "dps_ok tbl"
  shows "\<exists>w'. EnumerateDatapaths dpif w = (Ok (dp_map dpif tbl), w') \<and>
    served (dpif_sock dpif) (dp_request dpif (nextSeqNo w + 1) ShowDps) rest w w'"
proof -
  have good: "dp_listed dpif m" if "d \<in> set tbl" "tells_dp dpif OVS_DP_CMD_GET m d" "fst m \<noteq> NLMSG_ERROR" "fst m \<noteq> NLMSG_DONE" for m d
    using that tells_dp_msg unfolding dp_listed_def by blast
  obtain ms w' where "EnumerateDatapaths dpif w = (Ok (fold (dp_entry dpif) ms Map.empty), w')" "list_all2 (tells_dp dpif OVS_DP_CMD_GET) ms tbl"
    "served (dpif_sock dpif) (dp_request dpif (nextSeqNo w + 1) ShowDps) rest w w'"
    unfolding EnumerateDatapaths_def dp_request_def dp_body.simps
    by (rule dump_answered [OF datapath_dump.dump_handler_axioms good assms(1-5)]) simp_all
  with fold_dp_entries [of dpif ms tbl Map.empty] assms(6) show ?thesis by (auto simp: dps_ok_def)
qed

lemma dp_answered:
  fixes dpif w
  defines "s \<equiv> dpif_sock dpif"
  assumes "dps_ok tbl" "dp_replies dpif (nextSeqNo w + 1) (PortId s w) (fst (dp_table_step alloc op tbl)) ds"
    "inbox_of s w = ds @ rest" "sends w = []" "RECV_BUF \<le> fuel w" "length ds \<le> fuel w"
  shows "\<exists>r w'. run_dp_op dpif op w = (r, w') \<and> dp_agrees dpif (fst (dp_table_step alloc op tbl)) r \<and>
    served s (dp_request dpif (nextSeqNo w + 1) op) rest w w'"
proof -
  note a = assms(3-) [unfolded s_def]
  have fuel: "0 < fuel w" using a(4) by (simp add: RECV_BUF_def)
  note told = dp_told [OF _ a(2,3) fuel]
  have refused: ?thesis if "fst (dp_table_step alloc op tbl) = DpRefused e" "op \<noteq> ShowDps" for e
    using dp_refused [OF _ a(2,3) fuel that(2), of e] a(1) that(1) by (auto simp: s_def)
  show ?thesis
  proof (cases op)
    case (NewDp name)
    show ?thesis
    proof (cases "alloc tbl name")
      case (Inr i)
      with a(1) NewDp obtain m where "one_reply (nextSeqNo w + 1) (PortId (dpif_sock dpif) w) m ds"
        "tells_dp dpif OVS_DP_CMD_NEW m (i, name)" by auto
      from told(1) [OF this, of name] NewDp Inr show ?thesis by (auto simp: s_def dp_result_def)
    qed (use refused NewDp in simp)
  next
    case (DropDp i)
    show ?thesis
    proof (cases "map_of tbl i")
      case (Some n)
      with a(1) DropDp obtain m where "one_reply (nextSeqNo w + 1) (PortId (dpif_sock dpif) w) m ds" by auto
      from dp_removed [OF this a(2,3) fuel, of i] DropDp Some show ?thesis by (auto simp: s_def dp_result_def)
    qed (use refused DropDp in simp)
  next
    case (FindDp name)
    show ?thesis
    proof (cases "List.find (\<lambda>(i, n). n = name) tbl")
      case (Some d)
      obtain i n where d: "d = (i, n)" by (rule prod.exhaust)
      with Some a(1) FindDp obtain m where "one_reply (nextSeqNo w + 1) (PortId (dpif_sock dpif) w) m ds"
        "tells_dp dpif OVS_DP_CMD_GET m (i, n)" by auto
      from told(2) [OF this, of name] FindDp Some d show ?thesis by (auto simp: s_def dp_result_def)
    qed (use refused FindDp in simp)
  next
    case (FindDpByID i)
    show ?thesis
    proof (cases "map_of tbl i")
      case (Some name)
      with a(1) FindDpByID obtain m where "one_reply (nextSeqNo w + 1) (PortId (dpif_sock dpif) w) m ds"
        "tells_dp dpif OVS_DP_CMD_GET m (i, name)" by auto
      from told(3) [OF this, of i] FindDpByID Some show ?thesis by (auto simp: s_def dp_result_def)
    qed (use refused FindDpByID in simp)
  next
    case ShowDps
    with a assms(2) listed_dps [of w dpif tbl ds rest] show ?thesis by (auto simp: s_def dp_result_def)
  qed
qed

interpretation dp_service: kernel_service "dpif_sock dpif" "run_dp_op dpif" "dp_request dpif"
  "dp_table_step alloc" "dp_replies dpif" "\<lambda>_. fresh_datapaths alloc" dps_ok "dp_agrees dpif" for dpif alloc
  by unfold_locales (rule dp_table_ok, assumption+, rule dp_answered)

section \<open>Properties\<close>

text \<open>
  Property C5: the datapath requests implement a table of datapaths.  Against a kernel that gives new datapaths
  an index and answers from its table, every sequence of creations, deletions, lookups by name
  and by index and listings returns what the table gives: a handle with the index, the
  name, the map from names to handles, or the error of the kernel.  The messages sent are the
  requests of the interface, and each answer is read to its end.
\<close>

theorem datapath_requests_implement_table:
  fixes dpif w
  defines "s \<equiv> dpif_sock dpif"
  assumes "kernel_session (dp_table_step alloc) (dp_replies dpif) (PortId s w) (nextSeqNo w + 1) tbl ops ds as tbl'"
    and "dps_ok tbl" "fresh_datapaths alloc" "inbox_of s w = ds @ rest" "sends w = []" "RECV_BUF \<le> fuel w" "length ds \<le> fuel w"
  shows "\<exists>rs w'. run_ops (run_dp_op dpif) ops w = (rs, w') \<and> list_all2 (dp_agrees dpif) as rs \<and>
    inbox_of s w' = rest \<and> dps_ok tbl' \<and>
    sent w' = sent w @ map (SysSendto (sock_fd (sockets w s))) (requests (dp_request dpif) (nextSeqNo w + 1) ops)"
  using dp_service.session_refines [OF assms(2,3) [unfolded s_def] _ assms(5-) [unfolded s_def]] assms(4)
  unfolding s_def by (fastforce simp: list_all_iff)

text \<open>A kernel with room for one datapath.\<close>

definition demo_dp_alloc :: "dp_table \<Rightarrow> string \<Rightarrow> i32 + i32" where
  "demo_dp_alloc tbl name = (if tbl = [] then Inr 6 else Inl (- 17))"

definition demo_dp_ops :: "dp_op list" where
  "demo_dp_ops = [NewDp ''dp'', NewDp ''dp'', FindDp ''dp'', ShowDps]"

definition demo_get_msg :: wmsg where
  "demo_get_msg = (21, 2, ovs_body OVS_DP_CMD_GET 2 6 [Raw OVS_DP_ATTR_NAME (string_bytes ''dp'' @ [0])])"

definition demo_dp_replies :: "recv_answer list" where
  "demo_dp_replies =
     [Datagram (wire 42 7 demo_dp_msg) (NetlinkAddr 0)] @
     ([Datagram (nlmsg_bytes NLMSG_ERROR 0 43 7 (enc_word 4 (- 17 :: i32))) (NetlinkAddr 0)] @
     ([Datagram (wire 44 7 demo_get_msg) (NetlinkAddr 0)] @
     ([Datagram (dgram 45 7 [demo_get_msg, done_msg]) (NetlinkAddr 0)] @ [])))"

lemma demo_tells_dp:
  "tells_dp demo_dpif OVS_DP_CMD_NEW demo_dp_msg (6, ''dp'')" "tells_dp demo_dpif OVS_DP_CMD_GET demo_get_msg (6, ''dp'')"
proof -
  have "tells_dp demo_dpif c (21, 2, ovs_body c 2 6 [Raw OVS_DP_ATTR_NAME (string_bytes ''dp'' @ [0])]) (6, ''dp'')" for c
    unfolding tells_dp_def snd_conv fst_conv
    by (rule conjI, simp add: demo_dpif_def DATAPATH_def, rule exI [of _ c], rule exI [of _ 2],
        rule exI [of _ "[Raw OVS_DP_ATTR_NAME (string_bytes ''dp'' @ [0])]"]) (simp add: fits_def attrs_of_def)
  then show "tells_dp demo_dpif OVS_DP_CMD_NEW demo_dp_msg (6, ''dp'')" "tells_dp demo_dpif OVS_DP_CMD_GET demo_get_msg (6, ''dp'')"
    unfolding demo_dp_msg_def demo_get_msg_def by blast+
qed

lemma demo_dp_session:
  "kernel_session (dp_table_step demo_dp_alloc) (dp_replies demo_dpif) 7 42 [] demo_dp_ops demo_dp_replies
     [Created 6 ''dp'', DpRefused (- 17), DpFound 6 ''dp'', Datapaths [(6, ''dp'')]] [(6, ''dp'')]"
proof -
  have len: "length (wire q 7 demo_dp_msg) = 31" "fst demo_dp_msg = 21" "length (wire q 7 demo_get_msg) = 31" "fst demo_get_msg = 21" for q
    by (simp_all add: wire_msg demo_dp_msg_def demo_get_msg_def ovs_body_def nla_frame_def align4)
  then have one: "one_reply q 7 m [Datagram (wire q 7 m) (NetlinkAddr 0)]" if "m = demo_dp_msg \<or> m = demo_get_msg" for q m
    using that unfolding one_reply_def by (intro conjI exI [of _ "[]"]) (auto simp: RECV_BUF_def NLMSG_ERROR_def)
  have new: "dp_replies demo_dpif 42 7 (Created 6 ''dp'') [Datagram (wire 42 7 demo_dp_msg) (NetlinkAddr 0)]"
    "dp_replies demo_dpif 44 7 (DpFound 6 ''dp'') [Datagram (wire 44 7 demo_get_msg) (NetlinkAddr 0)]"
    unfolding dp_replies.simps using demo_tells_dp one by blast+
  have err: "dp_replies demo_dpif 43 7 (DpRefused (- 17))
      [Datagram (nlmsg_bytes NLMSG_ERROR 0 43 7 (enc_word 4 (- 17 :: i32))) (NetlinkAddr 0)]"
    unfolding dp_replies.simps error_reply_def by (intro conjI exI [of _ 0] exI [of _ "[]"]) (simp_all add: RECV_BUF_def)
  have nd: "\<not> is_done demo_get_msg" using len(4) by (simp add: is_done_def NLMSG_DONE_def)
  have list: "dp_replies demo_dpif 45 7 (Datapaths [(6, ''dp'')]) [Datagram (dgram 45 7 [demo_get_msg, done_msg]) (NetlinkAddr 0)]"
    unfolding dp_replies.simps dump_reply_def using demo_tells_dp(2) done_msg_ok len nd
    by (intro exI [of _ "[[demo_get_msg, done_msg]]"])
      (simp add: dump_of_def dump_items_def RECV_BUF_def align4 NLMSG_ERROR_def NLMSG_DONE_def del: ovs_consts, simp add: done_msg_def)
  have steps: "dp_table_step demo_dp_alloc (NewDp ''dp'') [] = (Created 6 ''dp'', [(6, ''dp'')])"
    "dp_table_step demo_dp_alloc (NewDp ''dp'') [(6, ''dp'')] = (DpRefused (- 17), [(6, ''dp'')])"
    "dp_table_step demo_dp_alloc (FindDp ''dp'') [(6, ''dp'')] = (DpFound 6 ''dp'', [(6, ''dp'')])"
    "dp_table_step demo_dp_alloc ShowDps [(6, ''dp'')] = (Datapaths [(6, ''dp'')], [(6, ''dp'')])"
    by (simp_all add: demo_dp_alloc_def)
  note session = session_cons [where spec = "dp_table_step demo_dp_alloc"]
  show ?thesis unfolding demo_dp_ops_def demo_dp_replies_def
    by (intro session [OF steps(1)] session [OF steps(2)] session [OF steps(3)] session [OF steps(4)] session_nil)
      (use new err list in \<open>simp_all del: dp_replies.simps\<close>)
qed

theorem datapath_requests_implement_table_witness:
  "\<exists>w'. run_ops (run_dp_op demo_dpif) demo_dp_ops (idle_sys demo_dp_replies) =
     ([Ok (Opened (handle_of demo_dpif 6)), Err (netlink_error (- 17)), Ok (Opened (handle_of demo_dpif 6)),
       Ok (DpMap [''dp'' \<mapsto> handle_of demo_dpif 6])], w')"
proof -
  have "fresh_datapaths demo_dp_alloc" by (simp add: fresh_datapaths_def demo_dp_alloc_def)
  moreover have "length demo_dp_replies = 4" by (simp add: demo_dp_replies_def)
  moreover have "dp_map demo_dpif [(6, ''dp'')] = [''dp'' \<mapsto> handle_of demo_dpif 6]" by (simp add: dp_map_def)
  ultimately show ?thesis
    using datapath_requests_implement_table [of demo_dp_alloc demo_dpif "idle_sys demo_dp_replies" "[]" demo_dp_ops
        demo_dp_replies "[Created 6 ''dp'', DpRefused (- 17), DpFound 6 ''dp'', Datapaths [(6, ''dp'')]]" "[(6, ''dp'')]" "[]"]
      demo_dp_session
    by (auto simp: dps_ok_def RECV_BUF_def list_all2_Cons1)
qed

end
