(* ===== verification/Tool_Flows.thy ===== *)
theory Tool_Flows
  imports Tool_Commands
begin

text \<open>
  The flows that the options of \<^verbatim>\<open>odp flow add\<close> describe are well formed: fields have their sizes, every
  key can be encoded and compared, and what is read back from the kernel equals what was sent.
\<close>

section \<open>Keys and actions from options\<close>

text \<open>A tunnel key made by the setters: masks are full or empty, and a field without a mask is zero.\<close>

definition option_key :: "TunnelFlowKey \<Rightarrow> bool" where
  "option_key fk \<longleftrightarrow> (let k = tf_key fk; m = tf_mask fk in ta_wf k \<and> ta_wf m \<and> unmasked m \<and>
     (AllBytes (TunnelId m) 0 \<longrightarrow> TunnelId k = replicate 8 0) \<and> (AllBytes (Ipv4Src m) 0 \<longrightarrow> Ipv4Src k = replicate 4 0) \<and>
     (AllBytes (Ipv4Dst m) 0 \<longrightarrow> Ipv4Dst k = replicate 4 0) \<and> (Tos m = 0 \<longrightarrow> Tos k = 0) \<and> (Ttl m = 0 \<longrightarrow> Ttl k = 0) \<and>
     (Df k \<longrightarrow> Df m) \<and> (Csum k \<longrightarrow> Csum m) \<and> (TpSrc m = 0 \<longrightarrow> TpSrc k = 0) \<and> (TpDst m = 0 \<longrightarrow> TpDst k = 0))"

lemma if_keeps: "(if p then x else y) = x \<longleftrightarrow> (p \<or> x = y)"
  by auto

lemma ta_restrict_id:
  "ta_restrict ta pr = ta \<longleftrightarrow>
    (pTunnelId pr \<or> TunnelId ta = replicate 8 0) \<and> (pIpv4Src pr \<or> Ipv4Src ta = replicate 4 0) \<and>
    (pIpv4Dst pr \<or> Ipv4Dst ta = replicate 4 0) \<and> (pTos pr \<or> Tos ta = 0) \<and> (pTtl pr \<or> Ttl ta = 0) \<and>
    (Df ta \<longrightarrow> pDf pr) \<and> (Csum ta \<longrightarrow> pCsum pr) \<and> (pTpSrc pr \<or> TpSrc ta = 0) \<and> (pTpDst pr \<or> TpDst ta = 0)"
  by (cases ta) (simp add: ta_restrict_def if_keeps del: if_split, blast)

lemma AllBytes_replicate: "AllBytes (replicate n x) y \<longleftrightarrow> n = 0 \<or> x = y"
  by (auto simp: AllBytes_def list_all_iff)

lemma option_key_setters:
  "option_key fk \<Longrightarrow> length a = 8 \<Longrightarrow> option_key (SetTunnelId a fk)"
  "option_key fk \<Longrightarrow> length b = 4 \<Longrightarrow> option_key (SetIpv4Src b fk)"
  "option_key fk \<Longrightarrow> length b = 4 \<Longrightarrow> option_key (SetIpv4Dst b fk)"
  "option_key fk \<Longrightarrow> option_key (SetTos x fk)"
  "option_key fk \<Longrightarrow> option_key (SetTtl x fk)"
  "option_key fk \<Longrightarrow> option_key (SetDf d fk)"
  "option_key fk \<Longrightarrow> option_key (SetCsum d fk)"
  "option_key fk \<Longrightarrow> option_key (SetTpSrc p fk)"
  "option_key fk \<Longrightarrow> option_key (SetTpDst p fk)"
  by (simp_all add: option_key_def ta_wf_def unmasked_def tunnel_setters AllBytes_replicate Let_def)

text \<open>What holds of a value when the reading succeeds.\<close>

definition gives :: "('a \<Rightarrow> bool) \<Rightarrow> 'e + 'a \<Rightarrow> bool" where
  "gives P r \<longleftrightarrow> (\<forall>x. r = Inr x \<longrightarrow> P x)"

lemma gives_bind: "gives P r \<Longrightarrow> (\<And>x. P x \<Longrightarrow> gives Q (f x)) \<Longrightarrow> gives Q (sum_bind r f)"
  by (cases r) (simp_all add: gives_def)

lemma gives_option:
  "P fk \<Longrightarrow> (\<And>v. rd s = Inr v \<Longrightarrow> P (upd v fk)) \<Longrightarrow> gives P (string_option s rd upd fk)"
  "P fk \<Longrightarrow> (\<And>w. P (upd' w fk)) \<Longrightarrow> gives P (int_option i upd' fk)"
  by (auto simp: gives_def string_option_def int_option_def sum_bind_def split: sum.splits)

lemma reader_lengths:
  "parseTunnelId s = Inr a \<Longrightarrow> length a = 8" "parseIpv4 s = Inr b \<Longrightarrow> length b = 4"
  by (auto simp: parseTunnelId_def parseIpv4_def split: option.splits if_splits)

lemma zero_option_key: "option_key zero_tunnel_key"
  by (simp add: option_key_def zero_tunnel_key_def zero_ta_def ta_wf_def unmasked_def AllBytes_replicate)

lemma parseTunnelFlags_key: "gives option_key (parseTunnelFlags tf)"
  unfolding parseTunnelFlags_def
  by (intro gives_bind [where P = option_key] gives_option option_key_setters zero_option_key;
      (assumption | erule reader_lengths))

lemma present_flag_pair: "present_flag e i = (e, \<not> e \<and> \<not> i)"
  by (simp add: present_flag_def)

text \<open>A set-tunnel action carries the fields that were given.\<close>

lemma parseSetTunnelFlags_action:
  "gives (\<lambda>a. \<forall>act. a = Some act \<longrightarrow> action_wf act) (parseSetTunnelFlags tf)"
proof (cases "parseTunnelFlags tf")
  case (Inr fk)
  let ?m = "tf_mask fk"
  let ?pr = "\<lparr>pTunnelId = AllBytes (TunnelId ?m) 0xff, pIpv4Src = AllBytes (Ipv4Src ?m) 0xff, pIpv4Dst = AllBytes (Ipv4Dst ?m) 0xff,
      pTos = (Tos ?m = 0xff), pTtl = (Ttl ?m = 0xff), pDf = Df ?m, pCsum = Csum ?m,
      pTpSrc = (TpSrc ?m = 0xffff), pTpDst = (TpDst ?m = 0xffff)\<rparr>"
  have "option_key fk" using parseTunnelFlags_key [of tf] Inr by (simp add: gives_def)
  then have "action_wf (SetTunnelAction (tf_key fk) ?pr)"
    unfolding option_key_def Let_def unmasked_def action_wf.simps ta_restrict_id sta_present_def by (auto simp del: if_split)
  then show ?thesis
    using Inr by (simp add: parseSetTunnelFlags_def gives_def Let_def bytesPresent_def present_flag_pair del: action_wf.simps)
qed (simp add: parseSetTunnelFlags_def gives_def)

section \<open>Flows from options\<close>

text \<open>A faithful flow, but for the Ethernet key, which is added second.\<close>

definition option_flow :: "FlowSpec \<Rightarrow> bool" where
  "option_flow f \<longleftrightarrow> flow_wf f \<and> comparable_keys (flow_keys f) \<and> (\<forall>k \<in> ran (flow_keys f). fk_norm k = k)"

definition good_key :: "FlowKey \<Rightarrow> bool" where
  "good_key k \<longleftrightarrow> known_key (typeId k) k \<and> \<not> exact_unknown k \<and> fk_norm k = k \<and> (typeId k = OVS_KEY_ATTR_TUNNEL \<longrightarrow> \<not> Ignored k)"

lemma good_key_wf: "good_key k \<Longrightarrow> fk_wf (typeId k) k"
  by (cases k) (simp_all add: good_key_def)

lemma option_flow_new: "option_flow NewFlowSpec"
  by (simp add: option_flow_def NewFlowSpec_def MakeFlowKeys_def flow_wf_def keys_wf_def serializable_def comparable_keys_def)

lemma option_flow_AddKey: "option_flow f \<Longrightarrow> good_key k \<Longrightarrow> option_flow (AddKey k f)"
  using good_key_wf [of k]
  by (auto simp: option_flow_def AddKey_def FlowKeys_Add_def flow_wf_def keys_wf_def serializable_def comparable_keys_def
      good_key_def ran_def)

lemma option_flow_AddAction: "option_flow f \<Longrightarrow> action_wf a \<Longrightarrow> option_flow (AddAction a f)"
  by (simp add: option_flow_def AddAction_def flow_wf_def)

lemma good_in_port: "good_key (NewInPortFlowKey v)"
proof -
  have "NewInPortFlowKey v = FK_InPort \<lparr>bf_typ = OVS_KEY_ATTR_IN_PORT, keyMask = enc_word 4 v @ replicate 4 0xff\<rparr>"
    by (simp add: NewInPortFlowKey_def NewBlobFlowKey_def write_at_def Let_def map_replicate_const)
  then show ?thesis by (simp add: good_key_def blob_wf_def blob_mask_def AllBytes_replicate)
qed

lemma good_tunnel: "option_key fk \<Longrightarrow> \<not> Ignored (FK_Tunnel fk) \<Longrightarrow> good_key (FK_Tunnel fk)"
  by (auto simp: good_key_def option_key_def Let_def ta_restrict_id present_def)

lemma good_ethernet: "length sk = 6 \<Longrightarrow> length sm = 6 \<Longrightarrow> length dk = 6 \<Longrightarrow> length dm = 6 \<Longrightarrow> good_key (FK_Ethernet (eth_fk sk sm dk dm))"
  by (simp add: good_key_def eth_fk_def blob_wf_def)

lemma and_then_Ok: "and_then r f = (Ok y, s') \<longleftrightarrow> (\<exists>x s. r = (Ok x, s) \<and> f x s = (Ok y, s'))"
  by (cases r; cases "fst r") auto

lemma case_sum_eq: "(case r of Inl e \<Rightarrow> A e | Inr x \<Rightarrow> B x) = y \<longleftrightarrow> (\<exists>e. r = Inl e \<and> A e = y) \<or> (\<exists>x. r = Inr x \<and> B x = y)"
  by (cases r) auto

lemma add_in_port_flow:
  assumes "add_in_port dp p f s = (Ok (Inr f'), s')" "option_flow f"
  shows "option_flow f'"
  using assms by (auto simp: add_in_port_def and_then_Ok case_sum_eq option_flow_AddKey good_in_port split: if_splits)

lemma ethernet_flow:
  assumes "handleEthernetFlowKeyOptions f src dst = Ok (Inr f')" "option_flow f"
  shows "faithful_flow f'"
proof -
  obtain sk sm serr dk dm derr where o: "handleEthernetAddrOption src = (sk, sm, serr)"
    "handleEthernetAddrOption dst = (dk, dm, derr)" by (metis prod.exhaust)
  then have f': "f' = AddKey (FK_Ethernet (eth_fk sk sm dk dm)) f"
    using handleEthernetFlowKeyOptions_result [OF o, of f] assms(1) by (auto split: option.splits)
  then have "option_flow f'"
    using option_flow_AddKey [OF assms(2) good_ethernet] o [THEN handleEthernetAddrOption_lengths] by blast
  moreover have "flow_keys f' OVS_KEY_ATTR_ETHERNET \<noteq> None" by (simp add: f' AddKey_def FlowKeys_Add_def eth_fk_def)
  ultimately show ?thesis by (simp add: faithful_flow_def option_flow_def)
qed

lemma faithful_AddKey: "faithful_flow f \<Longrightarrow> good_key k \<Longrightarrow> faithful_flow (AddKey k f)"
  using option_flow_AddKey [of f k] by (auto simp: faithful_flow_def option_flow_def AddKey_def FlowKeys_Add_def)

lemma faithful_AddAction: "faithful_flow f \<Longrightarrow> action_wf a \<Longrightarrow> faithful_flow (AddAction a f)"
  by (simp add: faithful_flow_def AddAction_def flow_wf_def)

lemma add_outputs_flow:
  "add_outputs dp names f s = (Ok (Inr f'), s') \<Longrightarrow> faithful_flow f \<Longrightarrow> faithful_flow f'"
  by (induction names arbitrary: f s)
    (auto simp: and_then_Ok case_sum_eq faithful_AddAction NewOutputAction_def)

lemma add_tunnels_flow:
  assumes "faithful_flow f" "option_key fk" "\<forall>act. a = Some act \<longrightarrow> action_wf act"
  shows "faithful_flow (add_set_tunnel a (add_tunnel fk f))"
  using assms by (auto simp: add_tunnel_def add_set_tunnel_def faithful_AddKey faithful_AddAction good_tunnel split: option.split)

section \<open>Properties\<close>

text \<open>
  Property C12: every flow that \<^verbatim>\<open>odp flow add\<close>, \<^verbatim>\<open>delete\<close> or \<^verbatim>\<open>clear\<close> makes from its options is well formed, whatever
  the options: the fields have the sizes the kernel expects, every key is of a known type, can be
  encoded and compared, there is an Ethernet key, no field without a mask is set, and the actions
  carry what their presence flags say.  Such a flow is read back as an equal one.
\<close>

theorem option_flows_well_formed:
  assumes "read_flow dp fs s = (Ok (Some f), s')"
  shows "faithful_flow f"
proof -
  obtain f1 s1 f2 fk a where r: "add_in_port dp (string_flag (fs ''in-port'')) NewFlowSpec s = (Ok (Inr f1), s1)"
    "handleEthernetFlowKeyOptions f1 (string_flag (fs ''eth-src'')) (string_flag (fs ''eth-dst'')) = Ok (Inr f2)"
    "parseTunnelFlags (tunnel_flags ''tunnel-'' fs) = Inr fk" "parseSetTunnelFlags (tunnel_flags ''set-tunnel-'' fs) = Inr a"
    "f = add_set_tunnel a (add_tunnel fk f2) \<or>
      add_outputs dp (split_on (CHR '','') (string_flag (fs ''output''))) (add_set_tunnel a (add_tunnel fk f2)) s1 = (Ok (Inr f), s')"
    using assms by (simp add: read_flow_def fail_opt_def and_then_Ok case_sum_eq Let_def split: if_splits) blast+
  have "faithful_flow (add_set_tunnel a (add_tunnel fk f2))"
    using ethernet_flow [OF r(2) add_in_port_flow [OF r(1) option_flow_new]] parseTunnelFlags_key r(3) parseSetTunnelFlags_action r(4)
    by (intro add_tunnels_flow) (auto simp: gives_def)
  with r(5) show ?thesis using add_outputs_flow by blast
qed

definition demo_flags :: flag_set where
  "demo_flags = flow_flags(''tunnel-tos'' \<mapsto> FInt 300, ''eth-dst'' \<mapsto> FString ''02:00:00:00:00:01'')"

lemma demo_flags:
  "string_flag (demo_flags ''in-port'') = ''''" "string_flag (demo_flags ''output'') = ''''"
  "string_flag (demo_flags ''eth-src'') = ''''" "string_flag (demo_flags ''eth-dst'') = ''02:00:00:00:00:01''"
  "tunnel_flags ''tunnel-'' demo_flags = \<lparr>tfl_id = '''', tfl_ipv4Src = '''', tfl_ipv4Dst = '''', tfl_tos = 300, tfl_ttl = - 1,
     tfl_df = '''', tfl_csum = '''', tfl_tpsrc = - 1, tfl_tpdst = - 1\<rparr>"
  "tunnel_flags ''set-tunnel-'' demo_flags = \<lparr>tfl_id = '''', tfl_ipv4Src = '''', tfl_ipv4Dst = '''', tfl_tos = - 1, tfl_ttl = - 1,
     tfl_df = '''', tfl_csum = '''', tfl_tpsrc = - 1, tfl_tpdst = - 1\<rparr>"
  by (simp_all add: demo_flags_def flow_flags_def addTunnelFlags_def tunnel_flags_def)

theorem option_flows_well_formed_witness:
  "\<exists>f. \<forall>s. read_flow demo_datapath demo_flags s = (Ok (Some f), s) \<and> faithful_flow f"
proof -
  have "handleEthernetAddrOption ''02:00:00:00:00:01'' = ([2, 0, 0, 0, 0, 1], replicate 6 0xff, None)"
    "handleEthernetAddrOption '''' = (replicate 6 0, replicate 6 0, None)" by code_simp+
  note eth = handleEthernetFlowKeyOptions_result [OF this(2,1), of NewFlowSpec]
  have set: "parseSetTunnelFlags (tunnel_flags ''set-tunnel-'' demo_flags) = Inr None"
    by (simp add: demo_flags(6) parseSetTunnelFlags_def parseTunnelFlags_def string_option_def int_option_def
        zero_tunnel_key_def zero_ta_def bytesPresent_def present_flag_def AllBytes_replicate)
  obtain fk where "parseTunnelFlags (tunnel_flags ''tunnel-'' demo_flags) = Inr fk"
    by (simp add: demo_flags(5) parseTunnelFlags_def string_option_def int_option_def)
  with set eth obtain f where f: "\<And>s. read_flow demo_datapath demo_flags s = (Ok (Some f), s)"
    by (simp add: read_flow_def add_in_port_def demo_flags(1-4))
  with option_flows_well_formed show ?thesis by blast
qed

end
