(* ===== verification/Spec2Isabelle.thy ===== *)
theory Spec2Isabelle
  imports Miss_Sessions Dump_Progress Listen_Sessions Flow_Table Vport_Table Datapath_Table Tool_Flows
begin

text \<open>
  Verification of \<^verbatim>\<open>go-odp\<close>, a Go library that controls the Open vSwitch datapath of the
  Linux kernel over netlink (\<^verbatim>\<open>src/odp\<close>), and of its command line tool (\<^verbatim>\<open>src/tool/odp\<close>).

  The library is a stack.  At the bottom, \<^verbatim>\<open>unsafe.go\<close> views byte slices as C structs and
  \<^verbatim>\<open>netlink.go\<close> builds messages, parses them and talks to a netlink socket.  \<^verbatim>\<open>genetlink.go\<close> looks
  up generic netlink families; \<^verbatim>\<open>dpif.go\<close> finds the four Open vSwitch families and keeps a
  socket; \<^verbatim>\<open>datapath.go\<close>, \<^verbatim>\<open>vport.go\<close> and \<^verbatim>\<open>flow.go\<close> make the requests about datapaths, virtual
  ports and flows; \<^verbatim>\<open>packet.go\<close> receives the packets that match no flow.

  \<^bold>\<open>Theories and what they model.\<close>

  \<^item> \<open>Go_Prelude\<close>: outcomes of Go code (a value, an error value, a panic, not returned), byte
    strings, words in memory order, decimal numbers.
  \<^item> \<open>Unsafe_Memory\<close>: slices with addresses, aligned allocation, typed views
    (\<^verbatim>\<open>unsafe.go\<close>).  \<open>Ovs_Constants\<close>: the constants of \<^verbatim>\<open>syscall.go\<close>.
  \<^item> \<open>Netlink_Builder\<close>, \<open>Netlink_Parser\<close>, \<open>Netlink_Socket\<close>: the three parts of \<^verbatim>\<open>netlink.go\<close>.
    The state \<open>sys\<close> of the socket theory holds the sockets, the package variables
    \<^verbatim>\<open>nextSeqNo\<close> and \<^verbatim>\<open>triedLoadOpenvswitchModule\<close>, the answers the kernel will give to the
    system calls and the trace of the calls made.
  \<^item> \<open>Genetlink\<close>, \<open>Dpif\<close>, \<open>Datapath\<close>, \<open>Vport\<close>: the files of those names.
  \<^item> \<open>Tunnel_Attrs\<close>, \<open>Flow_Keys\<close>, \<open>Flow_Key_Sets\<close>, \<open>Flow_Actions\<close>, \<open>Flow_Specs\<close>, \<open>Flow_Ops\<close>:
    \<^verbatim>\<open>flow.go\<close>, from tunnel attributes to the requests about flows.  Go does not fix the order
    of a loop over a map; such loops take the order as an argument, and the theorems hold for
    every order (\<open>range_order\<close>, \<open>range_ok\<close>).
  \<^item> \<open>Packet\<close>: \<^verbatim>\<open>packet.go\<close>, with the three sockets of a miss session; \<open>Miss_Sessions\<close>: such a
    session as a concurrent system of the program and the kernel; \<open>Dump_Progress\<close>: the handlers
    the package passes to the socket loops never wait.
  \<^item> \<open>Kernel_Sessions\<close>: sequences of requests of a program answered by a kernel that keeps a table
    (\<open>kernel_session\<close>), and the contract \<open>kernel_service\<close> of one group of requests.  \<open>Flow_Table\<close>,
    \<open>Vport_Table\<close>, \<open>Datapath_Table\<close>: the three tables, as abstract specifications of the requests
    of \<open>Flow_Ops\<close>, \<open>Vport\<close> and \<open>Datapath\<close>, each with an interpretation of the contract.
  \<^item> \<open>Go_Text\<close>: the text functions of the Go library that the tool uses.  \<open>Flow_Strings\<close>: the
    \<^verbatim>\<open>String\<close> methods of \<^verbatim>\<open>flow.go\<close>.
  \<^item> \<open>Tool_Dispatch\<close>, \<open>Tool_Options\<close>, \<open>Tool_Commands\<close>: \<^verbatim>\<open>tool/odp/main.go\<close>, from the table of commands
    and \<^verbatim>\<open>Flags.Parse\<close> over the options that describe flows to every command, with what it prints.
    Their state pairs the output of the process with the state \<open>sys\<close> of the library; a command
    returns its boolean or ends the process.
  \<^item> \<open>Tool_Descriptors\<close>, \<open>Tool_Flow_Lines\<close>, \<open>Tool_Flows\<close>, \<open>Tool_Behaviour\<close>, \<open>Listen_Shutdown\<close>:
    properties of the commands, the last on how a listening command ends.  \<open>Listen_Sessions\<close>: a
    session of \<^verbatim>\<open>odp datapath listen\<close> as a concurrent system of the command, its two goroutines
    and the kernel.

  \<^bold>\<open>What the theorems show.\<close>  The builder produces exactly the encoding of a tree of attributes
  (\<open>attr_emitter\<close> is the contract each \<^verbatim>\<open>Put\<close> function is shown to meet) and the parser inverts
  it.  Requests and dumps have the outcome the replies determine; a dump is read to its end
  through any number of datagrams (\<open>dump_handler\<close> is the contract of the handlers, with one
  interpretation per enumeration).  A sequence of requests about flows, vports or datapaths
  sends exactly the messages of its operations and returns the answers of the table the kernel
  keeps, errors included.  Flows that were created come back equal from an
  enumeration.  The comparisons of keys, key sets and flows are equivalences (\<open>equality\<close>), where
  they are, and independent of iteration orders.  Opening handles and sessions leaks no file
  descriptor on any error path.  A miss session serves every vport under all interleavings and
  settles.  Every command of the tool that does not listen closes what it opened (\<open>library_call\<close> is what a
  call of the library promises, with one interpretation per call).  A line of \<^verbatim>\<open>odp flow list\<close> given
  to \<^verbatim>\<open>odp flow add\<close> describes the same flow, and every flow read from options is one the library
  sends and reads back unchanged.  The capture stream holds the missed packets.
  A listening command ends with its goroutines, under every interleaving (\<open>closing_consumer\<close> is
  the contract of their consumers).
  Several theorems state what the code does on inputs its comments or callers do not
  expect.

  \<^bold>\<open>Bounds.\<close>  The loops over received messages can run for ever, so they have fuel, and running
  out of it is an outcome of its own, \<open>Blocked OutOfFuel\<close>, apart from waiting in a system call.
  The length of the receive buffer plus two, and more than the number of pending datagrams, is
  shown to be enough.  All other recursion is over lists or has a measure.

  \<^bold>\<open>Assumptions.\<close>  The kernel and the C library are arguments: the lists of answers in \<open>sys\<close>, or
  hypotheses that describe a reply.  The tables of \<open>Flow_Table\<close>, \<open>Vport_Table\<close> and
  \<open>Datapath_Table\<close> state the documented behaviour of the kernel module; the numbers it gives to new
  vports and datapaths are an argument, assumed fresh.  A reply carries the command of its request or,
  as before Linux 4.19, that of a notification (\<open>tells_dp\<close>, \<open>tells_vport\<close>, \<open>reports_flow\<close>).  A flow need
  not be reported with the attributes it was created with: \<open>reports_keys\<close> allows further wildcarded
  fields of the known types, the in-port with the upper half of its mask set, and any bits outside the
  masks; \<open>reports_action\<close> allows the flat encoding of tunnel actions.  Attributes of types unknown to
  the library are assumed absent from these reports.  Addresses of allocated memory are arbitrary.  Machine
  integers have their Go width; \<^verbatim>\<open>int\<close> is used only for lengths and positions, which stay below
  the size of memory, and is a natural number here.  The machine is little endian.
  The files the tool writes to are lists of texts, and starting \<^verbatim>\<open>tcpdump\<close> and writing to its pipe
  have the outcomes that lists of answers give.  The shell splits a line at blanks outside double
  quotes.

  \<^bold>\<open>Not modelled.\<close>  The tests; the process \<^verbatim>\<open>tcpdump\<close> and the terminal.  The texts of most error
  values are the values themselves.
\<close>

end
